(* ===== verification/Prelude.thy ===== *)
theory Prelude
  imports Main "HOL-Library.AList"
begin

text \<open>
  Shared vocabulary of the development: Go maps as association lists with distinct keys,
  the results of fallible calls, the string functions of package \<open>strings\<close> the sources
  use, and generic lemmas on lists that several components need.

  A Go map is a \<open>('k \<times> 'v) list\<close>: \<open>map_of\<close> is the lookup, \<open>AList.update\<close> the store,
  \<open>length\<close> is \<open>len\<close>, and the list order is one of the iteration orders Go may choose.
  A function whose result could depend on that order takes the order as an argument.
\<close>

named_theorems go_defs \<open>unfolding rules of the small helper definitions\<close>
named_theorems frame \<open>fields an operation leaves alone\<close>
named_theorems inv_intros \<open>operations preserve the invariant of their component\<close>

type_synonym ('k, 'v) gomap = "('k \<times> 'v) list"

abbreviation mget :: "('k, 'v) gomap \<Rightarrow> 'k \<Rightarrow> 'v option" where
  "mget m k \<equiv> map_of m k"

abbreviation mput :: "'k \<Rightarrow> 'v \<Rightarrow> ('k, 'v) gomap \<Rightarrow> ('k, 'v) gomap" where
  "mput k v m \<equiv> AList.update k v m"

definition wf_map :: "('k, 'v) gomap \<Rightarrow> bool" where
  "wf_map m \<longleftrightarrow> distinct (map fst m)"

lemma wf_map_Nil [simp, inv_intros]: "wf_map []"
  by (simp add: wf_map_def)

lemma wf_map_mput [simp, inv_intros]: "wf_map m \<Longrightarrow> wf_map (mput k v m)"
  by (simp add: wf_map_def distinct_update)

lemma mget_mput [simp]: "mget (mput k v m) k' = (if k' = k then Some v else mget m k')"
  by (simp add: update_conv')

lemma mget_map: "mget (map (\<lambda>(k, v). (k, g k v)) m) k = map_option (g k) (mget m k)"
  by (induction m) auto

lemma mget_entry: "wf_map m \<Longrightarrow> (k, v) \<in> set m \<Longrightarrow> mget m k = Some v"
  by (simp add: wf_map_def)

text \<open>\<open>m[k]\<close> for a map of slices: a missing entry reads as the empty slice.\<close>

definition rows_of :: "('k, 'r list) gomap \<Rightarrow> 'k \<Rightarrow> 'r list" where
  "rows_of m k = (case mget m k of None \<Rightarrow> [] | Some rows \<Rightarrow> rows)"

text \<open>\<open>m[key(r)] = append(m[key(r)], r)\<close> for every row.\<close>

definition group_rows :: "('r \<Rightarrow> 'k) \<Rightarrow> 'r list \<Rightarrow> ('k, 'r list) gomap" where
  "group_rows key rows = fold (\<lambda>r m. mput (key r) (rows_of m (key r) @ [r]) m) rows []"

lemma rows_of_group_rows: "rows_of (group_rows key rows) k = filter (\<lambda>r. key r = k) rows"
proof -
  have "rows_of (fold (\<lambda>r m. mput (key r) (rows_of m (key r) @ [r]) m) rows m) k
      = rows_of m k @ filter (\<lambda>r. key r = k) rows" for m
    by (induction rows arbitrary: m) (simp_all add: rows_of_def)
  then show ?thesis by (simp add: group_rows_def rows_of_def)
qed

section \<open>Bindings in the sum type\<close>

text \<open>\<open>if err != nil { return err }\<close> is a bind of the error sum.\<close>

fun ebind :: "'e + 'a \<Rightarrow> ('a \<Rightarrow> 'e + 'b) \<Rightarrow> 'e + 'b" where
  "ebind (Inl e) f = Inl e"
| "ebind (Inr a) f = f a"

lemma ebind_Inr_iff: "ebind x f = Inr b \<longleftrightarrow> (\<exists>a. x = Inr a \<and> f a = Inr b)"
  by (cases x) auto

lemma ebind_Inl_iff: "ebind x f = Inl e \<longleftrightarrow> x = Inl e \<or> (\<exists>a. x = Inr a \<and> f a = Inl e)"
  by (cases x) auto

section \<open>Package strings\<close>

text \<open>\<open>strings.HasPrefix\<close>, \<open>strings.CutPrefix\<close> and \<open>strings.Cut\<close> at a single byte.\<close>

fun hasPrefix :: "string \<Rightarrow> string \<Rightarrow> bool" where
  "hasPrefix s [] = True"
| "hasPrefix [] (p # ps) = False"
| "hasPrefix (c # s) (p # ps) = (c = p \<and> hasPrefix s ps)"

definition cutPrefix :: "string \<Rightarrow> string \<Rightarrow> string \<times> bool" where
  "cutPrefix s p = (if hasPrefix s p then (drop (length p) s, True) else (s, False))"

fun cutAt :: "char \<Rightarrow> string \<Rightarrow> string \<times> string \<times> bool" where
  "cutAt c [] = ([], [], False)"
| "cutAt c (x # s) =
     (if x = c then ([], s, True)
      else case cutAt c s of (a, b, ok) \<Rightarrow> (if ok then (x # a, b, True) else (x # s, [], False)))"

lemma hasPrefix_append [simp]: "hasPrefix (p @ s) p"
  by (induction p) auto

lemma hasPrefix_iff: "hasPrefix s p \<longleftrightarrow> (\<exists>r. s = p @ r)"
  by (induction s p rule: hasPrefix.induct) auto

lemma cutPrefix_append [simp]: "cutPrefix (p @ s) p = (s, True)"
  by (simp add: cutPrefix_def)

lemma cutAt_found: "cutAt c s = (a, b, True) \<Longrightarrow> s = a @ c # b \<and> c \<notin> set a"
  by (induction s arbitrary: a b) (auto split: if_splits prod.splits)

lemma cutAt_append: "c \<notin> set a \<Longrightarrow> cutAt c (a @ c # b) = (a, b, True)"
  by (induction a) auto

lemma cutAt_none: "cutAt c s = (a, b, False) \<Longrightarrow> c \<notin> set s"
  by (induction s arbitrary: a b) (auto split: if_splits prod.splits)

text \<open>Package \<open>strconv\<close>: \<open>Atoi\<close> of a decimal integer that fits \<open>int\<close>; anything else is an error.\<close>

fun digits_value :: "int \<Rightarrow> string \<Rightarrow> int option" where
  "digits_value acc [] = Some acc"
| "digits_value acc (c # cs) =
     (let n = (of_char c :: nat) in
      if 48 \<le> n \<and> n \<le> 57 then digits_value (10 * acc + (int n - 48)) cs else None)"

definition int64_or_error :: "int \<Rightarrow> int option" where
  "int64_or_error n = (if - (2 ^ 63) \<le> n \<and> n < 2 ^ 63 then Some n else None)"

definition Atoi :: "string \<Rightarrow> int option" where
  "Atoi s =
     (case s of
        [] \<Rightarrow> None
      | c # cs \<Rightarrow>
          (if c = CHR ''-'' \<or> c = CHR ''+''
           then if cs = [] then None
                else Option.bind (digits_value 0 cs) (\<lambda>n. int64_or_error (if c = CHR ''-'' then - n else n))
           else Option.bind (digits_value 0 s) int64_or_error))"

definition hasSuffix :: "string \<Rightarrow> string \<Rightarrow> bool" where
  "hasSuffix s p = hasPrefix (rev s) (rev p)"

definition trimSuffix :: "string \<Rightarrow> string \<Rightarrow> string" where
  "trimSuffix s p = (if hasSuffix s p then take (length s - length p) s else s)"

lemma hasSuffix_append [simp]: "hasSuffix (s @ p) p"
  by (simp add: hasSuffix_def)

lemma trimSuffix_append [simp]: "trimSuffix (s @ p) p = s"
  by (simp add: trimSuffix_def)

section \<open>Lists\<close>

text \<open>\<open>append(xs[:i], xs[i+1:]...)\<close>: the list without its element number \<open>i\<close>.\<close>

definition remove_at :: "nat \<Rightarrow> 'a list \<Rightarrow> 'a list" where
  "remove_at i xs = take i xs @ drop (Suc i) xs"

lemma length_remove_at [simp]: "i < length xs \<Longrightarrow> length (remove_at i xs) = length xs - 1"
  by (simp add: remove_at_def)

lemma set_remove_at_subset: "set (remove_at i xs) \<subseteq> set xs"
  by (auto simp: remove_at_def dest: in_set_takeD in_set_dropD)

lemma set_remove_at: "i < length xs \<Longrightarrow> set xs = insert (xs ! i) (set (remove_at i xs))"
  by (subst id_take_nth_drop [of i xs]) (auto simp: remove_at_def)

lemma remove_at_not_in: "distinct xs \<Longrightarrow> i < length xs \<Longrightarrow> xs ! i \<notin> set (remove_at i xs)"
  using id_take_nth_drop [of i xs] distinct_append [of "take i xs" "xs ! i # drop (Suc i) xs"]
  by (auto simp: remove_at_def)

lemma distinct_remove_at [intro]: "distinct xs \<Longrightarrow> distinct (remove_at i xs)"
proof (cases "i < length xs")
  case True
  assume "distinct xs"
  then have "distinct (take i xs @ xs ! i # drop (Suc i) xs)"
    using id_take_nth_drop [OF True] by simp
  then show ?thesis by (auto simp: remove_at_def)
next
  case False
  assume "distinct xs"
  with False show ?thesis by (simp add: remove_at_def)
qed

lemma find_found: "find P xs = Some y \<Longrightarrow> y \<in> set xs \<and> P y"
  by (induction xs) (auto split: if_splits)

lemma find_exists: "x \<in> set xs \<Longrightarrow> P x \<Longrightarrow> \<exists>y. find P xs = Some y"
  by (induction xs) auto

lemma find_same_member:
  assumes "\<And>x. P x \<and> x \<in> set xs \<longleftrightarrow> Q x \<and> x \<in> set ys"
    and "\<And>x y. x \<in> set ys \<Longrightarrow> y \<in> set ys \<Longrightarrow> Q x \<Longrightarrow> Q y \<Longrightarrow> x = y"
  shows "find P xs = find Q ys"
proof (cases "find Q ys")
  case None
  then have "\<not> (Q x \<and> x \<in> set ys)" for x by (auto simp: find_None_iff)
  with assms(1) have "find P xs = None" unfolding find_None_iff by blast
  with None show ?thesis by simp
next
  case (Some y)
  have y: "y \<in> set ys" "Q y" using find_found [OF Some] by simp_all
  then have "P y" "y \<in> set xs" using assms(1) by blast+
  then obtain x where x: "find P xs = Some x" using find_exists by metis
  have "P x" "x \<in> set xs" using find_found [OF x] by simp_all
  then have "Q x" "x \<in> set ys" using assms(1) by blast+
  with y have "x = y" using assms(2) by blast
  with x Some show ?thesis by simp
qed

lemma mput_nonempty [simp]: "mput k v m \<noteq> []"
  by (cases m) auto

text \<open>The newest \<open>n\<close> elements: \<open>xs[max(len(xs)-n, 0):]\<close>.\<close>

definition newest :: "nat \<Rightarrow> 'a list \<Rightarrow> 'a list" where
  "newest n xs = drop (length xs - n) xs"

lemma length_newest: "length (newest n xs) = min n (length xs)"
  by (auto simp: newest_def)

lemma newest_all: "length xs \<le> n \<Longrightarrow> newest n xs = xs"
  by (simp add: newest_def)

lemma newest_map: "map f (newest n xs) = newest n (map f xs)"
  by (simp add: newest_def drop_map)

lemma newest_append_newest: "newest n (newest n xs @ ys) = newest n (xs @ ys)"
proof (cases "length xs \<le> n")
  case True
  then show ?thesis by (simp add: newest_all)
next
  case False
  then show ?thesis by (simp add: newest_def add.commute)
qed

end
