(* ===== verification/GoTime.thy ===== *)
theory GoTime
  imports Prelude
begin

text \<open>
  Package \<open>time\<close> as the sources use it. A \<open>time.Time\<close> is an instant, the \<open>int\<close> number
  of nanoseconds since the Unix epoch; a \<open>time.Duration\<close> is an int64 number of nanoseconds,
  so \<open>t.Sub(u)\<close> saturates and \<open>Duration(n) * Second\<close> wraps around, both written out on
  \<open>int\<close>. A reading of the clock (\<open>time.Now()\<close>) is an argument of the operation that
  makes it; an operation that makes several takes the sequence of its readings.
\<close>

type_synonym time = int
type_synonym duration = int

definition Nanosecond :: duration where "Nanosecond = 1"
definition Second :: duration where "Second = 1000000000"
definition Minute :: duration where "Minute = 60 * Second"

lemmas duration_units [go_defs] = Second_def Minute_def Nanosecond_def

text \<open>\<open>time.Time{}\<close>: year 1, January 1, 00:00:00 UTC.\<close>

definition zeroTime :: time where "zeroTime = -62135596800 * Second"

definition wrap64 :: "int \<Rightarrow> int" where
  "wrap64 x = (x + 2 ^ 63) mod 2 ^ 64 - 2 ^ 63"

definition time_Sub :: "time \<Rightarrow> time \<Rightarrow> duration" where
  "time_Sub t u = max (- (2 ^ 63)) (min (2 ^ 63 - 1) (t - u))"

definition seconds :: "int \<Rightarrow> duration" where
  "seconds n = wrap64 (n * Second)"

text \<open>A column of type INTEGER holds 32 bits; no window read from one overflows a Duration.\<close>

definition int32 :: "int \<Rightarrow> bool" where
  "int32 n \<longleftrightarrow> - (2 ^ 31) \<le> n \<and> n < 2 ^ 31"

lemma wrap64_id: "- (2 ^ 63) \<le> x \<Longrightarrow> x < 2 ^ 63 \<Longrightarrow> wrap64 x = x"
  by (simp add: wrap64_def)

lemma wrap64_range: "- (2 ^ 63) \<le> wrap64 x" "wrap64 x < 2 ^ 63"
  by (simp_all add: wrap64_def)

lemma seconds_int32: "int32 n \<Longrightarrow> seconds n = n * Second"
  unfolding seconds_def by (rule wrap64_id) (auto simp: int32_def Second_def)

lemma time_Sub_ge_iff:
  "- (2 ^ 63) < w \<Longrightarrow> w < 2 ^ 63 \<Longrightarrow> time_Sub t u \<ge> w \<longleftrightarrow> t - u \<ge> w"
  by (auto simp: time_Sub_def)

lemma time_Sub_less_iff:
  "- (2 ^ 63) < w \<Longrightarrow> w < 2 ^ 63 \<Longrightarrow> time_Sub t u < w \<longleftrightarrow> t - u < w"
  using time_Sub_ge_iff [of w t u] by linarith

section \<open>Stored times\<close>

text \<open>A TIMESTAMPTZ column keeps microseconds; the rest of a \<open>time.Time\<close> is cut off.\<close>

definition timestamptz :: "time \<Rightarrow> time" where
  "timestamptz t = t - t mod 1000"

lemma timestamptz_exact: "t mod 1000 = 0 \<Longrightarrow> timestamptz t = t"
  by (simp add: timestamptz_def)

lemma timestamptz_idem [simp]: "timestamptz (timestamptz t) = timestamptz t"
  by (rule timestamptz_exact) (simp add: timestamptz_def minus_mod_eq_mult_div)

lemma timestamptz_close: "timestamptz t \<le> t \<and> t < timestamptz t + 1000"
  by (simp add: timestamptz_def)

end
