(* ===== verification/Calendar.thy ===== *)
theory Calendar
  imports GoTime
begin

text \<open>
  The civil calendar of package \<open>time\<close> in UTC: \<open>Time.Year\<close>, \<open>Time.Month\<close>, \<open>Time.Day\<close>,
  \<open>time.Date\<close> with its normalisation of months and days out of range, and \<open>Time.AddDate\<close>,
  on the proleptic Gregorian calendar without leap seconds. A month is numbered absolutely,
  \<open>12 * year + (month - 1)\<close>, so carrying a month into the year is integer addition.
\<close>

section \<open>Months and years\<close>

definition leap :: "int \<Rightarrow> bool" where
  "leap y \<longleftrightarrow> y mod 4 = 0 \<and> (y mod 100 \<noteq> 0 \<or> y mod 400 = 0)"

text \<open>Leap years in the years 1 to \<open>n\<close>.\<close>

definition leaps :: "int \<Rightarrow> int" where
  "leaps n = n div 4 - n div 100 + n div 400"

text \<open>Days before month \<open>k\<close> (0 to 11) of a year.\<close>

definition month_offset :: "bool \<Rightarrow> int \<Rightarrow> int" where
  "month_offset lp k =
     (if k = 0 then 0 else if k = 1 then 31
      else (if k = 2 then 59 else if k = 3 then 90 else if k = 4 then 120 else if k = 5 then 151
            else if k = 6 then 181 else if k = 7 then 212 else if k = 8 then 243
            else if k = 9 then 273 else if k = 10 then 304 else 334)
           + (if lp then 1 else 0))"

text \<open>The day number (1970-01-01 is day 0) on which absolute month \<open>m\<close> starts.\<close>

definition month_start :: "int \<Rightarrow> int" where
  "month_start m =
     (let y = m div 12
      in 365 * (y - 1) + leaps (y - 1) - 719162 + month_offset (leap y) (m mod 12))"

lemma div_step: "(0::int) < k \<Longrightarrow> y div k - (y - 1) div k = (if y mod k = 0 then 1 else 0)"
proof -
  assume k: "0 < k"
  have y: "y = k * (y div k) + y mod k" by simp
  have r: "0 \<le> y mod k" "y mod k < k" using k by simp_all
  show ?thesis
  proof (cases "y mod k = 0")
    case True
    with y have "y - 1 = k * (y div k - 1) + (k - 1)" by (simp add: algebra_simps)
    then have "(y - 1) div k = y div k - 1" by (rule int_div_pos_eq) (use k in simp_all)
    with True show ?thesis by simp
  next
    case False
    with y have "y - 1 = k * (y div k) + (y mod k - 1)" by simp
    moreover have "0 \<le> y mod k - 1" "y mod k - 1 < k" using r False by linarith+
    ultimately have "(y - 1) div k = y div k" by (rule int_div_pos_eq)
    with False show ?thesis by simp
  qed
qed

lemma leap_indicator: "(if a then 1 else 0) - (if b then 1 else 0) + (if c then 1 else 0)
   = (if a \<and> (\<not> b \<or> c) then 1 else (0::int))" if "c \<Longrightarrow> b" "b \<Longrightarrow> a"
  using that by auto

lemma mod_0_trans: "j dvd k \<Longrightarrow> y mod k = 0 \<Longrightarrow> y mod j = (0::int)"
  by (meson dvd_trans mod_0_imp_dvd dvd_imp_mod_0)

lemma leaps_step: "leaps y = leaps (y - 1) + (if leap y then 1 else 0)"
proof -
  have "leaps y - leaps (y - 1) =
      (y div 4 - (y - 1) div 4) - (y div 100 - (y - 1) div 100) + (y div 400 - (y - 1) div 400)"
    unfolding leaps_def by (simp only: diff_conv_add_uminus minus_add_distrib minus_minus ac_simps)
  also have "\<dots> = (if y mod 4 = 0 then 1 else 0) - (if y mod 100 = 0 then 1 else 0)
      + (if y mod 400 = 0 then 1 else 0)"
    by (simp only: div_step [of 4] div_step [of 100] div_step [of 400] zero_less_numeral)
  also have "\<dots> = (if leap y then 1 else 0)"
    unfolding leap_def by (rule leap_indicator; erule mod_0_trans [rotated]) simp_all
  finally show ?thesis by simp
qed
lemma leaps_mono: "n \<le> m \<Longrightarrow> 0 \<le> leaps m - leaps n \<and> leaps m - leaps n \<le> m - n"
proof (induction m rule: int_ge_induct)
  case base
  then show ?case by simp
next
  case (step i)
  then show ?case using leaps_step [of "i + 1"] by (auto split: if_splits)
qed

definition month_length :: "int \<Rightarrow> int" where
  "month_length m = month_start (m + 1) - month_start m"

lemma month_next_year: "m mod 12 = 11 \<Longrightarrow> (m + 1) div 12 = m div 12 + 1 \<and> (m + 1) mod 12 = (0::int)"
proof -
  assume "m mod 12 = 11"
  then have m: "m + 1 = 12 * (m div 12 + 1)" using div_mult_mod_eq [of m 12] by simp
  show ?thesis unfolding m by simp
qed

lemma month_same_year:
  assumes "m mod 12 \<noteq> (11::int)"
  shows "(m + 1) div 12 = m div 12" "(m + 1) mod 12 = m mod 12 + 1"
proof -
  have m: "m + 1 = 12 * (m div 12) + (m mod 12 + 1)" using div_mult_mod_eq [of m 12] by simp
  have r: "0 \<le> m mod 12 + 1" "m mod 12 + 1 < 12"
    using assms pos_mod_bound [of 12 m] pos_mod_sign [of 12 m] by linarith+
  show "(m + 1) div 12 = m div 12" using m r by (rule int_div_pos_eq)
  show "(m + 1) mod 12 = m mod 12 + 1" using m r by (rule int_mod_pos_eq)
qed

lemma month_length_bounds: "28 \<le> month_length m \<and> month_length m \<le> 31"
proof (cases "m mod 12 = 11")
  case True
  note next_year = month_next_year [OF True]
  have "month_length m = 31"
    using True next_year leaps_step [of "m div 12"]
    by (simp add: month_length_def month_start_def Let_def month_offset_def)
  then show ?thesis by simp
next
  case False
  define k where "k = m mod 12"
  have k: "0 \<le> k" "k < 11" 
    using False pos_mod_bound [of 12 m] by (simp_all add: k_def)
  have eq: "month_length m = month_offset (leap (m div 12)) (k + 1) - month_offset (leap (m div 12)) k"
    using month_same_year [OF False]
    by (simp add: month_length_def month_start_def Let_def k_def)
  have "k = 0 \<or> k = 1 \<or> k = 2 \<or> k = 3 \<or> k = 4 \<or> k = 5 \<or> k = 6 \<or> k = 7 \<or> k = 8 \<or> k = 9 \<or> k = 10"
    using k by presburger
  then show ?thesis unfolding eq by (elim disjE) (simp_all add: month_offset_def)
qed

lemma month_start_Suc: "month_start (m + 1) = month_start m + month_length m"
  by (simp add: month_length_def)

lemma month_start_mono: "m \<le> n \<Longrightarrow> month_start m + 28 * (n - m) \<le> month_start n"
proof (induction n rule: int_ge_induct)
  case base
  then show ?case by simp
next
  case (step i)
  then show ?case using month_length_bounds [of i] month_start_Suc [of i] by simp
qed

lemma month_start_less_iff: "month_start m < month_start n \<longleftrightarrow> m < n"
proof
  assume "month_start m < month_start n"
  then show "m < n" using month_start_mono [of n m] by (cases "n \<le> m") simp_all
next
  assume "m < n"
  then show "month_start m < month_start n" using month_start_mono [of m n] by simp
qed

section \<open>The month of a day\<close>

function find_month :: "int \<Rightarrow> int \<Rightarrow> int" where
  "find_month m d = (if month_start (m + 1) \<le> d then find_month (m + 1) d else m)"
  by pat_completeness auto
termination
proof (relation "measure (\<lambda>(m, d). nat (d - month_start m))")
  show "wf (measure (\<lambda>(m, d). nat (d - month_start m)))" by simp
next
  fix m d :: int
  assume "month_start (m + 1) \<le> d"
  then show "((m + 1, d), (m, d)) \<in> measure (\<lambda>(m, d). nat (d - month_start m))"
    using month_start_less_iff [of m "m + 1"] by simp
qed

declare find_month.simps [simp del]

definition month_guess :: "int \<Rightarrow> int" where
  "month_guess d = 12 * (1970 + (if 0 \<le> d then d div 366 else d div 365))"

definition month_of :: "int \<Rightarrow> int" where
  "month_of d = find_month (month_guess d) d"

lemma month_guess_le: "month_start (month_guess d) \<le> d"
proof -
  have l: "leaps 1969 = 477" by (simp add: leaps_def)
  define q where "q = (if 0 \<le> d then d div 366 else d div 365)"
  have s: "month_start (month_guess d) = 365 * q + leaps (1969 + q) - 477"
    by (simp add: month_start_def month_guess_def q_def Let_def month_offset_def algebra_simps)
  show ?thesis
  proof (cases "0 \<le> d")
    case True
    then have "0 \<le> q" "366 * q \<le> d" by (auto simp: q_def)
    with s l leaps_mono [of 1969 "1969 + q"] show ?thesis by simp
  next
    case False
    then have "q \<le> 0" "365 * q \<le> d" by (auto simp: q_def)
    with s l leaps_mono [of "1969 + q" 1969] show ?thesis by simp
  qed
qed

lemma find_month_bounds:
  "month_start m \<le> d \<Longrightarrow>
   month_start (find_month m d) \<le> d \<and> d < month_start (find_month m d + 1)"
proof (induction m d rule: find_month.induct)
  case (1 m d)
  then show ?case by (cases "month_start (m + 1) \<le> d") (simp_all add: find_month.simps [of m d])
qed

lemma month_of_bounds: "month_start (month_of d) \<le> d" "d < month_start (month_of d + 1)"
  using find_month_bounds [OF month_guess_le] by (simp_all add: month_of_def)

lemma month_of_unique: "month_start m \<le> d \<Longrightarrow> d < month_start (m + 1) \<Longrightarrow> month_of d = m"
  using month_of_bounds [of d] month_start_less_iff [of m "month_of d + 1"]
    month_start_less_iff [of "month_of d" "m + 1"] by linarith

section \<open>Dates\<close>

definition day_ns :: int where "day_ns = 86400 * Second"

lemma day_ns_pos [simp]: "0 < day_ns" "day_ns \<noteq> 0"
  by (simp_all add: day_ns_def Second_def)

definition time_Year :: "time \<Rightarrow> int" where
  "time_Year t = month_of (t div day_ns) div 12"

definition time_Month :: "time \<Rightarrow> int" where
  "time_Month t = month_of (t div day_ns) mod 12 + 1"

definition time_Day :: "time \<Rightarrow> int" where
  "time_Day t = t div day_ns - month_start (month_of (t div day_ns)) + 1"

text \<open>\<open>time.Date(year, month, day, ...)\<close>; the clock part is given in nanoseconds.\<close>

definition time_Date :: "int \<Rightarrow> int \<Rightarrow> int \<Rightarrow> int \<Rightarrow> time" where
  "time_Date year month day clock =
     (month_start (12 * year + (month - 1)) + (day - 1)) * day_ns + clock"

definition AddDate :: "int \<Rightarrow> int \<Rightarrow> int \<Rightarrow> time \<Rightarrow> time" where
  "AddDate years months days t =
     time_Date (time_Year t + years) (time_Month t + months) (time_Day t + days) (t mod day_ns)"

lemma time_Date_of_parts: "time_Date (time_Year t) (time_Month t) (time_Day t) (t mod day_ns) = t"
  by (simp add: time_Date_def time_Year_def time_Month_def time_Day_def)

text \<open>Midnight of day \<open>r\<close> of absolute month \<open>m\<close>.\<close>

definition midnight :: "int \<Rightarrow> int \<Rightarrow> time" where
  "midnight m r = (month_start m + (r - 1)) * day_ns"

definition month_day :: "int \<Rightarrow> bool" where
  "month_day r \<longleftrightarrow> 1 \<le> r \<and> r \<le> 28"

lemma month_of_midnight: "month_day r \<Longrightarrow> month_of (midnight m r div day_ns) = m"
proof -
  assume r: "month_day r"
  have "month_of (month_start m + (r - 1)) = m"
    using r month_length_bounds [of m] month_start_Suc [of m]
    by (intro month_of_unique) (auto simp: month_day_def)
  then show ?thesis by (simp add: midnight_def)
qed

lemma midnight_parts:
  assumes "month_day r"
  shows "time_Day (midnight m r) = r" "time_Year (midnight m r) = m div 12"
    "time_Month (midnight m r) = m mod 12 + 1" "midnight m r mod day_ns = 0"
  using month_of_midnight [OF assms, of m]
  by (simp_all add: time_Day_def time_Year_def time_Month_def midnight_def)

lemma AddDate_month: "month_day r \<Longrightarrow> AddDate 0 k 0 (midnight m r) = midnight (m + k) r"
proof -
  assume r: "month_day r"
  have "12 * (m div 12) + (m mod 12 + 1 + k - 1) = m + k" by simp
  then show ?thesis
    by (simp add: AddDate_def time_Date_def midnight_parts [OF r]) (simp add: midnight_def)
qed

lemma midnight_less_iff: "midnight m r < midnight n r \<longleftrightarrow> m < n"
  using day_ns_pos month_start_less_iff [of m n] by (simp add: midnight_def del: day_ns_pos)

lemma midnight_Suc_unique:
  assumes "midnight m r \<le> t" "t < midnight (m + 1) r" "midnight n r \<le> t" "t < midnight (n + 1) r"
  shows "m = n"
proof -
  have "midnight m r < midnight (n + 1) r" "midnight n r < midnight (m + 1) r"
    using assms by linarith+
  then show ?thesis by (simp add: midnight_less_iff)
qed

lemma day_bounds: "(t div day_ns) * day_ns \<le> t" "t < (t div day_ns + 1) * day_ns"
  using day_ns_pos
  by (simp_all add: algebra_simps flip: minus_mod_eq_mult_div)

lemma midnight_around:
  assumes r: "month_day r" and m: "m = month_of (t div day_ns)"
  shows "midnight (m - 1) r \<le> t" "t < midnight (m + 1) r"
proof -
  define d where "d = t div day_ns"
  have b: "month_start m \<le> d" "d < month_start (m + 1)"
    using month_of_bounds [of d] m by (simp_all add: d_def)
  have "month_start (m - 1) + (r - 1) \<le> d"
    using b r month_length_bounds [of "m - 1"] month_start_Suc [of "m - 1"]
    by (auto simp: month_day_def)
  then have "midnight (m - 1) r \<le> d * day_ns" by (simp add: midnight_def)
  with day_bounds(1) [of t] show "midnight (m - 1) r \<le> t" by (simp add: d_def)
  have "d + 1 \<le> month_start (m + 1) + (r - 1)"
    using b r by (auto simp: month_day_def)
  then have "(d + 1) * day_ns \<le> midnight (m + 1) r" by (simp add: midnight_def)
  with day_bounds(2) [of t] show "t < midnight (m + 1) r" by (simp add: d_def)
qed

end
