(* ===== verification/Float64.thy ===== *)
theory Float64
  imports Prelude
begin

text \<open>
  Go's \<open>float64\<close> and Postgres' \<open>DOUBLE PRECISION\<close>, as far as budgets and balances use them:
  comparison, addition, subtraction and the builtin \<open>max\<close>. Every finite double is an integer
  multiple of \<open>2 ^ -1074\<close>, so \<open>Fin k\<close> is the value \<open>k * 2 ^ -1074\<close>; a sum or difference is
  computed exactly on the integers and rounded once, to 53 significant bits, half to even.
  The two zeros are not told apart.
\<close>

datatype f64 = FNaN | FInf bool | Fin int  \<comment> \<open>\<open>FInf True\<close> is minus infinity\<close>

section \<open>Rounding\<close>

fun nbits :: "nat \<Rightarrow> nat" where
  "nbits n = (if n = 0 then 0 else Suc (nbits (n div 2)))"

declare nbits.simps [simp del]

text \<open>\<open>k / u\<close> rounded to the nearest integer, half to even.\<close>

definition div_even :: "int \<Rightarrow> int \<Rightarrow> int" where
  "div_even k u =
     (let q = k div u; r = k mod u
      in if 2 * r < u then q else if u < 2 * r then q + 1 else if even q then q else q + 1)"

definition round53 :: "int \<Rightarrow> int" where
  "round53 k =
     (let u = 2 ^ (nbits (nat \<bar>k\<bar>) - 53) in div_even k u * u)"

definition fround :: "int \<Rightarrow> f64" where
  "fround k = (if \<bar>round53 k\<bar> < 2 ^ 2098 then Fin (round53 k) else FInf (k < 0))"

text \<open>A value the type really holds: at most 53 significant bits, in the finite range.\<close>

definition is_f64 :: "f64 \<Rightarrow> bool" where
  "is_f64 x = (case x of Fin k \<Rightarrow> round53 k = k \<and> \<bar>k\<bar> < 2 ^ 2098 | _ \<Rightarrow> True)"

section \<open>The operations\<close>

instantiation f64 :: "{zero, plus, minus, ord}"
begin

definition zero_f64 :: f64 where "0 = Fin 0"

fun less_f64 :: "f64 \<Rightarrow> f64 \<Rightarrow> bool" where
  "Fin a < Fin b = (a < b)"
| "Fin a < FInf s = (\<not> s)"
| "FInf s < Fin b = s"
| "FInf s < FInf t = (s \<and> \<not> t)"
| "(_ :: f64) < _ = False"

fun less_eq_f64 :: "f64 \<Rightarrow> f64 \<Rightarrow> bool" where
  "Fin a \<le> Fin b = (a \<le> b)"
| "Fin a \<le> FInf s = (\<not> s)"
| "FInf s \<le> Fin b = s"
| "FInf s \<le> FInf t = (s \<or> \<not> t)"
| "(_ :: f64) \<le> _ = False"

fun plus_f64 :: "f64 \<Rightarrow> f64 \<Rightarrow> f64" where
  "Fin a + Fin b = fround (a + b)"
| "Fin a + FInf s = FInf s"
| "FInf s + Fin b = FInf s"
| "FInf s + FInf t = (if s = t then FInf s else FNaN)"
| "(_ :: f64) + _ = FNaN"

fun minus_f64 :: "f64 \<Rightarrow> f64 \<Rightarrow> f64" where
  "Fin a - Fin b = fround (a - b)"
| "Fin a - FInf s = FInf (\<not> s)"
| "FInf s - Fin b = FInf s"
| "FInf s - FInf t = (if s \<noteq> t then FInf s else FNaN)"
| "(_ :: f64) - _ = FNaN"

instance ..

end

text \<open>The builtin \<open>max\<close>: NaN if either argument is.\<close>

definition fmax :: "f64 \<Rightarrow> f64 \<Rightarrow> f64" where
  "fmax a b = (if a = FNaN \<or> b = FNaN then FNaN else if a < b then b else a)"

text \<open>The double with an integer value, for use at concrete inputs.\<close>

definition f64_of :: "int \<Rightarrow> f64" where
  "f64_of n = Fin (n * 2 ^ 1074)"

section \<open>Rounding keeps the order\<close>

lemma nbits_0 [simp]: "nbits 0 = 0"
  by (simp add: nbits.simps)

lemma nbits_upper: "n < 2 ^ nbits n"
proof (induction n rule: nbits.induct)
  case (1 n)
  show ?case
  proof (cases "n = 0")
    case False
    with 1 have "n div 2 < 2 ^ nbits (n div 2)" by simp
    with False show ?thesis by (subst nbits.simps) simp
  qed (simp add: nbits.simps)
qed

lemma nbits_lower: "0 < n \<Longrightarrow> 2 ^ (nbits n - 1) \<le> n"
proof (induction n rule: nbits.induct)
  case (1 n)
  show ?case
  proof (cases "n div 2 = 0")
    case True
    with 1 show ?thesis by (simp add: nbits.simps [of n] nbits.simps [of 0])
  next
    case False
    with 1 have "2 ^ (nbits (n div 2) - 1) \<le> n div 2" by simp
    moreover have "nbits n - 1 = Suc (nbits (n div 2) - 1)"
      using 1(2) False by (simp add: nbits.simps [of n] nbits.simps [of "n div 2"])
    ultimately show ?thesis by simp
  qed
qed

lemma nbits_mono: "m \<le> n \<Longrightarrow> nbits m \<le> nbits n"
proof (induction n arbitrary: m rule: nbits.induct)
  case (1 n)
  then show ?case
    by (cases "m = 0")
      (auto simp: nbits_0 nbits.simps [of m] nbits.simps [of n] div_le_mono)
qed

lemma div_even_bounds: "0 < u \<Longrightarrow> k div u \<le> div_even k u \<and> div_even k u \<le> k div u + 1"
  by (auto simp: div_even_def Let_def)

lemma div_even_mono: "0 < u \<Longrightarrow> a \<le> b \<Longrightarrow> div_even a u \<le> div_even b u"
proof -
  assume u: "0 < u" and ab: "a \<le> b"
  have q: "a div u \<le> b div u" using u ab by (rule zdiv_mono1 [rotated])
  show ?thesis
  proof (cases "a div u = b div u")
    case True
    have "a mod u \<le> b mod u"
      using ab True by (simp flip: minus_mult_div_eq_mod)
    with True show ?thesis by (auto simp: div_even_def Let_def)
  next
    case False
    with q have "a div u + 1 \<le> b div u" by simp
    with div_even_bounds [OF u, of a] div_even_bounds [OF u, of b] show ?thesis by linarith
  qed
qed

lemma div_even_1 [simp]: "div_even k 1 = k"
  by (simp add: div_even_def)

lemma round53_small: "\<bar>k\<bar> < 2 ^ 53 \<Longrightarrow> round53 k = k"
proof -
  assume k: "\<bar>k\<bar> < 2 ^ 53"
  have "nbits (nat \<bar>k\<bar>) \<le> 53"
  proof (cases "k = 0")
    case False
    then have "2 ^ (nbits (nat \<bar>k\<bar>) - 1) \<le> nat \<bar>k\<bar>" by (intro nbits_lower) simp
    also have "\<dots> < 2 ^ 53" using k by simp
    finally have "nbits (nat \<bar>k\<bar>) - 1 < 53" by (rule power_less_imp_less_exp [rotated]) simp
    then show ?thesis by simp
  qed (simp add: nbits.simps)
  then show ?thesis by (simp add: round53_def)
qed

lemma power2_split:
  assumes "53 \<le> n"
  shows "(2::int) ^ n = 2 ^ 53 * 2 ^ (n - 53)" "(2::int) ^ (n - 1) = 2 ^ 52 * 2 ^ (n - 53)"
proof -
  obtain m where n: "n = 53 + m" using assms le_Suc_ex by blast
  show "(2::int) ^ n = 2 ^ 53 * 2 ^ (n - 53)" unfolding n by (simp add: power_add)
  have "n - 1 = 52 + m" using n by simp
  then show "(2::int) ^ (n - 1) = 2 ^ 52 * 2 ^ (n - 53)" unfolding n by (simp add: power_add)
qed

lemma le_div_iff_mult_le_int: "0 < u \<Longrightarrow> q \<le> k div u \<longleftrightarrow> q * u \<le> (k::int)"
proof
  assume u: "0 < u" and q: "q \<le> k div u"
  have "q * u \<le> (k div u) * u" using q u by (intro mult_right_mono) simp_all
  also have "\<dots> \<le> k" using u div_mult_mod_eq [of k u] pos_mod_sign [OF u, of k] by linarith
  finally show "q * u \<le> k" .
next
  assume u: "0 < u" and q: "q * u \<le> k"
  have "q = (q * u) div u" using u by simp
  also have "\<dots> \<le> k div u" using q u by (rule zdiv_mono1)
  finally show "q \<le> k div u" .
qed

lemma round53_le_power:
  assumes "0 \<le> k" "53 \<le> nbits (nat k)"
  shows "round53 k \<le> 2 ^ nbits (nat k)" "2 ^ (nbits (nat k) - 1) \<le> round53 k"
proof -
  define n where "n = nbits (nat k)"
  define u :: int where "u = 2 ^ (n - 53)"
  have u: "0 < u" by (simp add: u_def)
  have n: "53 \<le> n" using assms(2) by (simp add: n_def)
  have r: "round53 k = div_even k u * u"
    using assms by (simp add: round53_def u_def n_def Let_def)
  have "int (nat k) < int (2 ^ n)" unfolding n_def of_nat_less_iff by (rule nbits_upper)
  then have k: "k < 2 ^ 53 * u" using assms(1) power2_split(1) [OF n] by (simp add: u_def)
  then have "k div u < 2 ^ 53" using u
    by (meson le_div_iff_mult_le_int not_le)
  then have "div_even k u \<le> 2 ^ 53" using div_even_bounds [OF u, of k] by linarith
  then have "round53 k \<le> 2 ^ 53 * u" using u unfolding r by (intro mult_right_mono) simp_all
  then show "round53 k \<le> 2 ^ nbits (nat k)"
    using power2_split(1) [OF n] by (simp add: n_def u_def)
  have "nat k \<noteq> 0" using n unfolding n_def by (metis nbits_0 not_numeral_le_zero)
  then have "0 < nat k" by (rule neq0_conv [THEN iffD1])
  then have "int (2 ^ (n - 1)) \<le> int (nat k)" unfolding n_def of_nat_le_iff by (rule nbits_lower)
  then have "2 ^ 52 * u \<le> k" using assms(1) power2_split(2) [OF n] by (simp add: u_def)
  then have "2 ^ 52 \<le> k div u" using u by (simp only: le_div_iff_mult_le_int)
  then have "2 ^ 52 \<le> div_even k u" using div_even_bounds [OF u, of k] by linarith
  then have "2 ^ 52 * u \<le> round53 k" using u unfolding r by (intro mult_right_mono) simp_all
  then show "2 ^ (nbits (nat k) - 1) \<le> round53 k"
    using power2_split(2) [OF n] by (simp add: n_def u_def)
qed

lemma round53_mono: "0 \<le> a \<Longrightarrow> a \<le> b \<Longrightarrow> round53 a \<le> round53 b"
proof -
  assume a: "0 \<le> a" and ab: "a \<le> b"
  have m: "nbits (nat a) \<le> nbits (nat b)" using ab by (intro nbits_mono) simp
  show ?thesis
  proof (cases "nbits (nat a) = nbits (nat b)")
    case True
    with a ab show ?thesis
      by (auto simp: round53_def Let_def intro!: mult_right_mono div_even_mono)
  next
    case False
    with m have less: "nbits (nat a) < nbits (nat b)" by simp
    show ?thesis
    proof (cases "53 \<le> nbits (nat b)")
      case True
      have "round53 a \<le> 2 ^ nbits (nat a)"
      proof (cases "53 \<le> nbits (nat a)")
        case False
        then have "round53 a = a" using a by (simp add: round53_def)
        moreover have "int (nat a) < int (2 ^ nbits (nat a))"
          unfolding of_nat_less_iff by (rule nbits_upper)
        ultimately show ?thesis using a by simp
      qed (use a round53_le_power in blast)
      also have "\<dots> \<le> 2 ^ (nbits (nat b) - 1)" using less by (intro power_increasing) simp_all
      also have "\<dots> \<le> round53 b" using a ab True by (intro round53_le_power) simp_all
      finally show ?thesis .
    next
      case False
      with m a ab show ?thesis by (simp add: round53_def)
    qed
  qed
qed

lemma round53_0 [simp]: "round53 0 = 0"
  by (simp add: round53_def)

lemma round53_1: "round53 1 = 1"
  by (rule round53_small) simp

lemma round53_nonneg: "0 \<le> k \<Longrightarrow> 0 \<le> round53 k"
  using round53_mono [of 0 k] by simp

lemma round53_pos: "0 < k \<Longrightarrow> 0 < round53 k"
  using round53_mono [of 1 k] round53_1 by simp

section \<open>What the budget arithmetic relies on\<close>

lemma f64_less_irrefl [simp]: "\<not> (x::f64) < x"
  by (cases x) auto

lemma f64_less_trans: "(x::f64) < y \<Longrightarrow> y < z \<Longrightarrow> x < z"
  by (cases x; cases y; cases z) auto

lemma f64_le_less_trans: "(x::f64) \<le> y \<Longrightarrow> y < z \<Longrightarrow> x < z"
  by (cases x; cases y; cases z) auto

lemma f64_less_le_trans: "(x::f64) < y \<Longrightarrow> y \<le> z \<Longrightarrow> x < z"
  by (cases x; cases y; cases z) auto

lemma f64_less_imp_le: "(x::f64) < y \<Longrightarrow> x \<le> y"
  by (cases x; cases y) auto

lemma f64_le_refl: "x \<noteq> FNaN \<Longrightarrow> x \<le> (x::f64)"
  by (cases x) auto

lemma f64_not_less: "x \<noteq> FNaN \<Longrightarrow> y \<noteq> FNaN \<Longrightarrow> \<not> y < x \<Longrightarrow> x \<le> (y::f64)"
  by (cases x; cases y) auto

lemma f64_not_NaN_linear: "x \<noteq> FNaN \<Longrightarrow> y \<noteq> FNaN \<Longrightarrow> (x < y) = (\<not> y \<le> x)"
  by (cases x; cases y) auto

lemma fround_not_NaN [simp]: "fround k \<noteq> FNaN"
  by (simp add: fround_def)

lemma fround_pos: "0 < k \<Longrightarrow> (0::f64) < fround k"
  by (simp add: fround_def zero_f64_def round53_pos)

lemma fround_nonpos: "k \<le> 0 \<Longrightarrow> \<not> (0::f64) < fround k"
proof -
  assume k: "k \<le> 0"
  have "round53 k \<le> 0"
  proof -
    have "div_even k u * u \<le> 0" if "0 < u" for u
    proof -
      have "div_even k u \<le> div_even 0 u" using that k by (rule div_even_mono)
      moreover have "div_even 0 u = 0" using that by (simp add: div_even_def)
      ultimately have "div_even k u \<le> 0" by simp
      then show ?thesis using that by (simp add: mult_le_0_iff)
    qed
    then show ?thesis by (simp add: round53_def Let_def)
  qed
  moreover have "k < 0 \<or> round53 k = 0" using k by (cases "k = 0") auto
  ultimately show ?thesis by (auto simp: fround_def zero_f64_def)
qed

text \<open>
  A difference is positive exactly when the minuend is larger: subtraction underflows
  gradually, so two different doubles never have the difference zero.
\<close>

lemma f64_zero_add: "is_f64 x \<Longrightarrow> 0 + x = x"
  by (cases x) (simp_all add: zero_f64_def is_f64_def fround_def)

lemma f64_diff_pos_iff: "(0::f64) < Fin a - Fin b \<longleftrightarrow> b < a"
  using fround_pos [of "a - b"] fround_nonpos [of "a - b"] by (cases "b < a") auto

lemma f64_add_mono:
  assumes "is_f64 (Fin a)" "0 \<le> a" "0 \<le> b"
  shows "Fin a \<le> Fin a + Fin b"
proof -
  have "round53 a \<le> round53 (a + b)" using assms by (intro round53_mono) simp_all
  with assms show ?thesis by (simp add: is_f64_def fround_def)
qed

end
