(* ===== verification/Db_Types.thy ===== *)
theory Db_Types
  imports Float64 GoTime
begin

text \<open>
  The row types of \<open>internal/db/adapter.go\<close> and the errors of \<open>internal/db\<close>. A Go \<open>int\<close> is
  an \<open>int\<close>, a pointer that may be nil an \<open>option\<close>, a \<open>time.Time\<close> a \<open>time\<close>, and a
  \<open>map[string]any\<close> holding decoded JSON a list of members.
\<close>

datatype json = JNull | JBool bool | JNum f64 | JStr string | JArr "json list"
  | JObj "(string \<times> json) list"

type_synonym metadata = "(string, json) gomap"

text \<open>A \<open>pgconn.PgError\<close> carries its SQLSTATE code; any other error its message.\<close>

datatype dberr = ErrDuplicate | ErrKeyNotFound | ErrTierNotFound | ErrTierInUse
  | PgError string | ErrOther string

record Tier =
  tier_ID :: string
  tier_Name :: string
  tier_Description :: string
  tier_CreatedAt :: time

record TierFeature =
  tf_TierID :: string
  tf_Feature :: string
  tf_RateLimit :: int
  tf_WindowSeconds :: int

record Budget =
  b_Amount :: f64
  b_Unit :: string
  b_ResetDay :: "int option"

record Key =
  key_ID :: string
  key_Name :: string
  key_KeyValue :: string
  key_TierID :: string
  key_IsActive :: bool
  key_ExpiresAt :: "time option"
  key_UsageLimit :: "int option"
  key_UsageCount :: int
  key_UsageWindowSeconds :: "int option"
  key_UsageWindowStart :: "time option"
  key_ExhaustedUntil :: "time option"
  key_Budget :: "Budget option"
  key_Spent :: f64
  key_SpentPeriodStart :: "time option"
  key_Metadata :: metadata
  key_CreatedAt :: time

record SpendEvent =
  se_ID :: string
  se_KeyID :: string
  se_ConsumerID :: string
  se_Amount :: f64
  se_Unit :: string
  se_RequestID :: string
  se_CreatedAt :: time

record KeySecret =
  ks_KeyID :: string
  ks_Name :: string
  ks_Value :: string

record Consumer =
  c_ID :: string
  c_Name :: string
  c_TokenHash :: string
  c_Description :: string
  c_IsActive :: bool
  c_CreatedAt :: time

record UsageEvent =
  ue_ID :: string
  ue_KeyID :: string
  ue_ConsumerID :: string
  ue_Feature :: string
  ue_CreatedAt :: time

text \<open>\<open>NewUsageEvent\<close>; the fresh uuid and the clock reading are its first two arguments.\<close>

definition NewUsageEvent :: "string \<Rightarrow> time \<Rightarrow> string \<Rightarrow> string \<Rightarrow> string \<Rightarrow> UsageEvent" where
  "NewUsageEvent uuid now keyID consumerID feature =
     \<lparr>ue_ID = uuid, ue_KeyID = keyID, ue_ConsumerID = consumerID, ue_Feature = feature,
      ue_CreatedAt = now\<rparr>"

end
