(* ===== verification/Budget.thy ===== *)
theory Budget
  imports Calendar Db_Types
begin

text \<open>
  \<open>internal/keypool/budget.go\<close>: what a budget and a spend report must look like, the period
  a budget counts in, and what is left of it. The period of a monthly budget runs from its
  reset day to the same day of the next month, at midnight UTC; a budget without a reset day
  has one period for its lifetime.
\<close>

section \<open>Definitions\<close>

datatype poolerr = ErrOutOfScope | ErrExhausted | ErrNotFound
  | ErrUnknownKey | ErrUnitMismatch | ErrBadBudget string | ErrBadSpend string
  | ErrStore dberr

definition UnitUSD :: string where "UnitUSD = ''usd''"
definition UnitCredits :: string where "UnitCredits = ''credits''"
definition firstResetDay :: int where "firstResetDay = 1"
definition lastResetDay :: int where "lastResetDay = 28"
definition units :: "string list" where "units = [UnitUSD, UnitCredits]"

text \<open>\<open>time.Unix(0, 0)\<close>.\<close>

definition lifetime :: time where "lifetime = 0"

definition validAmount :: "f64 \<Rightarrow> string \<Rightarrow> string option" where
  "validAmount amount unit =
     (if amount \<le> 0 then Some ''amount must be above 0''
      else if unit \<notin> set units then Some ''unit must be one of [usd credits]''
      else None)"

definition ValidateBudget :: "Budget \<Rightarrow> poolerr option" where
  "ValidateBudget b =
     (case validAmount (b_Amount b) (b_Unit b) of
        Some err \<Rightarrow> Some (ErrBadBudget err)
      | None \<Rightarrow>
          (case b_ResetDay b of
             None \<Rightarrow> None
           | Some d \<Rightarrow>
               (if d < firstResetDay \<or> lastResetDay < d
                then Some (ErrBadBudget
                  ''reset_day must be 1 to 28, or absent for a lifetime budget'')
                else None)))"

definition ValidateSpend :: "f64 \<Rightarrow> string \<Rightarrow> string \<Rightarrow> poolerr option" where
  "ValidateSpend amount unit requestID =
     (case validAmount amount unit of
        Some err \<Rightarrow> Some (ErrBadSpend err)
      | None \<Rightarrow> (if requestID = [] then Some (ErrBadSpend ''request_id is required'') else None))"

definition periodStart :: "Budget \<Rightarrow> time \<Rightarrow> time" where
  "periodStart b now =
     (case b_ResetDay b of
        None \<Rightarrow> lifetime
      | Some resetDay \<Rightarrow>
          (let start = time_Date (time_Year now) (time_Month now) resetDay 0
           in if now < start then AddDate 0 (-1) 0 start else start))"

definition nextReset :: "Budget \<Rightarrow> time \<Rightarrow> time option" where
  "nextReset b now =
     (case b_ResetDay b of
        None \<Rightarrow> None
      | Some _ \<Rightarrow> Some (AddDate 0 1 0 (periodStart b now)))"

record Spend =
  sp_KeyID :: string
  sp_Budget :: "Budget option"
  sp_Spent :: f64
  sp_ResetsAt :: "time option"
  sp_Duplicate :: bool

definition Remaining :: "Budget option \<Rightarrow> f64 \<Rightarrow> f64 option" where
  "Remaining b spent =
     (case b of None \<Rightarrow> None | Some b \<Rightarrow> Some (fmax (b_Amount b - spent) 0))"

section \<open>Validation\<close>

lemma ValidateBudget_reset_day:
  "ValidateBudget b = None \<Longrightarrow> b_ResetDay b = Some d \<Longrightarrow> month_day d"
  by (auto simp: ValidateBudget_def month_day_def firstResetDay_def lastResetDay_def
      split: option.splits if_splits)

text \<open>
  A budget is accepted exactly when its amount is not at or below zero, its unit is
  \<open>usd\<close> or \<open>credits\<close>, and its reset day is absent or a day every month has, so an accepted
  budget never names a day some month lacks.
\<close>

theorem ValidateBudget_iff:
  "ValidateBudget b = None \<longleftrightarrow>
     \<not> b_Amount b \<le> 0 \<and> b_Unit b \<in> {''usd'', ''credits''} \<and>
     (case b_ResetDay b of None \<Rightarrow> True | Some d \<Rightarrow> \<forall>m. 1 \<le> d \<and> d \<le> month_length m)"
proof -
  have "1 \<le> d \<and> d \<le> 28 \<longleftrightarrow> (\<forall>m. 1 \<le> d \<and> d \<le> month_length m)" for d
  proof
    assume "1 \<le> d \<and> d \<le> 28"
    then show "\<forall>m. 1 \<le> d \<and> d \<le> month_length m" by (meson month_length_bounds order_trans)
  next
    assume "\<forall>m. 1 \<le> d \<and> d \<le> month_length m"
    then have "1 \<le> d \<and> d \<le> month_length (12 * 2023 + 1)" by blast
    then show "1 \<le> d \<and> d \<le> 28"
      by (simp add: month_length_def month_start_def month_offset_def leap_def leaps_def Let_def)
  qed
  note day = this
  show ?thesis
    unfolding day [symmetric]
    by (auto simp: ValidateBudget_def validAmount_def units_def UnitUSD_def UnitCredits_def
        firstResetDay_def lastResetDay_def split: option.split)
qed

section \<open>Periods\<close>

lemma periodStart_lifetime [simp]: "b_ResetDay b = None \<Longrightarrow> periodStart b now = lifetime"
  by (simp add: periodStart_def)

text \<open>The period of a monthly budget is the one between two neighbouring midnights.\<close>

lemma periodStart_midnight:
  assumes "b_ResetDay b = Some d" "month_day d"
  obtains m where "periodStart b now = midnight m d" "midnight m d \<le> now" "now < midnight (m + 1) d"
    "nextReset b now = Some (midnight (m + 1) d)"
proof -
  define m0 where "m0 = month_of (now div day_ns)"
  have s: "time_Date (time_Year now) (time_Month now) d 0 = midnight m0 d"
    by (simp add: time_Date_def time_Year_def time_Month_def midnight_def m0_def)
  define m where "m = (if now < midnight m0 d then m0 - 1 else m0)"
  have p: "periodStart b now = midnight m d"
    using AddDate_month [OF assms(2), of "-1" m0] assms(1)
    by (simp add: periodStart_def s Let_def m_def)
  have "midnight m d \<le> now" "now < midnight (m + 1) d"
    using midnight_around [OF assms(2) m0_def] by (auto simp: m_def)
  moreover have "nextReset b now = Some (midnight (m + 1) d)"
    using assms by (simp add: nextReset_def p AddDate_month)
  ultimately show ?thesis using p that by blast
qed

text \<open>
  C37. The current period of an accepted monthly budget contains the present: it started at
  midnight UTC of its reset day, not later than now, and the next reset is still to come, on
  the same day of a later month.
\<close>

theorem periodStart_contains_now:
  assumes "ValidateBudget b = None" "b_ResetDay b = Some d"
  shows "\<exists>r. nextReset b now = Some r \<and> periodStart b now \<le> now \<and> now < r
    \<and> time_Day (periodStart b now) = d \<and> time_Day r = d
    \<and> periodStart b now mod day_ns = 0 \<and> r mod day_ns = 0"
proof -
  from assms have d: "month_day d" by (rule ValidateBudget_reset_day)
  obtain m where "periodStart b now = midnight m d" "midnight m d \<le> now" "now < midnight (m + 1) d"
    "nextReset b now = Some (midnight (m + 1) d)"
    using periodStart_midnight [OF assms(2) d] by blast
  then show ?thesis by (simp add: midnight_parts [OF d])
qed

text \<open>
  C38. Two instants count in the same period exactly when no reset lies between them: the start
  of the period at \<open>t\<close> is that at \<open>now\<close> if and only if \<open>t\<close> lies between the start of the
  period and the next reset.
\<close>

theorem periodStart_same_iff:
  assumes "ValidateBudget b = None" "b_ResetDay b = Some d" "nextReset b now = Some r"
  shows "periodStart b t = periodStart b now \<longleftrightarrow> periodStart b now \<le> t \<and> t < r"
proof -
  from assms have d: "month_day d" by (blast intro: ValidateBudget_reset_day)
  obtain m where m: "periodStart b now = midnight m d" "nextReset b now = Some (midnight (m + 1) d)"
    using periodStart_midnight [OF assms(2) d, of now] by blast
  obtain n where n: "periodStart b t = midnight n d" "midnight n d \<le> t" "t < midnight (n + 1) d"
    using periodStart_midnight [OF assms(2) d, of t] by blast
  have r: "r = midnight (m + 1) d" using m(2) assms(3) by simp
  have "midnight n d = midnight m d \<longleftrightarrow> n = m" by (metis midnight_less_iff less_irrefl linorder_cases)
  with m n r midnight_Suc_unique [of m d t n] show ?thesis by auto
qed

section \<open>What is left\<close>

text \<open>
  C39. What is reported as left agrees with the gate: \<open>Remaining\<close> of a finite budget and a finite
  spend is above zero exactly when the spend is below the amount, in spite of rounding.
\<close>

theorem Remaining_pos_iff:
  "\<exists>r. Remaining (Some \<lparr>b_Amount = Fin a, b_Unit = u, b_ResetDay = d\<rparr>) (Fin s) = Some r
      \<and> (0 < r \<longleftrightarrow> Fin s < Fin a) \<and> \<not> r < 0"
proof -
  define r where "r = fmax (Fin a - Fin s) 0"
  have "Fin a - Fin s \<noteq> FNaN" "(0::f64) \<noteq> FNaN" by (simp_all add: zero_f64_def)
  then have "(0 < r \<longleftrightarrow> 0 < Fin a - Fin s) \<and> \<not> r < 0"
    unfolding r_def fmax_def by (cases "Fin a - Fin s") (auto simp: zero_f64_def)
  then have "(0 < r \<longleftrightarrow> Fin s < Fin a) \<and> \<not> r < 0" by (metis f64_diff_pos_iff less_f64.simps(1))
  moreover have "Remaining (Some \<lparr>b_Amount = Fin a, b_Unit = u, b_ResetDay = d\<rparr>) (Fin s) = Some r"
    by (simp add: Remaining_def r_def)
  ultimately show ?thesis by blast
qed

section \<open>Witnesses\<close>

text \<open>
  The budget of the tests, 200 usd from day 15, on 9 October 2026 at noon: its period began on
  15 September and ends on 15 October.
\<close>

definition demo_budget :: Budget where
  "demo_budget = \<lparr>b_Amount = f64_of 200, b_Unit = ''usd'', b_ResetDay = Some 15\<rparr>"

definition oct9 :: time where "oct9 = 1791547200 * Second"

lemma demo_budget_valid: "ValidateBudget demo_budget = None"
  by (simp add: demo_budget_def ValidateBudget_def validAmount_def units_def UnitUSD_def
      firstResetDay_def lastResetDay_def f64_of_def zero_f64_def)

lemma demo_period: "periodStart demo_budget oct9 = 1789430400 * Second"
  by code_simp

lemma demo_reset: "nextReset demo_budget oct9 = Some (1792022400 * Second)"
  by code_simp

theorem periodStart_contains_now_witness:
  "periodStart demo_budget oct9 \<le> oct9 \<and> oct9 < 1792022400 * Second
   \<and> time_Day (periodStart demo_budget oct9) = 15"
  using periodStart_contains_now [OF demo_budget_valid, of 15 oct9] demo_reset
  by (simp add: demo_budget_def)

theorem periodStart_same_iff_witness:
  "periodStart demo_budget (1792022399 * Second) = periodStart demo_budget oct9
   \<and> periodStart demo_budget (1792022400 * Second) \<noteq> periodStart demo_budget oct9"
  using periodStart_same_iff [OF demo_budget_valid _ demo_reset, of 15]
  unfolding demo_period by (simp add: demo_budget_def Second_def)

end
