(* ===== verification/Window_Counter.thy ===== *)
theory Window_Counter
  imports GoTime
begin

text \<open>
  The contract the rate limit and the usage limit of a key share. A \<open>counter\<close> grants while
  what it has used is below its limit and starts again at zero when its window has elapsed; a
  \<open>window_counter\<close> opens a new window at the attempt that finds the old one elapsed. What a
  caller may conclude about a sequence of attempts is proved here once; the operations of
  \<open>internal/keypool/types.go\<close> are interpreted in theory \<open>PoolKey\<close>.
\<close>

text \<open>A sequence of attempts at the given clock readings, and how many were granted.\<close>

fun attempts :: "(time \<Rightarrow> 's \<Rightarrow> 's \<times> bool) \<Rightarrow> time list \<Rightarrow> 's \<Rightarrow> 's \<times> nat" where
  "attempts step [] s = (s, 0)"
| "attempts step (t # ts) s =
     (case step t s of (s', g) \<Rightarrow>
        case attempts step ts s' of (s'', n) \<Rightarrow> (s'', (if g then Suc n else n)))"

locale counter =
  fixes step :: "time \<Rightarrow> 's \<Rightarrow> 's \<times> bool"
    and good :: "'s \<Rightarrow> bool"
    and limit :: "'s \<Rightarrow> int"
    and used :: "'s \<Rightarrow> int"
    and elapsed :: "'s \<Rightarrow> time \<Rightarrow> bool"
  assumes step_good: "good s \<Longrightarrow> good (fst (step t s))"
    and step_limit: "good s \<Longrightarrow> limit (fst (step t s)) = limit s"
    and step_grants: "good s \<Longrightarrow> snd (step t s) \<longleftrightarrow> (if elapsed s t then 0 else used s) < limit s"
    and step_used: "good s \<Longrightarrow> used (fst (step t s)) =
        (if elapsed s t then 0 else used s) + (if snd (step t s) then 1 else 0)"
    and step_same_window: "good s \<Longrightarrow> \<not> elapsed s t \<Longrightarrow> elapsed (fst (step t s)) = elapsed s"
begin

lemma grants_in_window:
  "good s \<Longrightarrow> \<forall>t\<in>set ts. \<not> elapsed s t \<Longrightarrow>
   snd (attempts step ts s) = min (length ts) (nat (limit s - used s))"
proof (induction ts arbitrary: s)
  case (Cons t ts)
  define s1 where "s1 = fst (step t s)"
  have s1: "good s1" "limit s1 = limit s" "elapsed s1 = elapsed s"
    "snd (step t s) \<longleftrightarrow> used s < limit s"
    "used s1 = used s + (if used s < limit s then 1 else 0)"
    using Cons.prems step_good step_limit step_same_window step_grants step_used
    by (simp_all add: s1_def)
  have "snd (attempts step ts s1) = min (length ts) (nat (limit s - used s1))"
    using Cons s1 by simp
  moreover have "snd (attempts step (t # ts) s)
      = (if snd (step t s) then 1 else 0) + snd (attempts step ts s1)"
    by (simp add: s1_def split: prod.split)
  ultimately show ?case using s1 by (auto simp: nat_diff_split min_def)
qed simp

lemma attempts_good: "good s \<Longrightarrow> good (fst (attempts step ts s)) \<and> limit (fst (attempts step ts s)) = limit s"
proof (induction ts arbitrary: s)
  case (Cons t ts)
  have "fst (attempts step (t # ts) s) = fst (attempts step ts (fst (step t s)))"
    by (simp split: prod.split)
  with Cons step_good step_limit show ?case by simp
qed simp

lemma used_nonneg: "good s \<Longrightarrow> 0 \<le> used s \<Longrightarrow> 0 \<le> used (fst (step t s))"
  by (simp add: step_used)

lemma used_within: "good s \<Longrightarrow> used s \<le> max 0 (limit s) \<Longrightarrow>
    used (fst (step t s)) \<le> max 0 (limit (fst (step t s)))"
  using step_grants [of s t] by (auto simp: step_used step_limit)

end

locale window_counter = counter +
  fixes span :: "'s \<Rightarrow> duration"
  assumes step_new_window: "good s \<Longrightarrow> elapsed s t \<Longrightarrow>
      elapsed (fst (step t s)) t' \<longleftrightarrow> span s \<le> t' - t"
    and step_span: "good s \<Longrightarrow> span (fst (step t s)) = span s"
begin

text \<open>In a window that opens at \<open>t\<close>, as many attempts are granted as the limit allows.\<close>

lemma grants_per_window:
  assumes "good s" "elapsed s t" "\<forall>t'\<in>set ts. t' - t < span s"
  shows "snd (attempts step (t # ts) s) = min (Suc (length ts)) (nat (limit s))"
proof -
  define s1 where "s1 = fst (step t s)"
  have s1: "good s1" "limit s1 = limit s" "snd (step t s) \<longleftrightarrow> 0 < limit s"
    "used s1 = (if 0 < limit s then 1 else 0)"
    using assms step_good step_limit step_grants step_used by (simp_all add: s1_def)
  have "\<forall>t'\<in>set ts. \<not> elapsed s1 t'"
    using assms step_new_window by (auto simp: s1_def)
  then have "snd (attempts step ts s1) = min (length ts) (nat (limit s - used s1))"
    using grants_in_window s1 by simp
  moreover have "snd (attempts step (t # ts) s)
      = (if snd (step t s) then 1 else 0) + snd (attempts step ts s1)"
    by (simp add: s1_def split: prod.split)
  ultimately show ?thesis using s1 by (auto simp: nat_diff_split min_def)
qed

text \<open>Any stretch of time as long as the window meets at most two windows.\<close>

lemma grants_in_span_aux:
  "good s \<Longrightarrow> \<forall>t\<in>set ts. a \<le> t \<and> t < a + span s \<Longrightarrow>
   snd (attempts step ts s) \<le> nat (limit s - used s) + nat (limit s)"
proof (induction ts arbitrary: s)
  case (Cons t ts)
  define s1 where "s1 = fst (step t s)"
  have e: "snd (attempts step (t # ts) s)
      = (if snd (step t s) then 1 else 0) + snd (attempts step ts s1)"
    by (simp add: s1_def split: prod.split)
  show ?case
  proof (cases "elapsed s t")
    case True
    have "\<forall>t'\<in>set ts. t' - t < span s" using Cons.prems(2) by auto
    then have "snd (attempts step (t # ts) s) \<le> nat (limit s)"
      using grants_per_window [OF Cons.prems(1) True] by simp
    then show ?thesis by simp
  next
    case False
    have s1: "good s1" "limit s1 = limit s" "span s1 = span s" "snd (step t s) \<longleftrightarrow> used s < limit s"
      "used s1 = used s + (if used s < limit s then 1 else 0)"
      using Cons.prems False step_good step_limit step_grants step_used step_span
      by (simp_all add: s1_def)
    have "snd (attempts step ts s1) \<le> nat (limit s1 - used s1) + nat (limit s1)"
      using Cons.prems s1 by (intro Cons.IH) simp_all
    with e s1 show ?thesis by (auto split: if_splits)
  qed
qed simp

lemma grants_in_span:
  assumes "good s" "0 \<le> used s" "\<forall>t\<in>set ts. a \<le> t \<and> t < a + span s"
  shows "snd (attempts step ts s) \<le> 2 * nat (limit s)"
  using grants_in_span_aux [OF assms(1,3)] assms(2) by linarith

end

end
