(* ===== verification/PoolKey.thy ===== *)
theory PoolKey
  imports Budget Window_Counter
begin

text \<open>
  \<open>internal/keypool/types.go\<close> with the key's part of \<open>budget.go\<close> and \<open>balance.go\<close>: one
  pooled key, its rate counters and its usage, spend and availability gates. The methods that
  lock \<open>k.mu\<close> are atomic operations on the key; \<open>now\<close> is the clock reading each one makes.
\<close>

section \<open>Definitions\<close>

record FeatureLimit =
  fl_RateLimit :: int
  fl_WindowSeconds :: int

record rateCounter =
  rc_count :: int
  rc_windowStart :: time

record Balance =
  bal_Used :: f64
  bal_Limit :: f64
  bal_Unit :: string
  bal_ResetsAt :: "time option"
  bal_CheckedAt :: time

record PoolKey =
  pk_ID :: string
  pk_Name :: string
  pk_KeyValue :: string
  pk_TierID :: string
  pk_IsActive :: bool
  pk_ExpiresAt :: "time option"
  pk_UsageLimit :: "int option"
  pk_UsageCount :: int
  pk_UsageWindowSeconds :: "int option"
  pk_UsageWindowStart :: "time option"
  pk_ExhaustedUntil :: "time option"
  pk_Budget :: "Budget option"
  pk_Spent :: f64
  pk_SpentPeriodStart :: "time option"
  pk_Balance :: "Balance option"
  pk_Metadata :: metadata
  pk_Secrets :: "(string, string) gomap"
  pk_Features :: "(string, FeatureLimit) gomap"
  pk_rateCounters :: "(string, rateCounter) gomap"

text \<open>\<open>&PoolKey{UsageCount: ..., UsageWindowStart: ...}\<close>: every other field has its zero value.\<close>

definition new_PoolKey :: "int \<Rightarrow> time option \<Rightarrow> PoolKey" where
  "new_PoolKey usageCount usageWindowStart =
     \<lparr>pk_ID = [], pk_Name = [], pk_KeyValue = [], pk_TierID = [], pk_IsActive = False,
      pk_ExpiresAt = None, pk_UsageLimit = None, pk_UsageCount = usageCount,
      pk_UsageWindowSeconds = None, pk_UsageWindowStart = usageWindowStart,
      pk_ExhaustedUntil = None, pk_Budget = None, pk_Spent = 0, pk_SpentPeriodStart = None,
      pk_Balance = None, pk_Metadata = [], pk_Secrets = [], pk_Features = [],
      pk_rateCounters = []\<rparr>"

definition load :: "Key \<Rightarrow> (string, FeatureLimit) gomap \<Rightarrow> (string, string) gomap \<Rightarrow> PoolKey \<Rightarrow> PoolKey"
where
  "load row features secrets k =
     k\<lparr>pk_ID := key_ID row, pk_Name := key_Name row, pk_KeyValue := key_KeyValue row,
       pk_TierID := key_TierID row, pk_IsActive := key_IsActive row,
       pk_ExpiresAt := key_ExpiresAt row, pk_UsageLimit := key_UsageLimit row,
       pk_UsageWindowSeconds := key_UsageWindowSeconds row,
       pk_ExhaustedUntil := key_ExhaustedUntil row, pk_Budget := key_Budget row,
       pk_Spent := key_Spent row, pk_SpentPeriodStart := key_SpentPeriodStart row,
       pk_Metadata := key_Metadata row, pk_Secrets := secrets, pk_Features := features\<rparr>"

definition window :: "FeatureLimit \<Rightarrow> duration" where
  "window fl = (if fl_WindowSeconds fl \<le> 0 then Minute else seconds (fl_WindowSeconds fl))"

definition zeroCounter :: rateCounter where
  "zeroCounter = \<lparr>rc_count = 0, rc_windowStart = zeroTime\<rparr>"

definition TryRate :: "time \<Rightarrow> string \<Rightarrow> PoolKey \<Rightarrow> PoolKey \<times> bool" where
  "TryRate now feature k =
     (case mget (pk_Features k) feature of
        None \<Rightarrow> (k, False)
      | Some fl \<Rightarrow>
          (let rc = (case mget (pk_rateCounters k) feature of None \<Rightarrow> zeroCounter | Some rc \<Rightarrow> rc);
               rc = (if window fl \<le> time_Sub now (rc_windowStart rc)
                     then \<lparr>rc_count = 0, rc_windowStart = now\<rparr> else rc);
               ok = rc_count rc < fl_RateLimit fl;
               rc = (if ok then rc\<lparr>rc_count := rc_count rc + 1\<rparr> else rc)
           in (k\<lparr>pk_rateCounters := mput feature rc (pk_rateCounters k)\<rparr>, ok)))"

definition spentNow :: "time \<Rightarrow> PoolKey \<Rightarrow> f64" where
  "spentNow now k =
     (case (pk_Budget k, pk_SpentPeriodStart k) of
        (Some b, Some start) \<Rightarrow> (if start = periodStart b now then pk_Spent k else 0)
      | _ \<Rightarrow> 0)"

definition withinBudget :: "time \<Rightarrow> PoolKey \<Rightarrow> bool" where
  "withinBudget now k =
     (case pk_Budget k of None \<Rightarrow> True | Some b \<Rightarrow> spentNow now k < b_Amount b)"

definition holdSpent :: "f64 \<Rightarrow> time \<Rightarrow> PoolKey \<Rightarrow> PoolKey" where
  "holdSpent spent start k =
     (if pk_SpentPeriodStart k = Some start \<and> spent < pk_Spent k then k
      else k\<lparr>pk_Spent := spent, pk_SpentPeriodStart := Some start\<rparr>)"

definition Available :: "time \<Rightarrow> PoolKey \<Rightarrow> bool" where
  "Available now k \<longleftrightarrow>
     pk_IsActive k \<and>
     (case pk_ExpiresAt k of None \<Rightarrow> True | Some t \<Rightarrow> now < t) \<and>
     (case pk_ExhaustedUntil k of None \<Rightarrow> True | Some t \<Rightarrow> \<not> now < t) \<and>
     withinBudget now k"

text \<open>The three results of the code, after the key: \<open>ok\<close>, \<open>didReset\<close>, \<open>windowStart\<close>.\<close>

definition TryConsumeUsage :: "time \<Rightarrow> PoolKey \<Rightarrow> PoolKey \<times> bool \<times> bool \<times> time" where
  "TryConsumeUsage now k =
     (case pk_UsageLimit k of
        None \<Rightarrow> (k, True, False, zeroTime)
      | Some limit \<Rightarrow>
          (let elapsed =
                 (case pk_UsageWindowSeconds k of
                    None \<Rightarrow> False
                  | Some n \<Rightarrow> 0 < n \<and>
                      (case pk_UsageWindowStart k of
                         None \<Rightarrow> True
                       | Some start \<Rightarrow> seconds n \<le> time_Sub now start));
               (k, didReset, windowStart) =
                 (if elapsed
                  then (k\<lparr>pk_UsageCount := 0, pk_UsageWindowStart := Some now\<rparr>, True, now)
                  else (k, False, zeroTime))
           in if limit \<le> pk_UsageCount k then (k, False, didReset, windowStart)
              else (k\<lparr>pk_UsageCount := pk_UsageCount k + 1\<rparr>, True, didReset, windowStart)))"

definition UsageSnapshot :: "PoolKey \<Rightarrow> int" where
  "UsageSnapshot k = pk_UsageCount k"

definition HasFeature :: "string \<Rightarrow> PoolKey \<Rightarrow> bool" where
  "HasFeature feature k \<longleftrightarrow> mget (pk_Features k) feature \<noteq> None"

record RateInfo =
  ri_Used :: int
  ri_Limit :: int
  ri_WindowSeconds :: int

text \<open>\<open>time.Since\<close> is read once per feature that has a counter, in the order of the map.\<close>

definition rate_info :: "time \<Rightarrow> PoolKey \<Rightarrow> string \<Rightarrow> FeatureLimit \<Rightarrow> RateInfo" where
  "rate_info now k feature fl =
     \<lparr>ri_Used =
        (case mget (pk_rateCounters k) feature of
           None \<Rightarrow> 0
         | Some rc \<Rightarrow> (if time_Sub now (rc_windowStart rc) < window fl then rc_count rc else 0)),
      ri_Limit = fl_RateLimit fl, ri_WindowSeconds = fl_WindowSeconds fl\<rparr>"

definition RateUsage :: "(string \<Rightarrow> time) \<Rightarrow> PoolKey \<Rightarrow> (string, RateInfo) gomap" where
  "RateUsage now k =
     map (\<lambda>(feature, fl). (feature, rate_info (now feature) k feature fl)) (pk_Features k)"

text \<open>\<open>Balance.Spent\<close>.\<close>

definition Balance_Spent :: "Balance \<Rightarrow> bool" where
  "Balance_Spent b \<longleftrightarrow> 0 < bal_Limit b \<and> bal_Limit b \<le> bal_Used b"

section \<open>The rate limit is a window counter\<close>

definition rate_of :: "string \<Rightarrow> PoolKey \<Rightarrow> rateCounter" where
  "rate_of f k = (case mget (pk_rateCounters k) f of None \<Rightarrow> zeroCounter | Some rc \<Rightarrow> rc)"

definition limit_of :: "string \<Rightarrow> PoolKey \<Rightarrow> FeatureLimit" where
  "limit_of f k = the (mget (pk_Features k) f)"

text \<open>A feature whose window was read from a column of type INTEGER.\<close>

definition rate_good :: "string \<Rightarrow> PoolKey \<Rightarrow> bool" where
  "rate_good f k \<longleftrightarrow>
     (case mget (pk_Features k) f of None \<Rightarrow> False | Some fl \<Rightarrow> int32 (fl_WindowSeconds fl))"

lemma window_bounds: "int32 (fl_WindowSeconds fl) \<Longrightarrow> 0 < window fl \<and> window fl < 2 ^ 63"
  by (auto simp: window_def seconds_int32 Minute_def Second_def int32_def)

definition rate_elapsed :: "string \<Rightarrow> PoolKey \<Rightarrow> time \<Rightarrow> bool" where
  "rate_elapsed f k t \<longleftrightarrow> window (limit_of f k) \<le> t - rc_windowStart (rate_of f k)"

lemma TryRate_cases:
  assumes "rate_good f k"
  shows "snd (TryRate t f k) \<longleftrightarrow>
      (if rate_elapsed f k t then 0 else rc_count (rate_of f k)) < fl_RateLimit (limit_of f k)"
    and "rate_of f (fst (TryRate t f k)) =
      \<lparr>rc_count = (if rate_elapsed f k t then 0 else rc_count (rate_of f k))
         + (if snd (TryRate t f k) then 1 else 0),
       rc_windowStart = (if rate_elapsed f k t then t else rc_windowStart (rate_of f k))\<rparr>"
    and "pk_Features (fst (TryRate t f k)) = pk_Features k"
proof -
  obtain fl where fl: "mget (pk_Features k) f = Some fl" "int32 (fl_WindowSeconds fl)"
    using assms by (auto simp: rate_good_def split: option.splits)
  define rc where "rc = rate_of f k"
  have e: "window fl \<le> time_Sub t (rc_windowStart rc) \<longleftrightarrow> rate_elapsed f k t"
    using window_bounds [OF fl(2)] fl(1)
    by (simp add: rate_elapsed_def limit_of_def time_Sub_ge_iff rc_def)
  have r: "TryRate t f k =
      (let rc = (if rate_elapsed f k t then \<lparr>rc_count = 0, rc_windowStart = t\<rparr> else rc);
           ok = rc_count rc < fl_RateLimit fl;
           rc = (if ok then rc\<lparr>rc_count := rc_count rc + 1\<rparr> else rc)
       in (k\<lparr>pk_rateCounters := mput f rc (pk_rateCounters k)\<rparr>, ok))"
    by (simp add: TryRate_def fl(1) Let_def e flip: rc_def rate_of_def)
  show "snd (TryRate t f k) \<longleftrightarrow>
      (if rate_elapsed f k t then 0 else rc_count (rate_of f k)) < fl_RateLimit (limit_of f k)"
    "rate_of f (fst (TryRate t f k)) =
      \<lparr>rc_count = (if rate_elapsed f k t then 0 else rc_count (rate_of f k))
         + (if snd (TryRate t f k) then 1 else 0),
       rc_windowStart = (if rate_elapsed f k t then t else rc_windowStart (rate_of f k))\<rparr>"
    "pk_Features (fst (TryRate t f k)) = pk_Features k"
    unfolding r using fl(1) by (auto simp: Let_def limit_of_def rate_of_def rc_def)
qed

lemma rate_good_limit_cong:
  "pk_Features k' = pk_Features k \<Longrightarrow> rate_good f k' = rate_good f k \<and> limit_of f k' = limit_of f k"
  by (simp add: rate_good_def limit_of_def)

interpretation rate: window_counter "\<lambda>t. TryRate t f" "rate_good f"
    "\<lambda>k. fl_RateLimit (limit_of f k)" "\<lambda>k. rc_count (rate_of f k)" "rate_elapsed f"
    "\<lambda>k. window (limit_of f k)" for f
proof unfold_locales
  fix k t t'
  assume k: "rate_good f k"
  note c = TryRate_cases [OF k, of t]
  have l: "rate_good f (fst (TryRate t f k))" "limit_of f (fst (TryRate t f k)) = limit_of f k"
    using rate_good_limit_cong [OF c(3), of f] k by auto
  show "rate_good f (fst (TryRate t f k))" by (rule l)
  show "fl_RateLimit (limit_of f (fst (TryRate t f k))) = fl_RateLimit (limit_of f k)"
    by (simp add: l)
  show "snd (TryRate t f k) \<longleftrightarrow>
      (if rate_elapsed f k t then 0 else rc_count (rate_of f k)) < fl_RateLimit (limit_of f k)"
    by (rule c(1))
  show "rc_count (rate_of f (fst (TryRate t f k))) =
      (if rate_elapsed f k t then 0 else rc_count (rate_of f k))
        + (if snd (TryRate t f k) then 1 else 0)"
    by (simp add: c(2))
  show "window (limit_of f (fst (TryRate t f k))) = window (limit_of f k)" by (simp add: l)
  show "rate_elapsed f (fst (TryRate t f k)) = rate_elapsed f k" if "\<not> rate_elapsed f k t"
    using that by (simp add: rate_elapsed_def [abs_def] l c(2))
  show "rate_elapsed f (fst (TryRate t f k)) t' \<longleftrightarrow> window (limit_of f k) \<le> t' - t"
    if "rate_elapsed f k t"
    using that by (simp add: rate_elapsed_def l c(2))
qed

section \<open>The usage limit is a counter, windowed or for life\<close>

definition usage_windowed :: "PoolKey \<Rightarrow> bool" where
  "usage_windowed k \<longleftrightarrow>
     (case pk_UsageWindowSeconds k of None \<Rightarrow> False | Some n \<Rightarrow> 0 < n)"

definition usage_span :: "PoolKey \<Rightarrow> duration" where
  "usage_span k = (case pk_UsageWindowSeconds k of None \<Rightarrow> 0 | Some n \<Rightarrow> seconds n)"

definition usage_elapsed :: "PoolKey \<Rightarrow> time \<Rightarrow> bool" where
  "usage_elapsed k t \<longleftrightarrow> usage_windowed k \<and>
     (case pk_UsageWindowStart k of None \<Rightarrow> True | Some start \<Rightarrow> usage_span k \<le> t - start)"

definition usage_limit :: "PoolKey \<Rightarrow> int" where
  "usage_limit k = the (pk_UsageLimit k)"

text \<open>A key with a usage limit whose window, if it has one, was read from an INTEGER column.\<close>

definition usage_good :: "PoolKey \<Rightarrow> bool" where
  "usage_good k \<longleftrightarrow> pk_UsageLimit k \<noteq> None \<and>
     (case pk_UsageWindowSeconds k of None \<Rightarrow> True | Some n \<Rightarrow> int32 n)"

definition try_usage :: "time \<Rightarrow> PoolKey \<Rightarrow> PoolKey \<times> bool" where
  "try_usage now k = (case TryConsumeUsage now k of (k', ok, didReset, start) \<Rightarrow> (k', ok))"

lemma TryConsumeUsage_eq:
  assumes "usage_good k" "c = (if usage_elapsed k t then 0 else pk_UsageCount k)"
  shows "TryConsumeUsage t k =
    (k\<lparr>pk_UsageCount := (if c < usage_limit k then c + 1 else c),
       pk_UsageWindowStart := (if usage_elapsed k t then Some t else pk_UsageWindowStart k)\<rparr>,
     c < usage_limit k, usage_elapsed k t, (if usage_elapsed k t then t else zeroTime))"
proof -
  obtain limit where l: "pk_UsageLimit k = Some limit" using assms(1) by (auto simp: usage_good_def)
  have "(case pk_UsageWindowSeconds k of
          None \<Rightarrow> False
        | Some n \<Rightarrow> 0 < n \<and> (case pk_UsageWindowStart k of
             None \<Rightarrow> True | Some start \<Rightarrow> seconds n \<le> time_Sub t start)) \<longleftrightarrow> usage_elapsed k t"
  proof (cases "pk_UsageWindowSeconds k")
    case None
    then show ?thesis by (simp add: usage_elapsed_def usage_windowed_def)
  next
    case (Some n)
    with assms(1) have "int32 n" by (simp add: usage_good_def)
    then have "0 < n \<Longrightarrow> seconds n \<le> time_Sub t u \<longleftrightarrow> seconds n \<le> t - u" for u
      by (intro time_Sub_ge_iff) (auto simp: seconds_int32 int32_def Second_def)
    with Some show ?thesis
      by (auto simp: usage_elapsed_def usage_windowed_def usage_span_def split: option.split)
  qed
  then show ?thesis
    unfolding TryConsumeUsage_def
    by (simp add: l assms(2) usage_limit_def Let_def not_le)
qed

lemma try_usage_cases:
  assumes "usage_good k"
  shows "snd (try_usage t k) \<longleftrightarrow>
      (if usage_elapsed k t then 0 else pk_UsageCount k) < usage_limit k"
    and "pk_UsageCount (fst (try_usage t k)) =
      (if usage_elapsed k t then 0 else pk_UsageCount k) + (if snd (try_usage t k) then 1 else 0)"
    and "pk_UsageWindowStart (fst (try_usage t k)) =
      (if usage_elapsed k t then Some t else pk_UsageWindowStart k)"
    and "pk_UsageLimit (fst (try_usage t k)) = pk_UsageLimit k"
    and "pk_UsageWindowSeconds (fst (try_usage t k)) = pk_UsageWindowSeconds k"
  by (simp_all add: try_usage_def TryConsumeUsage_eq [OF assms refl])

lemma usage_cong:
  assumes "pk_UsageLimit k' = pk_UsageLimit k" "pk_UsageWindowSeconds k' = pk_UsageWindowSeconds k"
  shows "usage_good k' = usage_good k" "usage_limit k' = usage_limit k"
    "usage_span k' = usage_span k" "usage_windowed k' = usage_windowed k"
  using assms by (simp_all add: usage_good_def usage_limit_def usage_span_def usage_windowed_def)

interpretation usage: window_counter try_usage usage_good usage_limit pk_UsageCount usage_elapsed
    usage_span
proof unfold_locales
  fix k t t'
  assume k: "usage_good k"
  note c = try_usage_cases [OF k, of t]
  note l = usage_cong [OF c(4,5)]
  show "usage_good (fst (try_usage t k))" by (simp add: l k)
  show "usage_limit (fst (try_usage t k)) = usage_limit k" by (simp add: l)
  show "snd (try_usage t k) \<longleftrightarrow>
      (if usage_elapsed k t then 0 else pk_UsageCount k) < usage_limit k" by (rule c(1))
  show "pk_UsageCount (fst (try_usage t k)) =
      (if usage_elapsed k t then 0 else pk_UsageCount k) + (if snd (try_usage t k) then 1 else 0)"
    by (rule c(2))
  show "usage_span (fst (try_usage t k)) = usage_span k" by (simp add: l)
  show "usage_elapsed (fst (try_usage t k)) = usage_elapsed k" if "\<not> usage_elapsed k t"
  proof -
    from that have "pk_UsageWindowStart (fst (try_usage t k)) = pk_UsageWindowStart k"
      by (simp add: c(3))
    then show ?thesis by (intro ext) (simp add: usage_elapsed_def l split: option.split)
  qed
  show "usage_elapsed (fst (try_usage t k)) t' \<longleftrightarrow> usage_span k \<le> t' - t" if "usage_elapsed k t"
  proof -
    from that have "pk_UsageWindowStart (fst (try_usage t k)) = Some t" by (simp add: c(3))
    moreover from that have "usage_windowed k" by (simp add: usage_elapsed_def)
    ultimately show ?thesis by (simp add: usage_elapsed_def l)
  qed
qed

section \<open>What the gates leave alone\<close>

text \<open>The key without its counters: everything but what \<open>TryRate\<close> and \<open>TryConsumeUsage\<close> write.\<close>

definition core :: "PoolKey \<Rightarrow> PoolKey" where
  "core k = k\<lparr>pk_rateCounters := [], pk_UsageCount := 0, pk_UsageWindowStart := None\<rparr>"

lemma core_fields:
  assumes "core k' = core k"
  shows "pk_ID k' = pk_ID k" "pk_KeyValue k' = pk_KeyValue k" "pk_TierID k' = pk_TierID k"
    "pk_IsActive k' = pk_IsActive k" "pk_UsageLimit k' = pk_UsageLimit k"
    "pk_UsageWindowSeconds k' = pk_UsageWindowSeconds k" "pk_ExhaustedUntil k' = pk_ExhaustedUntil k"
    "pk_Budget k' = pk_Budget k" "pk_Spent k' = pk_Spent k"
    "pk_SpentPeriodStart k' = pk_SpentPeriodStart k" "pk_Metadata k' = pk_Metadata k"
    "pk_Secrets k' = pk_Secrets k" "pk_Features k' = pk_Features k" "pk_Name k' = pk_Name k"
    "pk_ExpiresAt k' = pk_ExpiresAt k" "pk_Balance k' = pk_Balance k"
  using assms by (cases k; cases k'; simp add: core_def)+

lemma core_TryRate [frame]: "core (fst (TryRate t f k)) = core k"
  by (simp add: TryRate_def core_def Let_def split: option.split)

lemma core_TryConsumeUsage [frame]: "core (fst (TryConsumeUsage t k)) = core k"
  by (simp add: TryConsumeUsage_def core_def Let_def split: option.split prod.split)

lemma core_try_usage [frame]: "core (fst (try_usage t k)) = core k"
  using core_TryConsumeUsage [of t k] by (cases "TryConsumeUsage t k") (simp add: try_usage_def)

lemma TryRate_usage [frame]:
  "pk_UsageCount (fst (TryRate t f k)) = pk_UsageCount k"
  "pk_UsageWindowStart (fst (TryRate t f k)) = pk_UsageWindowStart k"
  by (simp_all add: TryRate_def Let_def split: option.split)

lemma TryConsumeUsage_rate [frame]:
  "pk_rateCounters (fst (TryConsumeUsage t k)) = pk_rateCounters k"
  by (simp add: TryConsumeUsage_def Let_def split: option.split prod.split)

lemma core_Available: "core k' = core k \<Longrightarrow> Available t k' = Available t k"
  using core_fields [of k' k]
  by (cases "pk_Budget k"; cases "pk_SpentPeriodStart k")
    (simp_all add: Available_def withinBudget_def spentNow_def)

lemma core_HasFeature: "core k' = core k \<Longrightarrow> HasFeature f k' = HasFeature f k"
  using core_fields [of k' k] by (simp add: HasFeature_def)

section \<open>Properties of one key\<close>

text \<open>
  C32. The rate limit of a feature: in the window that an attempt opens, exactly as many
  attempts are granted as the limit allows, and every other one is refused.
\<close>

theorem rate_limit_per_window:
  assumes "mget (pk_Features k) f = Some fl" "int32 (fl_WindowSeconds fl)"
    and "window fl \<le> time_Sub t (rc_windowStart (rate_of f k))"
    and "\<forall>t'\<in>set ts. t' - t < window fl"
  shows "snd (attempts (\<lambda>t. TryRate t f) (t # ts) k)
      = min (Suc (length ts)) (nat (fl_RateLimit fl))"
proof -
  have "rate_good f k" "limit_of f k = fl" using assms(1,2) by (simp_all add: rate_good_def limit_of_def)
  moreover have "rate_elapsed f k t"
    using assms(3) window_bounds [OF assms(2)] \<open>limit_of f k = fl\<close>
    by (simp add: rate_elapsed_def time_Sub_ge_iff)
  ultimately show ?thesis using rate.grants_per_window [of f k t ts] assms(4) by simp
qed

text \<open>
  C33. The windows are fixed, not sliding, so any stretch of time as long as the window grants at
  most twice the limit, wherever the stretch starts.
\<close>

theorem rate_limit_sliding:
  assumes "mget (pk_Features k) f = Some fl" "int32 (fl_WindowSeconds fl)"
    and "0 \<le> rc_count (rate_of f k)"
    and "\<forall>t\<in>set ts. a \<le> t \<and> t < a + window fl"
  shows "snd (attempts (\<lambda>t. TryRate t f) ts k) \<le> 2 * nat (fl_RateLimit fl)"
proof -
  have "rate_good f k" "limit_of f k = fl" using assms(1,2) by (simp_all add: rate_good_def limit_of_def)
  then show ?thesis using rate.grants_in_span [of f k ts a] assms(3,4) by simp
qed

text \<open>
  A usage limit without a window is a lifetime cap: however many attempts there are and
  whenever they come, exactly the unused part of the limit is granted.
\<close>

theorem usage_lifetime_cap:
  assumes "pk_UsageLimit k = Some limit"
    and "pk_UsageWindowSeconds k = None \<or> pk_UsageWindowSeconds k = Some 0"
  shows "snd (attempts try_usage ts k) = min (length ts) (nat (limit - pk_UsageCount k))"
proof -
  have "usage_good k" "usage_limit k = limit" "\<And>t. \<not> usage_elapsed k t"
    using assms by (auto simp: usage_good_def usage_limit_def usage_elapsed_def usage_windowed_def
        int32_def)
  then show ?thesis using usage.grants_in_window [of k ts] by simp
qed

text \<open>
  C34. A windowed usage limit starts over when its window has elapsed: from the attempt that
  finds it elapsed until the window ends, exactly the limit is granted.
\<close>

theorem usage_limit_per_window:
  assumes "pk_UsageLimit k = Some limit" "pk_UsageWindowSeconds k = Some n" "0 < n" "int32 n"
    and "pk_UsageWindowStart k = Some start" "start + n * Second \<le> t"
    and "\<forall>t'\<in>set ts. t' < t + n * Second"
  shows "snd (attempts try_usage (t # ts) k) = min (Suc (length ts)) (nat limit)"
proof -
  have "usage_good k" "usage_limit k = limit" "usage_span k = n * Second"
    using assms by (auto simp: usage_good_def usage_limit_def usage_span_def seconds_int32)
  moreover from this have "usage_elapsed k t"
    using assms by (auto simp: usage_elapsed_def usage_windowed_def)
  ultimately show ?thesis using usage.grants_per_window [of k t ts] assms(7) by fastforce
qed

text \<open>
  What \<open>RateUsage\<close> lists is what the gate does: the next attempt on a feature is granted
  exactly when the usage listed at the same instant is below the listed limit.
\<close>

theorem RateUsage_agrees:
  "snd (TryRate (now f) f k) \<longleftrightarrow>
     (case mget (RateUsage now k) f of None \<Rightarrow> False | Some i \<Rightarrow> ri_Used i < ri_Limit i)"
  unfolding RateUsage_def mget_map
  by (auto simp: TryRate_def rate_info_def zeroCounter_def Let_def split: option.split)

text \<open>
  C35. A key at its monthly budget is out until the next reset and back from then on: if what it
  has spent in the current period is not below the amount, then at any later time it is within
  its budget exactly when the reset has passed.
\<close>

theorem budget_gate_until_reset:
  assumes "pk_Budget k = Some b" "ValidateBudget b = None" "b_Amount b \<noteq> FNaN"
    and "nextReset b now = Some r" "pk_SpentPeriodStart k = Some (periodStart b now)"
    and "\<not> pk_Spent k < b_Amount b" "now \<le> t"
  shows "withinBudget t k \<longleftrightarrow> r \<le> t"
proof -
  obtain d where d: "b_ResetDay b = Some d"
    using assms(4) by (auto simp: nextReset_def split: option.splits)
  have valid: "month_day d" using assms(2) d by (rule ValidateBudget_reset_day)
  obtain m where m: "periodStart b now = midnight m d" "midnight m d \<le> now"
    "nextReset b now = Some (midnight (m + 1) d)"
    using periodStart_midnight [OF d valid, of now] by blast
  obtain n where n: "periodStart b t = midnight n d" "midnight n d \<le> t" "t < midnight (n + 1) d"
    using periodStart_midnight [OF d valid, of t] by blast
  have "0 < b_Amount b"
    using assms(2,3) f64_not_NaN_linear [of 0 "b_Amount b"]
    by (auto simp: ValidateBudget_def validAmount_def zero_f64_def split: if_splits)
  moreover have "periodStart b now = periodStart b t \<longleftrightarrow> t < r"
  proof
    assume "periodStart b now = periodStart b t"
    then have "m = n" using m n by (metis midnight_less_iff less_irrefl linorder_cases)
    with m n assms(4) show "t < r" by simp
  next
    assume "t < r"
    then have "m = n" using m n assms(4,7) midnight_Suc_unique [of m d t n] by simp
    with m n show "periodStart b now = periodStart b t" by simp
  qed
  ultimately show ?thesis
    using assms(1,5,6) by (auto simp: withinBudget_def spentNow_def)
qed

text \<open>
  C36. A spend report that lands late never lowers what is held for a period: after any number
  of totals for one period, in any order, the key holds at least each of them.
\<close>

theorem holdSpent_keeps_maximum:
  assumes "pk_SpentPeriodStart k = Some start" "pk_Spent k \<noteq> FNaN" "FNaN \<notin> set totals"
    and "x \<in> insert (pk_Spent k) (set totals)"
  shows "\<not> pk_Spent (fold (\<lambda>total. holdSpent total start) totals k) < x"
  using assms
proof (induction totals arbitrary: k x)
  case (Cons y ys)
  define k1 where "k1 = holdSpent y start k"
  have y: "y \<noteq> FNaN" using Cons.prems(3) by auto
  have k1: "pk_SpentPeriodStart k1 = Some start"
    "pk_Spent k1 = (if y < pk_Spent k then pk_Spent k else y)"
    using Cons.prems(1) by (simp_all add: k1_def holdSpent_def)
  have n1: "pk_Spent k1 \<noteq> FNaN" using k1(2) y Cons.prems(2) by simp
  let ?last = "pk_Spent (fold (\<lambda>total. holdSpent total start) ys k1)"
  have base: "\<not> ?last < pk_Spent k1" using Cons.IH [OF k1(1) n1] Cons.prems(3) by simp
  have rest: "\<not> ?last < x" if "x \<in> set ys" using Cons.IH [OF k1(1) n1] Cons.prems(3) that by simp
  have "\<not> ?last < x" if "x = pk_Spent k \<or> x = y"
  proof
    assume "?last < x"
    moreover have "pk_Spent k \<le> pk_Spent k1 \<and> y \<le> pk_Spent k1"
      using y Cons.prems(2)
      by (cases "y < pk_Spent k") (simp_all add: k1(2) f64_le_refl f64_less_imp_le f64_not_less)
    then have "x \<le> pk_Spent k1" using that by auto
    ultimately show False using base f64_less_le_trans by blast
  qed
  with rest Cons.prems(4) have "\<not> ?last < x" by auto
  then show ?case by (simp add: k1_def)
qed simp

end
