(* ===== verification/Writeback.thy ===== *)
theory Writeback
  imports Db_Types "HOL-Library.Sublist" "HOL-Library.Multiset"
begin

text \<open>
  \<open>internal/writeback/writer.go\<close>: usage counts and audit events queued behind the serve path
  and flushed to a store. The interface \<open>Store\<close> is the record \<open>WStore\<close> of its three calls;
  what the writer relies on is the locale \<open>usage_store\<close>. Every operation of the writer holds
  its mutex, so each is atomic; \<open>Flush\<close> takes the queue under the mutex and talks to the store
  outside it, and \<open>wb_step\<close> splits it at those points.
\<close>

section \<open>The writer\<close>

record usage =
  u_n :: int
  u_reset :: "time option"

record Writer =
  w_usage :: "(string, usage) gomap"
  w_events :: "UsageEvent list"
  w_maxEvents :: nat

definition DefaultMaxEvents :: nat where "DefaultMaxEvents = 10000"

text \<open>A call to the store returns the store's new state and its error, if any.\<close>

record 's WStore =
  ws_AddUsage :: "string \<Rightarrow> int \<Rightarrow> 's \<Rightarrow> 's \<times> dberr option"
  ws_ResetUsageWindow :: "string \<Rightarrow> time \<Rightarrow> int \<Rightarrow> 's \<Rightarrow> 's \<times> dberr option"
  ws_RecordUsageEvents :: "UsageEvent list \<Rightarrow> 's \<Rightarrow> 's \<times> dberr option"

definition New_Writer :: Writer where
  "New_Writer = \<lparr>w_usage = [], w_events = [], w_maxEvents = DefaultMaxEvents\<rparr>"

definition Served :: "string \<Rightarrow> Writer \<Rightarrow> Writer" where
  "Served keyID w =
     (let u = (case mget (w_usage w) keyID of None \<Rightarrow> \<lparr>u_n = 0, u_reset = None\<rparr> | Some u \<Rightarrow> u)
      in w\<lparr>w_usage := mput keyID (u\<lparr>u_n := u_n u + 1\<rparr>) (w_usage w)\<rparr>)"

definition WindowReset :: "string \<Rightarrow> time \<Rightarrow> Writer \<Rightarrow> Writer" where
  "WindowReset keyID start w =
     w\<lparr>w_usage := mput keyID \<lparr>u_n = 1, u_reset = Some start\<rparr> (w_usage w)\<rparr>"

definition keepEvents :: "UsageEvent list \<Rightarrow> Writer \<Rightarrow> Writer" where
  "keepEvents events w = w\<lparr>w_events := newest (w_maxEvents w) events\<rparr>"

definition Event :: "UsageEvent \<Rightarrow> Writer \<Rightarrow> Writer" where
  "Event e w = keepEvents (w_events w @ [e]) w"

definition requeueUsage :: "string \<Rightarrow> usage \<Rightarrow> Writer \<Rightarrow> Writer" where
  "requeueUsage keyID failed w =
     (case mget (w_usage w) keyID of
        None \<Rightarrow> w\<lparr>w_usage := mput keyID failed (w_usage w)\<rparr>
      | Some now \<Rightarrow>
          (if u_reset now \<noteq> None then w
           else w\<lparr>w_usage := mput keyID
             (now\<lparr>u_n := u_n now + u_n failed, u_reset := u_reset failed\<rparr>) (w_usage w)\<rparr>))"

text \<open>One entry of the usage loop, then the loop.\<close>

definition send_usage :: "'s WStore \<Rightarrow> string \<Rightarrow> usage \<Rightarrow> 's \<Rightarrow> 's \<times> dberr option" where
  "send_usage st keyID u s =
     (case u_reset u of
        Some start \<Rightarrow> ws_ResetUsageWindow st keyID start (u_n u) s
      | None \<Rightarrow> ws_AddUsage st keyID (u_n u) s)"

fun flush_usage :: "'s WStore \<Rightarrow> (string \<times> usage) list \<Rightarrow> Writer \<Rightarrow> 's \<Rightarrow> Writer \<times> 's" where
  "flush_usage st [] w s = (w, s)"
| "flush_usage st ((keyID, u) # rest) w s =
     (case send_usage st keyID u s of
        (s', None) \<Rightarrow> flush_usage st rest w s'
      | (s', Some e) \<Rightarrow> flush_usage st rest (requeueUsage keyID u w) s')"

definition flush_events :: "'s WStore \<Rightarrow> UsageEvent list \<Rightarrow> Writer \<Rightarrow> 's \<Rightarrow> Writer \<times> 's" where
  "flush_events st events w s =
     (if events = [] then (w, s)
      else case ws_RecordUsageEvents st events s of
             (s', None) \<Rightarrow> (w, s')
           | (s', Some e) \<Rightarrow> (keepEvents (events @ w_events w) w, s'))"

text \<open>\<open>order\<close> is the order in which Go happens to iterate over the map.\<close>

definition Flush ::
  "'s WStore \<Rightarrow> ((string \<times> usage) list \<Rightarrow> (string \<times> usage) list) \<Rightarrow> Writer \<Rightarrow> 's \<Rightarrow> Writer \<times> 's"
where
  "Flush st order w s =
     (let served = w_usage w; events = w_events w;
          w1 = w\<lparr>w_usage := [], w_events := []\<rparr>;
          (w2, s2) = flush_usage st (order served) w1 s
      in flush_events st events w2 s2)"

text \<open>
  \<open>Run\<close>: every tick flushes; when the context is done the queue is flushed once more and the
  loop ends. The list gives the outcomes of the successive \<open>select\<close>s; \<open>None\<close> is a loop that
  has not been stopped yet.
\<close>

datatype wakeup = Tick | Done

fun Run :: "'s WStore \<Rightarrow> ((string \<times> usage) list \<Rightarrow> (string \<times> usage) list) \<Rightarrow> wakeup list
    \<Rightarrow> Writer \<Rightarrow> 's \<Rightarrow> (Writer \<times> 's) option" where
  "Run st order [] w s = None"
| "Run st order (Tick # ws) w s = (case Flush st order w s of (w', s') \<Rightarrow> Run st order ws w' s')"
| "Run st order (Done # ws) w s = Some (Flush st order w s)"

section \<open>What a queued entry means\<close>

text \<open>An event as the audit log holds it.\<close>

definition stored_event :: "UsageEvent \<Rightarrow> UsageEvent" where
  "stored_event e = e\<lparr>ue_CreatedAt := timestamptz (ue_CreatedAt e)\<rparr>"

text \<open>
  The stored usage of a key is its count and the start of its window. An entry of the queue
  is a function on it, an increment or a reset followed by increments; \<open>then_usage\<close> composes
  two entries into the one entry \<open>requeueUsage\<close> keeps.
\<close>

type_synonym counted = "int \<times> time option"

definition apply_usage :: "usage \<Rightarrow> counted \<Rightarrow> counted" where
  "apply_usage u c =
     (case u_reset u of Some t \<Rightarrow> (u_n u, Some (timestamptz t)) | None \<Rightarrow> (fst c + u_n u, snd c))"

definition then_usage :: "usage \<Rightarrow> usage \<Rightarrow> usage" where
  "then_usage u v =
     (if u_reset v \<noteq> None then v else \<lparr>u_n = u_n v + u_n u, u_reset = u_reset u\<rparr>)"

definition pending :: "Writer \<Rightarrow> string \<Rightarrow> counted \<Rightarrow> counted" where
  "pending w k = (case mget (w_usage w) k of None \<Rightarrow> id | Some u \<Rightarrow> apply_usage u)"

lemma apply_then_usage [simp]: "apply_usage (then_usage u v) c = apply_usage v (apply_usage u c)"
  by (auto simp: apply_usage_def then_usage_def split: option.splits)

lemma pending_Served:
  "pending (Served k w) k' c = (if k' = k then (fst (pending w k c) + 1, snd (pending w k c))
                                else pending w k' c)"
  by (auto simp: pending_def Served_def apply_usage_def Let_def split: option.splits)

lemma pending_WindowReset:
  "pending (WindowReset k t w) k' c = (if k' = k then (1, Some (timestamptz t)) else pending w k' c)"
  by (auto simp: pending_def WindowReset_def apply_usage_def)

lemma pending_requeue:
  "pending (requeueUsage k u w) k' c =
     (if k' = k then pending w k (apply_usage u c) else pending w k' c)"
  by (auto simp: pending_def requeueUsage_def apply_usage_def split: option.splits)

lemma pending_Event [simp]: "pending (Event e w) = pending w"
  by (simp add: pending_def Event_def keepEvents_def fun_eq_iff)

lemma pending_keepEvents [simp]: "pending (keepEvents es w) = pending w"
  by (simp add: pending_def keepEvents_def fun_eq_iff)

lemma pending_taken [simp]: "pending (w\<lparr>w_usage := [], w_events := es\<rparr>) k = id"
  by (simp add: pending_def)

lemma requeue_events [simp, frame]:
  "w_events (requeueUsage k u w) = w_events w"
  "w_maxEvents (requeueUsage k u w) = w_maxEvents w"
  by (auto simp: requeueUsage_def split: option.splits)

lemma produce_events [simp, frame]:
  "w_events (Served k w) = w_events w" "w_maxEvents (Served k w) = w_maxEvents w"
  "w_events (WindowReset k t w) = w_events w" "w_maxEvents (WindowReset k t w) = w_maxEvents w"
  by (simp_all add: Served_def WindowReset_def Let_def)

lemma keepEvents_fields [simp, frame]:
  "w_usage (keepEvents es w) = w_usage w" "w_maxEvents (keepEvents es w) = w_maxEvents w"
  "w_events (keepEvents es w) = newest (w_maxEvents w) es"
  "w_usage (Event e w) = w_usage w" "w_maxEvents (Event e w) = w_maxEvents w"
  "w_events (Event e w) = newest (w_maxEvents w) (w_events w @ [e])"
  by (simp_all add: keepEvents_def Event_def)

lemma wf_usage [simp, inv_intros]:
  "wf_map (w_usage w) \<Longrightarrow> wf_map (w_usage (Served k w))"
  "wf_map (w_usage w) \<Longrightarrow> wf_map (w_usage (WindowReset k t w))"
  "wf_map (w_usage w) \<Longrightarrow> wf_map (w_usage (requeueUsage k u w))"
  by (auto simp: Served_def WindowReset_def requeueUsage_def Let_def split: option.splits)

text \<open>The entries already taken from the queue and not yet sent.\<close>

fun inflight :: "(string \<times> usage) list \<Rightarrow> string \<Rightarrow> counted \<Rightarrow> counted" where
  "inflight [] k c = c"
| "inflight ((k', u) # r) k c = inflight r k (if k' = k then apply_usage u c else c)"

lemma inflight_Nil: "inflight [] k = (\<lambda>c. c)"
  by (rule ext) simp

lemma inflight_none: "k \<notin> fst ` set xs \<Longrightarrow> inflight xs k c = c"
  by (induction xs k c rule: inflight.induct) auto

lemma inflight_map:
  "distinct (map fst xs) \<Longrightarrow>
   inflight xs k c = (case map_of xs k of None \<Rightarrow> c | Some u \<Rightarrow> apply_usage u c)"
proof (induction xs arbitrary: c)
  case (Cons x xs)
  obtain k' u where x: "x = (k', u)" by (cases x)
  show ?case
  proof (cases "k' = k")
    case True
    with Cons.prems x have "k \<notin> fst ` set xs" by auto
    with True x show ?thesis by (simp add: inflight_none)
  next
    case False
    with Cons x show ?thesis by simp
  qed
qed simp

lemma inflight_taken:
  assumes "wf_map (w_usage w)" "mset xs = mset (w_usage w)"
  shows "inflight xs k c = pending w k c" "distinct (map fst xs)"
proof -
  have "mset (map fst xs) = mset (map fst (w_usage w))" using assms(2) by simp
  then show d: "distinct (map fst xs)"
    using assms(1) by (metis wf_map_def mset_eq_imp_distinct_iff)
  have "set xs = set (w_usage w)" using assms(2) by (metis set_mset_mset)
  then have "map_of xs = map_of (w_usage w)"
    using d assms(1) by (metis map_of_inject_set wf_map_def)
  then show "inflight xs k c = pending w k c"
    by (simp add: inflight_map [OF d] pending_def split: option.split)
qed

section \<open>What the writer relies on\<close>

text \<open>
  A call that reports no error has taken effect on exactly its key or on the audit log, a call
  that reports one has changed neither. A key whose row is gone counts as \<open>None\<close>; updating it
  is no error, as for an SQL UPDATE that matches no row.
\<close>

locale usage_store =
  fixes st :: "'s WStore"
    and usage_of :: "'s \<Rightarrow> string \<Rightarrow> counted option"
    and audit_of :: "'s \<Rightarrow> UsageEvent list"
  assumes AddUsage_ok: "ws_AddUsage st k n s = (s', None) \<Longrightarrow>
      usage_of s' = (usage_of s)(k := map_option (\<lambda>c. (fst c + n, snd c)) (usage_of s k))
      \<and> audit_of s' = audit_of s"
    and AddUsage_err: "ws_AddUsage st k n s = (s', Some e) \<Longrightarrow>
      usage_of s' = usage_of s \<and> audit_of s' = audit_of s"
    and ResetUsageWindow_ok: "ws_ResetUsageWindow st k t n s = (s', None) \<Longrightarrow>
      usage_of s' = (usage_of s)(k := map_option (\<lambda>c. (n, Some (timestamptz t))) (usage_of s k))
      \<and> audit_of s' = audit_of s"
    and ResetUsageWindow_err: "ws_ResetUsageWindow st k t n s = (s', Some e) \<Longrightarrow>
      usage_of s' = usage_of s \<and> audit_of s' = audit_of s"
    and RecordUsageEvents_ok: "ws_RecordUsageEvents st es s = (s', None) \<Longrightarrow>
      usage_of s' = usage_of s \<and> audit_of s' = audit_of s @ map stored_event es"
    and RecordUsageEvents_err: "ws_RecordUsageEvents st es s = (s', Some e) \<Longrightarrow>
      usage_of s' = usage_of s \<and> audit_of s' = audit_of s"
begin

lemma send_ok:
  assumes "send_usage st k u s = (s', None)"
  shows "usage_of s' = (usage_of s)(k := map_option (apply_usage u) (usage_of s k))"
    "audit_of s' = audit_of s"
proof -
  show "usage_of s' = (usage_of s)(k := map_option (apply_usage u) (usage_of s k))"
  proof (cases "u_reset u")
    case None
    then have "apply_usage u = (\<lambda>c. (fst c + u_n u, snd c))"
      by (simp add: apply_usage_def fun_eq_iff)
    with None assms show ?thesis by (simp add: send_usage_def AddUsage_ok)
  next
    case (Some t)
    then have "apply_usage u = (\<lambda>c. (u_n u, Some (timestamptz t)))" by (simp add: apply_usage_def fun_eq_iff)
    with Some assms show ?thesis by (simp add: send_usage_def ResetUsageWindow_ok)
  qed
  show "audit_of s' = audit_of s"
    using assms by (auto simp: send_usage_def dest: AddUsage_ok ResetUsageWindow_ok
      split: option.splits)
qed

lemma send_err:
  "send_usage st k u s = (s', Some e) \<Longrightarrow> usage_of s' = usage_of s \<and> audit_of s' = audit_of s"
  by (auto simp: send_usage_def dest: AddUsage_err ResetUsageWindow_err split: option.splits)

lemma flush_usage_conserves:
  "distinct (map fst xs) \<Longrightarrow> flush_usage st xs w s = (w', s') \<Longrightarrow>
   map_option (pending w' k) (usage_of s' k) =
     map_option (\<lambda>c. pending w k (inflight xs k c)) (usage_of s k)
   \<and> audit_of s' = audit_of s \<and> w_events w' = w_events w \<and> w_maxEvents w' = w_maxEvents w"
proof (induction xs arbitrary: w s)
  case Nil
  then show ?case by (simp add: comp_def)
next
  case (Cons x xs)
  obtain k0 u where x: "x = (k0, u)" by (cases x)
  have d: "k0 \<notin> fst ` set xs" "distinct (map fst xs)" using Cons.prems(1) x by auto
  obtain s1 err where sent: "send_usage st k0 u s = (s1, err)" by (cases "send_usage st k0 u s")
  show ?case
  proof (cases err)
    case None
    with Cons.prems(2) x sent have "flush_usage st xs w s1 = (w', s')" by simp
    from Cons.IH [OF d(2) this] send_ok [OF sent [unfolded None]] x
    show ?thesis by (auto simp: option.map_comp comp_def fun_upd_def)
  next
    case (Some e)
    with Cons.prems(2) x sent have "flush_usage st xs (requeueUsage k0 u w) s1 = (w', s')" by simp
    from Cons.IH [OF d(2) this] send_err [OF sent [unfolded Some]] x d(1)
    show ?thesis by (cases "k = k0") (simp_all add: pending_requeue inflight_none)
  qed
qed

lemma flush_events_usage:
  "flush_events st es w s = (w', s') \<Longrightarrow> usage_of s' = usage_of s \<and> pending w' = pending w"
  by (auto simp: flush_events_def dest: RecordUsageEvents_ok RecordUsageEvents_err
      split: if_splits prod.splits option.splits)

text \<open>
  Nothing is lost or counted twice by a flush, whichever calls fail and in whichever order the
  map is walked: what the store holds together with what is still queued stays the same.
\<close>

lemma Flush_conserves:
  assumes "wf_map (w_usage w)" "\<And>xs. mset (order xs) = mset xs" "Flush st order w s = (w', s')"
  shows "map_option (pending w' k) (usage_of s' k) = map_option (pending w k) (usage_of s k)"
proof -
  define w1 where "w1 = w\<lparr>w_usage := [], w_events := []\<rparr>"
  obtain w2 s2 where f: "flush_usage st (order (w_usage w)) w1 s = (w2, s2)"
    by (cases "flush_usage st (order (w_usage w)) w1 s")
  have e: "flush_events st (w_events w) w2 s2 = (w', s')"
    using assms(3) f by (simp add: Flush_def Let_def w1_def)
  note t = inflight_taken [OF assms(1), of "order (w_usage w)", OF assms(2)]
  have p: "pending w1 k = id" unfolding w1_def by (rule pending_taken)
  from flush_usage_conserves [OF t(2) f, of k] flush_events_usage [OF e] t(1) p
  show ?thesis by (simp add: comp_def)
qed

end

end
