(* ===== verification/Sealer.thy ===== *)
theory Sealer
  imports Prelude "HOL-Library.Char_ord"
begin

text \<open>
  \<open>internal/crypto/sealer.go\<close>. Strings are byte strings. The cipher is a parameter: an
  \<open>AEAD\<close> is what \<open>cipher.NewGCM\<close> returns for a key, with its nonce size and its two
  operations, and \<open>newGCM\<close> stands for \<open>aes.NewCipher\<close> followed by \<open>cipher.NewGCM\<close>. The
  bytes \<open>rand.Read\<close> fills the nonce with are an argument, \<open>None\<close> when it fails. Package
  \<open>encoding/hex\<close> is written out.
\<close>

section \<open>Package encoding/hex\<close>

definition hexdigits :: string where "hexdigits = ''0123456789abcdef''"

definition hex_byte :: "char \<Rightarrow> string" where
  "hex_byte c = [hexdigits ! (of_char c div 16), hexdigits ! (of_char c mod 16)]"

definition EncodeToString :: "string \<Rightarrow> string" where
  "EncodeToString s = concat (map hex_byte s)"

definition fromHexChar :: "char \<Rightarrow> nat option" where
  "fromHexChar c =
     (let n = (of_char c :: nat)
      in if 48 \<le> n \<and> n \<le> 57 then Some (n - 48)
         else if 97 \<le> n \<and> n \<le> 102 then Some (n - 87)
         else if 65 \<le> n \<and> n \<le> 70 then Some (n - 55)
         else None)"

text \<open>\<open>None\<close> is an error: a character that is no hex digit, or an odd length.\<close>

fun DecodeString :: "string \<Rightarrow> string option" where
  "DecodeString [] = Some []"
| "DecodeString [c] = None"
| "DecodeString (c # d # s) =
     (case (fromHexChar c, fromHexChar d) of
        (Some a, Some b) \<Rightarrow> map_option (\<lambda>r. char_of (16 * a + b) # r) (DecodeString s)
      | _ \<Rightarrow> None)"

lemma fromHexChar_hexdigit: "n < 16 \<Longrightarrow> fromHexChar (hexdigits ! n) = Some n"
proof -
  have "\<forall>n \<in> set [0..<16]. fromHexChar (hexdigits ! n) = Some n"
    by (simp add: hexdigits_def fromHexChar_def upt_rec numeral_nat)
  then show "n < 16 \<Longrightarrow> ?thesis" by simp
qed

lemma DecodeString_hex_byte: "DecodeString (hex_byte c @ s) = map_option ((#) c) (DecodeString s)"
proof -
  have "(of_char c :: nat) < 16 * 16" by simp
  then have "(of_char c :: nat) div 16 < 16" by (rule less_mult_imp_div_less)
  then show ?thesis by (simp add: hex_byte_def fromHexChar_hexdigit)
qed

lemma DecodeString_EncodeToString [simp]: "DecodeString (EncodeToString s) = Some s"
  by (induction s) (simp_all add: EncodeToString_def DecodeString_hex_byte)

section \<open>The sealer\<close>

record AEAD =
  aead_NonceSize :: nat
  aead_Seal :: "string \<Rightarrow> string \<Rightarrow> string"
  aead_Open :: "string \<Rightarrow> string \<Rightarrow> string option"

record Sealer =
  aead :: "AEAD option"

datatype sealerr = NotHex | BadKeySize nat | NoCipher | NoNonce | NoEncryptionKey
  | BadCiphertext | TooShort | FailedToDecrypt

definition GCMPrefix :: string where "GCMPrefix = ''enc:gcm:''"

definition keySize :: nat where "keySize = 32"

definition NewSealer :: "(string \<Rightarrow> AEAD option) \<Rightarrow> string \<Rightarrow> sealerr + Sealer" where
  "NewSealer newGCM keyHex =
     (if keyHex = [] then Inr \<lparr>aead = None\<rparr>
      else case DecodeString keyHex of
             None \<Rightarrow> Inl NotHex
           | Some key \<Rightarrow>
               (if length key \<noteq> keySize then Inl (BadKeySize (length key))
                else case newGCM key of
                       None \<Rightarrow> Inl NoCipher
                     | Some a \<Rightarrow> Inr \<lparr>aead = Some a\<rparr>))"

definition Enabled :: "Sealer \<Rightarrow> bool" where
  "Enabled s \<longleftrightarrow> aead s \<noteq> None"

definition Seal :: "Sealer \<Rightarrow> string option \<Rightarrow> string \<Rightarrow> sealerr + string" where
  "Seal s rand plaintext =
     (case aead s of
        None \<Rightarrow> Inr plaintext
      | Some a \<Rightarrow>
          (case rand of
             None \<Rightarrow> Inl NoNonce
           | Some nonce \<Rightarrow>
               Inr (GCMPrefix @ EncodeToString (nonce @ aead_Seal a nonce plaintext))))"

definition Open :: "Sealer \<Rightarrow> string \<Rightarrow> sealerr + string" where
  "Open s stored =
     (case cutPrefix stored GCMPrefix of
        (hexed, tagged) \<Rightarrow>
          if \<not> tagged then Inr stored
          else case aead s of
                 None \<Rightarrow> Inl NoEncryptionKey
               | Some a \<Rightarrow>
                   (case DecodeString hexed of
                      None \<Rightarrow> Inl BadCiphertext
                    | Some sealed \<Rightarrow>
                        (if length sealed < aead_NonceSize a then Inl TooShort
                         else case aead_Open a (take (aead_NonceSize a) sealed)
                                     (drop (aead_NonceSize a) sealed) of
                                None \<Rightarrow> Inl FailedToDecrypt
                              | Some p \<Rightarrow> Inr p)))"

text \<open>
  What AES-GCM promises (package \<open>crypto/cipher\<close>): \<open>Open\<close> of what \<open>Seal\<close> returned, with
  the same nonce, gives the plaintext back.
\<close>

definition aead_correct :: "AEAD \<Rightarrow> bool" where
  "aead_correct a \<longleftrightarrow>
     (\<forall>nonce p. length nonce = aead_NonceSize a \<longrightarrow> aead_Open a nonce (aead_Seal a nonce p) = Some p)"

lemma Open_untagged: "\<not> hasPrefix stored GCMPrefix \<Longrightarrow> Open s stored = Inr stored"
  by (simp add: Open_def cutPrefix_def)

lemma Open_tagged_no_key: "aead s = None \<Longrightarrow> hasPrefix stored GCMPrefix \<Longrightarrow> Open s stored = Inl NoEncryptionKey"
  by (simp add: Open_def cutPrefix_def)

lemma Seal_tagged: "aead s = Some a \<Longrightarrow> Seal s rand p = Inr stored \<Longrightarrow> hasPrefix stored GCMPrefix"
  by (auto simp: Seal_def split: option.splits)

lemma Open_Seal:
  assumes "aead s = Some a" "aead_correct a" "length nonce = aead_NonceSize a"
    and "Seal s (Some nonce) p = Inr stored"
  shows "Open s stored = Inr p"
proof -
  have "stored = GCMPrefix @ EncodeToString (nonce @ aead_Seal a nonce p)"
    using assms(1,4) by (simp add: Seal_def)
  with assms show ?thesis by (simp add: Open_def aead_correct_def)
qed

text \<open>
  C40. A value sealed with encryption on is tagged as encrypted and opens to itself, for any
  nonce the random source delivers. AES-GCM's own promise is the hypothesis \<open>aead_correct\<close>.
\<close>

theorem Seal_Open_roundtrip:
  assumes "aead s = Some a" "aead_correct a" "length nonce = aead_NonceSize a"
    and "Seal s (Some nonce) p = Inr stored"
  shows "hasPrefix stored GCMPrefix \<and> Open s stored = Inr p"
  using Open_Seal [OF assms] Seal_tagged [OF assms(1,4)] by blast

text \<open>A cipher that keeps its promise: the ciphertext is the plaintext behind one tag byte.\<close>

definition demo_aead :: AEAD where
  "demo_aead = \<lparr>aead_NonceSize = 2, aead_Seal = (\<lambda>nonce p. CHR ''t'' # p),
     aead_Open = (\<lambda>nonce c. case c of [] \<Rightarrow> None | x # p \<Rightarrow> if x = CHR ''t'' then Some p else None)\<rparr>"

theorem Seal_Open_roundtrip_witness:
  "Open \<lparr>aead = Some demo_aead\<rparr> (GCMPrefix @ EncodeToString ''nntfc'') = Inr ''fc''"
proof -
  have "aead_correct demo_aead" by (simp add: aead_correct_def demo_aead_def)
  moreover have "Seal \<lparr>aead = Some demo_aead\<rparr> (Some ''nn'') ''fc''
      = Inr (GCMPrefix @ EncodeToString ''nntfc'')"
    by (simp add: Seal_def demo_aead_def)
  ultimately show ?thesis
    using Seal_Open_roundtrip [of "\<lparr>aead = Some demo_aead\<rparr>" demo_aead "''nn''" "''fc''"]
    by (simp add: demo_aead_def)
qed

text \<open>
  Plaintext and encrypted values coexist: an untagged value is returned as it is whatever
  the configuration, and a tagged one opens only when a key is configured, its tail is hex and
  the cipher authenticates the bytes behind the nonce.
\<close>

theorem Open_by_tag:
  "Open s stored = Inr p \<longleftrightarrow>
     (if hasPrefix stored GCMPrefix
      then \<exists>a nonce c. aead s = Some a \<and> length nonce = aead_NonceSize a
             \<and> DecodeString (drop (length GCMPrefix) stored) = Some (nonce @ c)
             \<and> aead_Open a nonce c = Some p
      else p = stored)"
proof (cases "hasPrefix stored GCMPrefix")
  case True
  show ?thesis
  proof
    assume "Open s stored = Inr p"
    then obtain a sealed where a: "aead s = Some a"
      "DecodeString (drop (length GCMPrefix) stored) = Some sealed"
      "\<not> length sealed < aead_NonceSize a"
      "aead_Open a (take (aead_NonceSize a) sealed) (drop (aead_NonceSize a) sealed) = Some p"
      using True by (auto simp: Open_def cutPrefix_def split: option.splits if_splits)
    then have "length (take (aead_NonceSize a) sealed) = aead_NonceSize a" by simp
    with a True show "if hasPrefix stored GCMPrefix
      then \<exists>a nonce c. aead s = Some a \<and> length nonce = aead_NonceSize a
             \<and> DecodeString (drop (length GCMPrefix) stored) = Some (nonce @ c)
             \<and> aead_Open a nonce c = Some p
      else p = stored" by (metis append_take_drop_id)
  next
    assume "if hasPrefix stored GCMPrefix
      then \<exists>a nonce c. aead s = Some a \<and> length nonce = aead_NonceSize a
             \<and> DecodeString (drop (length GCMPrefix) stored) = Some (nonce @ c)
             \<and> aead_Open a nonce c = Some p
      else p = stored"
    with True show "Open s stored = Inr p" by (auto simp: Open_def cutPrefix_def)
  qed
qed (auto simp: Open_untagged)

text \<open>
  A plaintext value that itself begins with the tag is stored as it is when encryption is off
  and can then never be opened: the tag does not tell it from a sealed value.
\<close>

theorem Seal_plaintext_tag_collision:
  "Seal \<lparr>aead = None\<rparr> rand (GCMPrefix @ q) = Inr (GCMPrefix @ q) \<and>
   Open \<lparr>aead = None\<rparr> (GCMPrefix @ q) = Inl NoEncryptionKey"
  by (simp add: Seal_def Open_def)

lemma NewSealer_Enabled: "NewSealer newGCM keyHex = Inr s \<Longrightarrow> Enabled s \<longleftrightarrow> keyHex \<noteq> []"
  by (auto simp: NewSealer_def Enabled_def split: if_splits option.splits)

end
