(* ===== verification/Manager.thy ===== *)
theory Manager
  imports PoolKey Writeback Sealer "HOL-Library.Word"
begin

text \<open>
  \<open>internal/keypool/manager.go\<close> and the pool's part of \<open>balance.go\<close>: the key pool. The
  pointers in \<open>m.keys\<close> and in the list of available keys are positions in \<open>m_keys\<close>, so a
  change made through one is seen through the other. The database is the record \<open>PStore\<close> of
  the calls of interface \<open>Store\<close>; the readings of the clock an operation makes are the
  successive values of its argument \<open>clk\<close>. The writer \<open>m_usage\<close> is the one the API server
  shares. Each operation that holds \<open>m.mu\<close> throughout is one atomic function; \<open>RecordSpend\<close>
  releases it around the database call and is composed of the parts before and after.
\<close>

section \<open>State and interface\<close>

record 's PStore =
  ps_GetAllKeys :: "'s \<Rightarrow> 's \<times> (dberr + Key list)"
  ps_TierFeaturesByTier :: "'s \<Rightarrow> 's \<times> (dberr + (string, TierFeature list) gomap)"
  ps_KeySecretsByKey :: "'s \<Rightarrow> 's \<times> (dberr + (string, KeySecret list) gomap)"
  ps_SetKeyExhausted :: "string \<Rightarrow> time \<Rightarrow> 's \<Rightarrow> 's \<times> dberr option"
  ps_RecordSpend :: "SpendEvent \<Rightarrow> time option \<Rightarrow> 's \<Rightarrow> 's \<times> (dberr + f64 \<times> bool)"

record Manager =
  m_keys :: "PoolKey list"
  m_next :: "64 word"
  m_usage :: Writer
  m_sealer :: Sealer

record ServedKey =
  sk_ID :: string
  sk_KeyValue :: string
  sk_Metadata :: metadata
  sk_Secrets :: "(string, string) gomap"

definition served_of :: "PoolKey \<Rightarrow> ServedKey" where
  "served_of key = \<lparr>sk_ID = pk_ID key, sk_KeyValue = pk_KeyValue key,
     sk_Metadata = pk_Metadata key, sk_Secrets = pk_Secrets key\<rparr>"

text \<open>\<open>allowedTierIDs\<close>: a nil map is every tier, a missing entry reads as false.\<close>

type_synonym scope = "(string, bool) gomap option"

definition in_scope :: "scope \<Rightarrow> string \<Rightarrow> bool" where
  "in_scope allowed tierID =
     (case allowed of None \<Rightarrow> True | Some m \<Rightarrow> mget m tierID = Some True)"

definition offered :: "string \<Rightarrow> scope \<Rightarrow> PoolKey \<Rightarrow> bool" where
  "offered feature allowed key \<longleftrightarrow> in_scope allowed (pk_TierID key) \<and> HasFeature feature key"

definition set_key :: "nat \<Rightarrow> PoolKey \<Rightarrow> Manager \<Rightarrow> Manager" where
  "set_key a key m = m\<lparr>m_keys := (m_keys m)[a := key]\<rparr>"

section \<open>Serving a key\<close>

definition persistUsage :: "string \<Rightarrow> bool \<Rightarrow> time \<Rightarrow> Manager \<Rightarrow> Manager" where
  "persistUsage keyID didReset windowStart m =
     m\<lparr>m_usage := (if didReset then WindowReset keyID windowStart else Served keyID) (m_usage m)\<rparr>"

text \<open>
  The gates in front of one key, as both ways of serving pass them: the rate limit, then the
  usage limit, then the queue. A refused attempt leaves what the gates before it have counted.
\<close>

definition try_key :: "time \<Rightarrow> time \<Rightarrow> string \<Rightarrow> nat \<Rightarrow> Manager \<Rightarrow> Manager \<times> ServedKey option" where
  "try_key now1 now2 feature a m =
     (case TryRate now1 feature (m_keys m ! a) of
        (key, False) \<Rightarrow> (set_key a key m, None)
      | (key, True) \<Rightarrow>
          (case TryConsumeUsage now2 key of
             (key, False, didReset, windowStart) \<Rightarrow> (set_key a key m, None)
           | (key, True, didReset, windowStart) \<Rightarrow>
               (let m = set_key a key m;
                    m = (if pk_UsageLimit key \<noteq> None
                         then persistUsage (pk_ID key) didReset windowStart m else m)
                in (m, Some (served_of key)))))"

text \<open>
  The first loop of \<open>GetKeyForFeature\<close>: the positions of the available keys, whether any key
  was offered at all, and the number of clock readings made.
\<close>

fun scan_keys :: "(nat \<Rightarrow> time) \<Rightarrow> string \<Rightarrow> scope \<Rightarrow> nat \<Rightarrow> nat \<Rightarrow> PoolKey list
    \<Rightarrow> nat list \<times> bool \<times> nat" where
  "scan_keys clk feature allowed n a [] = ([], False, n)"
| "scan_keys clk feature allowed n a (key # keys) =
     (if \<not> offered feature allowed key then scan_keys clk feature allowed n (Suc a) keys
      else case scan_keys clk feature allowed (Suc n) (Suc a) keys of
             (available, _, n') \<Rightarrow>
               ((if Available (clk n) key then a # available else available), True, n'))"

text \<open>
  The second loop. \<open>next.Add(1) - 1\<close> is the counter's value before the addition, which wraps
  around at 64 bits.
\<close>

function draw_loop :: "(nat \<Rightarrow> time) \<Rightarrow> string \<Rightarrow> nat \<Rightarrow> nat list \<Rightarrow> Manager
    \<Rightarrow> Manager \<times> ServedKey option" where
  "draw_loop clk feature n available m =
     (if available = [] then (m, None)
      else let i = unat (m_next m) mod length available;
               m = m\<lparr>m_next := m_next m + 1\<rparr>
           in case try_key (clk n) (clk (Suc n)) feature (available ! i) m of
                (m, Some served) \<Rightarrow> (m, Some served)
              | (m, None) \<Rightarrow> draw_loop clk feature (n + 2) (remove_at i available) m)"
  by pat_completeness auto
termination
  by (relation "measure (\<lambda>(clk, feature, n, available, m). length available)") auto

declare draw_loop.simps [simp del]

definition GetKeyForFeature :: "(nat \<Rightarrow> time) \<Rightarrow> string \<Rightarrow> scope \<Rightarrow> Manager
    \<Rightarrow> Manager \<times> (poolerr + ServedKey)" where
  "GetKeyForFeature clk feature allowed m =
     (case scan_keys clk feature allowed 0 0 (m_keys m) of
        (available, was_offered, n) \<Rightarrow>
          case draw_loop clk feature n available m of
            (m, Some served) \<Rightarrow> (m, Inr served)
          | (m, None) \<Rightarrow> (m, Inl (if \<not> was_offered then ErrOutOfScope else ErrExhausted)))"

fun find_from :: "string \<Rightarrow> nat \<Rightarrow> PoolKey list \<Rightarrow> nat option" where
  "find_from keyID a [] = None"
| "find_from keyID a (key # keys) = (if pk_ID key = keyID then Some a else find_from keyID (Suc a) keys)"

definition find_key :: "string \<Rightarrow> Manager \<Rightarrow> nat option" where
  "find_key keyID m = find_from keyID 0 (m_keys m)"

definition KeyByID :: "(nat \<Rightarrow> time) \<Rightarrow> string \<Rightarrow> string \<Rightarrow> scope \<Rightarrow> Manager
    \<Rightarrow> Manager \<times> (poolerr + ServedKey)" where
  "KeyByID clk keyID feature allowed m =
     (case find_key keyID m of
        None \<Rightarrow> (m, Inl ErrNotFound)
      | Some a \<Rightarrow>
          (if \<not> offered feature allowed (m_keys m ! a) then (m, Inl ErrOutOfScope)
           else if \<not> Available (clk 0) (m_keys m ! a) then (m, Inl ErrExhausted)
           else case try_key (clk 1) (clk 2) feature a m of
                  (m, Some served) \<Rightarrow> (m, Inr served)
                | (m, None) \<Rightarrow> (m, Inl ErrExhausted)))"

section \<open>Loading the pool\<close>

definition featureLimits :: "TierFeature list \<Rightarrow> (string, FeatureLimit) gomap" where
  "featureLimits features =
     fold (\<lambda>f. mput (tf_Feature f)
            \<lparr>fl_RateLimit = tf_RateLimit f, fl_WindowSeconds = tf_WindowSeconds f\<rparr>) features []"

text \<open>A secret that does not open is left out.\<close>

definition openSecrets :: "Sealer \<Rightarrow> KeySecret list \<Rightarrow> (string, string) gomap" where
  "openSecrets sealer rows =
     fold (\<lambda>s secrets. case Open sealer (ks_Value s) of
              Inl err \<Rightarrow> secrets
            | Inr plain \<Rightarrow> mput (ks_Name s) plain secrets) rows []"

definition pool_key :: "Manager \<Rightarrow> (string, TierFeature list) gomap
    \<Rightarrow> (string, KeySecret list) gomap \<Rightarrow> Key \<Rightarrow> PoolKey option" where
  "pool_key m byTier byKey k =
     (let features = featureLimits (rows_of byTier (key_TierID k));
          existing = fold (\<lambda>key. mput (pk_ID key) key) (m_keys m) []
      in if features = [] then None
         else let key = (case mget existing (key_ID k) of
                           Some key \<Rightarrow> key
                         | None \<Rightarrow> new_PoolKey (key_UsageCount k) (key_UsageWindowStart k))
              in Some (load k features (openSecrets (m_sealer m) (rows_of byKey (key_ID k))) key))"

definition ReloadKeys :: "'s PStore \<Rightarrow> Manager \<Rightarrow> 's \<Rightarrow> Manager \<times> 's \<times> dberr option" where
  "ReloadKeys db m s =
     (case ps_GetAllKeys db s of
        (s, Inl err) \<Rightarrow> (m, s, Some err)
      | (s, Inr dbKeys) \<Rightarrow>
          (case ps_TierFeaturesByTier db s of
             (s, Inl err) \<Rightarrow> (m, s, Some err)
           | (s, Inr byTier) \<Rightarrow>
               (case ps_KeySecretsByKey db s of
                  (s, Inl err) \<Rightarrow> (m, s, Some err)
                | (s, Inr byKey) \<Rightarrow>
                    (m\<lparr>m_keys := List.map_filter (pool_key m byTier byKey) dbKeys\<rparr>, s, None))))"

definition NewManager :: "'s PStore \<Rightarrow> Sealer \<Rightarrow> Writer \<Rightarrow> 's \<Rightarrow> 's \<times> (dberr + Manager)" where
  "NewManager db sealer usage s =
     (case ReloadKeys db \<lparr>m_keys = [], m_next = 0, m_usage = usage, m_sealer = sealer\<rparr> s of
        (m, s, Some err) \<Rightarrow> (s, Inl err)
      | (m, s, None) \<Rightarrow> (s, Inr m))"

section \<open>Reports and listings\<close>

definition TierOf :: "string \<Rightarrow> Manager \<Rightarrow> string \<times> bool" where
  "TierOf keyID m =
     (case find_key keyID m of Some a \<Rightarrow> (pk_TierID (m_keys m ! a), True) | None \<Rightarrow> ([], False))"

text \<open>A failure to store \<open>until\<close> is logged and otherwise ignored.\<close>

definition MarkExhausted :: "'s PStore \<Rightarrow> string \<Rightarrow> time \<Rightarrow> Manager \<Rightarrow> 's \<Rightarrow> Manager \<times> 's \<times> bool" where
  "MarkExhausted db keyID until m s =
     (case find_key keyID m of
        None \<Rightarrow> (m, s, False)
      | Some a \<Rightarrow>
          (set_key a ((m_keys m ! a)\<lparr>pk_ExhaustedUntil := Some until\<rparr>) m,
           fst (ps_SetKeyExhausted db keyID until s), True))"

text \<open>Before the database call: the key, the budget it had and the start of its period.\<close>

definition spend_begin :: "time \<Rightarrow> SpendEvent \<Rightarrow> Manager
    \<Rightarrow> poolerr + (nat \<times> Budget option \<times> time option)" where
  "spend_begin now event m =
     (case find_key (se_KeyID event) m of
        None \<Rightarrow> Inl ErrUnknownKey
      | Some a \<Rightarrow>
          (case pk_Budget (m_keys m ! a) of
             None \<Rightarrow> Inr (a, None, None)
           | Some b \<Rightarrow>
               (if se_Unit event \<noteq> b_Unit b then Inl ErrUnitMismatch
                else Inr (a, Some b, Some (periodStart b now)))))"

text \<open>After it: the answer, and the total held by the key.\<close>

definition spend_finish :: "time \<Rightarrow> string \<Rightarrow> nat \<times> Budget option \<times> time option \<Rightarrow> f64 \<times> bool
    \<Rightarrow> Manager \<Rightarrow> Manager \<times> Spend" where
  "spend_finish now keyID begun counted m =
     (case (begun, counted) of ((a, budget, start), (spent, duplicate)) \<Rightarrow>
        (case start of
           None \<Rightarrow> (m, \<lparr>sp_KeyID = keyID, sp_Budget = budget, sp_Spent = 0, sp_ResetsAt = None,
                       sp_Duplicate = duplicate\<rparr>)
         | Some start \<Rightarrow>
             (set_key a (holdSpent spent start (m_keys m ! a)) m,
              \<lparr>sp_KeyID = keyID, sp_Budget = budget, sp_Spent = spent,
               sp_ResetsAt = (case budget of None \<Rightarrow> None | Some b \<Rightarrow> nextReset b now),
               sp_Duplicate = duplicate\<rparr>)))"

definition RecordSpend :: "'s PStore \<Rightarrow> time \<Rightarrow> SpendEvent \<Rightarrow> Manager \<Rightarrow> 's
    \<Rightarrow> Manager \<times> 's \<times> (poolerr + Spend)" where
  "RecordSpend db now event m s =
     (case spend_begin now event m of
        Inl err \<Rightarrow> (m, s, Inl err)
      | Inr begun \<Rightarrow>
          (case ps_RecordSpend db event (snd (snd begun)) s of
             (s, Inl ErrKeyNotFound) \<Rightarrow> (m, s, Inl ErrUnknownKey)
           | (s, Inl err) \<Rightarrow> (m, s, Inl (ErrStore err))
           | (s, Inr counted) \<Rightarrow>
               (case spend_finish now (se_KeyID event) begun counted m of
                  (m, spend) \<Rightarrow> (m, s, Inr spend))))"

definition PoolSize :: "Manager \<Rightarrow> nat" where
  "PoolSize m = length (m_keys m)"

record KeyHealth =
  kh_ID :: string
  kh_Name :: string
  kh_TierID :: string
  kh_IsActive :: bool
  kh_ExpiresAt :: "time option"
  kh_ExhaustedUntil :: "time option"
  kh_UsageLimit :: "int option"
  kh_UsageCount :: int
  kh_Budget :: "Budget option"
  kh_Spent :: f64
  kh_ResetsAt :: "time option"
  kh_Balance :: "Balance option"
  kh_Metadata :: metadata
  kh_SecretNames :: "string list"
  kh_Usage :: "(string, RateInfo) gomap"

text \<open>\<open>now\<close> is read once for the budgets, \<open>since\<close> once per key and feature for the rates.\<close>

definition key_health :: "time \<Rightarrow> (string \<Rightarrow> time) \<Rightarrow> PoolKey \<Rightarrow> KeyHealth" where
  "key_health now since key =
     \<lparr>kh_ID = pk_ID key, kh_Name = pk_Name key, kh_TierID = pk_TierID key,
      kh_IsActive = pk_IsActive key, kh_ExpiresAt = pk_ExpiresAt key,
      kh_ExhaustedUntil = pk_ExhaustedUntil key, kh_UsageLimit = pk_UsageLimit key,
      kh_UsageCount = UsageSnapshot key, kh_Budget = pk_Budget key,
      kh_Spent = spentNow now key,
      kh_ResetsAt = (case pk_Budget key of None \<Rightarrow> None | Some b \<Rightarrow> nextReset b now),
      kh_Balance = pk_Balance key, kh_Metadata = pk_Metadata key,
      kh_SecretNames = map fst (pk_Secrets key), kh_Usage = RateUsage since key\<rparr>"

definition GetHealthStatus :: "time \<Rightarrow> (string \<Rightarrow> string \<Rightarrow> time) \<Rightarrow> Manager \<Rightarrow> KeyHealth list" where
  "GetHealthStatus now since m = map (\<lambda>key. key_health now (since (pk_ID key)) key) (m_keys m)"

record Held =
  held_ID :: string
  held_KeyValue :: string

definition Holding :: "string \<Rightarrow> Manager \<Rightarrow> Held list" where
  "Holding feature m =
     List.map_filter (\<lambda>key.
       if \<not> pk_IsActive key \<or> \<not> HasFeature feature key then None
       else case Open (m_sealer m) (pk_KeyValue key) of
              Inl err \<Rightarrow> None
            | Inr value \<Rightarrow> Some \<lparr>held_ID = pk_ID key, held_KeyValue = value\<rparr>) (m_keys m)"

definition SetBalance :: "string \<Rightarrow> Balance \<Rightarrow> Manager \<Rightarrow> Manager" where
  "SetBalance keyID b m =
     (case find_key keyID m of
        None \<Rightarrow> m
      | Some a \<Rightarrow> set_key a ((m_keys m ! a)\<lparr>pk_Balance := Some b\<rparr>) m)"

end
