(* ===== verification/Serving.thy ===== *)
theory Serving
  imports Manager
begin

text \<open>
  The serve path of the pool: which key a draw may return, when it may refuse, what it changes,
  and how the round robin spreads consecutive draws. The lemmas describe \<open>try_key\<close>, the first
  loop and the second loop of \<open>GetKeyForFeature\<close> in turn; the properties combine them.
\<close>

section \<open>One attempt at one key\<close>

lemma set_key_fields [simp]:
  "m_keys (set_key a k m) = (m_keys m)[a := k]" "m_next (set_key a k m) = m_next m"
  "m_usage (set_key a k m) = m_usage m" "m_sealer (set_key a k m) = m_sealer m"
  by (simp_all add: set_key_def)

text \<open>Both gates let the key through; the key after the gates, passed or not.\<close>

definition serves :: "time \<Rightarrow> time \<Rightarrow> string \<Rightarrow> PoolKey \<Rightarrow> bool" where
  "serves t1 t2 f k \<longleftrightarrow> snd (TryRate t1 f k) \<and> snd (try_usage t2 (fst (TryRate t1 f k)))"

definition gated :: "time \<Rightarrow> time \<Rightarrow> string \<Rightarrow> PoolKey \<Rightarrow> PoolKey" where
  "gated t1 t2 f k = (if snd (TryRate t1 f k) then fst (try_usage t2 (fst (TryRate t1 f k)))
                      else fst (TryRate t1 f k))"

lemma core_gated [frame]: "core (gated t1 t2 f k) = core k"
  by (simp add: gated_def core_TryRate core_try_usage)

lemma served_of_core: "core k' = core k \<Longrightarrow> served_of k' = served_of k"
  using core_fields [of k' k] by (simp add: served_of_def)

text \<open>What a serve appends to the write-back queue.\<close>

definition queued :: "time \<Rightarrow> PoolKey \<Rightarrow> Writer \<Rightarrow> Writer" where
  "queued t2 k w =
     (case TryConsumeUsage t2 k of (_, _, didReset, start) \<Rightarrow>
        if pk_UsageLimit k = None then w
        else if didReset then WindowReset (pk_ID k) start w else Served (pk_ID k) w)"

lemma try_key_eq:
  "try_key t1 t2 f a m =
     (if serves t1 t2 f (m_keys m ! a)
      then ((set_key a (gated t1 t2 f (m_keys m ! a)) m)
              \<lparr>m_usage := queued t2 (fst (TryRate t1 f (m_keys m ! a))) (m_usage m)\<rparr>,
            Some (served_of (m_keys m ! a)))
      else (set_key a (gated t1 t2 f (m_keys m ! a)) m, None))"
proof -
  obtain k1 ok1 where r: "TryRate t1 f (m_keys m ! a) = (k1, ok1)" by fastforce
  obtain k2 ok2 did start where u: "TryConsumeUsage t2 k1 = (k2, ok2, did, start)"
    by (metis prod_cases4)
  have c1: "core k1 = core (m_keys m ! a)" using core_TryRate [of t1 f "m_keys m ! a"] r by simp
  have c2: "core k2 = core k1" using core_TryConsumeUsage [of t2 k1] u by simp
  have s: "served_of k2 = served_of (m_keys m ! a)" using c1 c2 by (intro served_of_core) simp
  note f2 = core_fields [OF c2]
  show ?thesis
    by (cases ok1; cases ok2)
      (simp_all add: try_key_def serves_def gated_def queued_def try_usage_def persistUsage_def
        r u s f2)
qed

lemma try_key_fields [simp]:
  "m_keys (fst (try_key t1 t2 f a m)) = (m_keys m)[a := gated t1 t2 f (m_keys m ! a)]"
  "m_next (fst (try_key t1 t2 f a m)) = m_next m"
  "m_sealer (fst (try_key t1 t2 f a m)) = m_sealer m"
  "snd (try_key t1 t2 f a m) =
     (if serves t1 t2 f (m_keys m ! a) then Some (served_of (m_keys m ! a)) else None)"
  by (simp_all add: try_key_eq)

lemma map_core_update: "core k' = core (ks ! a) \<Longrightarrow> map core (ks[a := k']) = map core ks"
  by (cases "a < length ks") (simp_all add: map_update list_update_same_conv list_update_beyond)

lemma nth_core: "map core ks = map core ks' \<Longrightarrow> a < length ks \<Longrightarrow> core (ks ! a) = core (ks' ! a)"
  by (metis length_map nth_map)

section \<open>The first loop\<close>

lemma scan_keys_spec:
  assumes "scan_keys clk f al n a keys = (av, off, n')"
  shows "sorted_wrt (<) av" "\<forall>b\<in>set av. a \<le> b \<and> b < a + length keys"
    "\<forall>i<length keys. a + i \<in> set av \<longrightarrow>
       offered f al (keys ! i) \<and> (\<exists>j. Available (clk j) (keys ! i))"
    "\<forall>i<length keys. offered f al (keys ! i) \<and> a + i \<notin> set av \<longrightarrow>
       (\<exists>j. \<not> Available (clk j) (keys ! i))"
    "off \<longleftrightarrow> (\<exists>k\<in>set keys. offered f al k)"
proof -
  have "sorted_wrt (<) av \<and> (\<forall>b\<in>set av. a \<le> b \<and> b < a + length keys) \<and>
    (\<forall>i<length keys. a + i \<in> set av \<longrightarrow>
       offered f al (keys ! i) \<and> (\<exists>j. Available (clk j) (keys ! i))) \<and>
    (\<forall>i<length keys. offered f al (keys ! i) \<and> a + i \<notin> set av \<longrightarrow>
       (\<exists>j. \<not> Available (clk j) (keys ! i))) \<and>
    (off \<longleftrightarrow> (\<exists>k\<in>set keys. offered f al k))"
    using assms
  proof (induction keys arbitrary: n a av off n')
    case (Cons k keys)
    obtain m av' off' where r: "scan_keys clk f al m (Suc a) keys = (av', off', n')"
      and m: "m = (if offered f al k then Suc n else n)"
      and av: "av = (if offered f al k \<and> Available (clk n) k then a # av' else av')"
      and off: "off \<longleftrightarrow> offered f al k \<or> off'"
      using Cons.prems
      by (cases "offered f al k"; cases "scan_keys clk f al (Suc n) (Suc a) keys";
          cases "scan_keys clk f al n (Suc a) keys") (auto split: if_splits)
    note IH = Cons.IH [OF r]
    have "\<forall>b\<in>set av'. Suc a \<le> b" using IH by blast
    then have notin: "a \<notin> set av'" by auto
    show ?case
    proof (intro conjI)
      show "sorted_wrt (<) av" using IH av by (auto simp: Suc_le_eq)
      show "\<forall>b\<in>set av. a \<le> b \<and> b < a + length (k # keys)" using IH av by auto
      show "\<forall>i<length (k # keys). a + i \<in> set av \<longrightarrow>
          offered f al ((k # keys) ! i) \<and> (\<exists>j. Available (clk j) ((k # keys) ! i))"
        using IH av notin by (auto simp: nth_Cons split: nat.splits if_splits)
      show "\<forall>i<length (k # keys). offered f al ((k # keys) ! i) \<and> a + i \<notin> set av \<longrightarrow>
          (\<exists>j. \<not> Available (clk j) ((k # keys) ! i))"
        using IH av notin by (auto simp: nth_Cons split: nat.splits if_splits)
      show "off \<longleftrightarrow> (\<exists>k\<in>set (k # keys). offered f al k)" using IH off by auto
    qed
  qed simp
  then show "sorted_wrt (<) av" "\<forall>b\<in>set av. a \<le> b \<and> b < a + length keys"
    "\<forall>i<length keys. a + i \<in> set av \<longrightarrow>
       offered f al (keys ! i) \<and> (\<exists>j. Available (clk j) (keys ! i))"
    "\<forall>i<length keys. offered f al (keys ! i) \<and> a + i \<notin> set av \<longrightarrow>
       (\<exists>j. \<not> Available (clk j) (keys ! i))"
    "off \<longleftrightarrow> (\<exists>k\<in>set keys. offered f al k)"
    by blast+
qed

section \<open>The second loop\<close>

definition turn :: "Manager \<Rightarrow> nat list \<Rightarrow> nat" where
  "turn m av = unat (m_next m) mod length av"

lemma turn_less: "av \<noteq> [] \<Longrightarrow> turn m av < length av"
  by (simp add: turn_def)

lemma draw_loop_Nil [simp]: "draw_loop clk f n [] m = (m, None)"
  by (simp add: draw_loop.simps)

lemma draw_loop_step:
  assumes "av \<noteq> []"
    and "m1 = fst (try_key (clk n) (clk (Suc n)) f (av ! turn m av) (m\<lparr>m_next := m_next m + 1\<rparr>))"
  shows "draw_loop clk f n av m =
     (if serves (clk n) (clk (Suc n)) f (m_keys m ! (av ! turn m av))
      then (m1, Some (served_of (m_keys m ! (av ! turn m av))))
      else draw_loop clk f (n + 2) (remove_at (turn m av) av) m1)"
proof -
  obtain m2 r where t: "try_key (clk n) (clk (Suc n)) f (av ! turn m av) (m\<lparr>m_next := m_next m + 1\<rparr>)
      = (m2, r)" by fastforce
  have r: "r = (if serves (clk n) (clk (Suc n)) f (m_keys m ! (av ! turn m av))
      then Some (served_of (m_keys m ! (av ! turn m av))) else None)"
    using try_key_fields(4) [of "clk n" "clk (Suc n)" f "av ! turn m av" "m\<lparr>m_next := m_next m + 1\<rparr>"] t
    by simp
  show ?thesis
    using assms t r by (subst draw_loop.simps) (simp add: Let_def flip: turn_def)
qed

text \<open>A key the loop left as it was, or tried and did not serve.\<close>

definition passed_over :: "(nat \<Rightarrow> time) \<Rightarrow> string \<Rightarrow> nat list \<Rightarrow> PoolKey list \<Rightarrow> PoolKey list \<Rightarrow> nat \<Rightarrow> bool"
where
  "passed_over clk f av ks ks' b \<longleftrightarrow>
     ks' ! b = ks ! b \<or>
     b \<in> set av \<and> (\<exists>i. \<not> serves (clk i) (clk (Suc i)) f (ks ! b)
       \<and> ks' ! b = gated (clk i) (clk (Suc i)) f (ks ! b))"

text \<open>The key at \<open>a\<close> was served: what was returned, what it counted and what was queued.\<close>

definition served_at :: "(nat \<Rightarrow> time) \<Rightarrow> string \<Rightarrow> Manager \<Rightarrow> Manager \<Rightarrow> nat \<Rightarrow> ServedKey \<Rightarrow> bool" where
  "served_at clk f m m' a s \<longleftrightarrow>
     s = served_of (m_keys m ! a) \<and>
     (\<exists>i. serves (clk i) (clk (Suc i)) f (m_keys m ! a)
       \<and> m_keys m' ! a = gated (clk i) (clk (Suc i)) f (m_keys m ! a)
       \<and> m_usage m' = queued (clk (Suc i)) (fst (TryRate (clk i) f (m_keys m ! a))) (m_usage m))"

definition loop_post :: "(nat \<Rightarrow> time) \<Rightarrow> string \<Rightarrow> nat list \<Rightarrow> Manager \<Rightarrow> Manager \<Rightarrow> ServedKey option \<Rightarrow> bool"
where
  "loop_post clk f av m m' r \<longleftrightarrow>
     map core (m_keys m') = map core (m_keys m) \<and> m_sealer m' = m_sealer m \<and>
     (case r of
        Some s \<Rightarrow> \<exists>a\<in>set av. served_at clk f m m' a s
          \<and> (\<forall>b. b \<noteq> a \<longrightarrow> passed_over clk f av (m_keys m) (m_keys m') b)
      | None \<Rightarrow> m_usage m' = m_usage m
          \<and> (\<forall>a\<in>set av. \<exists>i. \<not> serves (clk i) (clk (Suc i)) f (m_keys m ! a))
          \<and> (\<forall>b. passed_over clk f av (m_keys m) (m_keys m') b))"

lemma passed_over_after_refusal:
  assumes "passed_over clk f av1 ks1 ks' b"
    and "ks1 = ks[a := gated (clk n) (clk (Suc n)) f (ks ! a)]"
    and "\<not> serves (clk n) (clk (Suc n)) f (ks ! a)"
    and "set av = insert a (set av1)" "a \<notin> set av1" "a < length ks"
  shows "passed_over clk f av ks ks' b"
proof (cases "b = a")
  case True
  then have "ks' ! b = ks1 ! b" using assms(1,5) by (simp add: passed_over_def)
  with True assms show ?thesis by (auto simp: passed_over_def)
next
  case False
  then have "ks1 ! b = ks ! b" using assms(2) by simp
  with assms(1,4) show ?thesis by (auto simp: passed_over_def)
qed

lemma loop_post_after_refusal:
  assumes post: "loop_post clk f av1 m1 m' r"
    and m1: "m_keys m1 = (m_keys m)[a := gated (clk n) (clk (Suc n)) f (m_keys m ! a)]"
      "m_sealer m1 = m_sealer m" "m_usage m1 = m_usage m"
    and a: "\<not> serves (clk n) (clk (Suc n)) f (m_keys m ! a)"
      "set av = insert a (set av1)" "a \<notin> set av1" "a < length (m_keys m)"
  shows "loop_post clk f av m m' r"
proof -
  have cores: "map core (m_keys m1) = map core (m_keys m)"
    unfolding m1 by (rule map_core_update) (rule core_gated)
  have other: "m_keys m1 ! b = m_keys m ! b" if "b \<noteq> a" for b using that m1(1) by simp
  note over = passed_over_after_refusal [OF _ m1(1) a]
  show ?thesis
  proof (cases r)
    case None
    have "\<forall>b\<in>set av. \<exists>i. \<not> serves (clk i) (clk (Suc i)) f (m_keys m ! b)"
    proof
      fix b
      assume "b \<in> set av"
      then consider "b = a" | "b \<noteq> a" "b \<in> set av1" using a(2) by auto
      then show "\<exists>i. \<not> serves (clk i) (clk (Suc i)) f (m_keys m ! b)"
      proof cases
        case 1
        with a(1) show ?thesis by blast
      next
        case 2
        from post None 2(2) have "\<exists>i. \<not> serves (clk i) (clk (Suc i)) f (m_keys m1 ! b)"
          by (simp add: loop_post_def)
        with other [OF 2(1)] show ?thesis by simp
      qed
    qed
    moreover have "\<forall>b. passed_over clk f av (m_keys m) (m_keys m') b"
      using post None over by (auto simp: loop_post_def)
    ultimately show ?thesis using post None cores m1(2,3) by (auto simp: loop_post_def)
  next
    case (Some s)
    with post obtain b where b: "b \<in> set av1" "served_at clk f m1 m' b s"
      "\<forall>c. c \<noteq> b \<longrightarrow> passed_over clk f av1 (m_keys m1) (m_keys m') c"
      by (auto simp: loop_post_def)
    then have "b \<noteq> a" using a(3) by auto
    then have "served_at clk f m m' b s" using b(2) other m1(3) by (simp add: served_at_def)
    moreover have "\<forall>c. c \<noteq> b \<longrightarrow> passed_over clk f av (m_keys m) (m_keys m') c"
      using b(3) over by blast
    ultimately show ?thesis using post Some cores m1(2) b(1) a(2) by (auto simp: loop_post_def)
  qed
qed

lemma draw_loop_post:
  "distinct av \<Longrightarrow> \<forall>a\<in>set av. a < length (m_keys m) \<Longrightarrow> draw_loop clk f n av m = (m', r) \<Longrightarrow>
   loop_post clk f av m m' r"
proof (induction "length av" arbitrary: av m n)
  case 0
  then show ?case by (auto simp: loop_post_def passed_over_def)
next
  case (Suc l)
  then have ne: "av \<noteq> []" by auto
  define i where "i = turn m av"
  define a where "a = av ! i"
  define m1 where "m1 = fst (try_key (clk n) (clk (Suc n)) f a (m\<lparr>m_next := m_next m + 1\<rparr>))"
  have i: "i < length av" unfolding i_def using ne by (rule turn_less)
  then have a: "a \<in> set av" by (simp add: a_def)
  then have len: "a < length (m_keys m)" using Suc.prems(2) by blast
  have keys: "m_keys m1 = (m_keys m)[a := gated (clk n) (clk (Suc n)) f (m_keys m ! a)]"
    "m_sealer m1 = m_sealer m" by (simp_all add: m1_def)
  have step: "draw_loop clk f n av m =
     (if serves (clk n) (clk (Suc n)) f (m_keys m ! a)
      then (m1, Some (served_of (m_keys m ! a)))
      else draw_loop clk f (n + 2) (remove_at i av) m1)"
    using draw_loop_step [OF ne m1_def [unfolded a_def i_def]] by (simp add: i_def a_def)
  show ?case
  proof (cases "serves (clk n) (clk (Suc n)) f (m_keys m ! a)")
    case True
    with step Suc.prems(3) have r: "m' = m1" "r = Some (served_of (m_keys m ! a))" by auto
    have "map core (m_keys m1) = map core (m_keys m)"
      unfolding keys by (rule map_core_update) (rule core_gated)
    moreover have "served_at clk f m m1 a (served_of (m_keys m ! a))"
      using True len unfolding served_at_def
      by (intro conjI exI [of _ n]) (simp_all add: m1_def try_key_eq)
    ultimately show ?thesis
      using a keys r by (auto simp: loop_post_def passed_over_def)
  next
    case False
    have u: "m_usage m1 = m_usage m" using False by (simp add: m1_def try_key_eq)
    have sets: "set av = insert a (set (remove_at i av))" "a \<notin> set (remove_at i av)"
      "distinct (remove_at i av)" "l = length (remove_at i av)"
      using set_remove_at [OF i] Suc.prems(1) Suc.hyps(2) distinct_remove_at i
      by (auto simp: a_def remove_at_not_in)
    have rest: "draw_loop clk f (n + 2) (remove_at i av) m1 = (m', r)"
      using step False Suc.prems(3) by simp
    have "\<forall>b\<in>set (remove_at i av). b < length (m_keys m1)" using Suc.prems(2) sets keys by simp
    from Suc.hyps(1) [OF sets(4) sets(3) this rest]
    show ?thesis by (rule loop_post_after_refusal) (use keys u False sets len in simp_all)
  qed
qed

section \<open>A whole draw\<close>

lemma draw_cases:
  assumes "GetKeyForFeature clk f al m = (m', res)"
  obtains av where "distinct av"
    "\<forall>a\<in>set av. a < length (m_keys m) \<and> offered f al (m_keys m ! a)
        \<and> (\<exists>j. Available (clk j) (m_keys m ! a))"
    "\<forall>a<length (m_keys m). offered f al (m_keys m ! a) \<and> a \<notin> set av
        \<longrightarrow> (\<exists>j. \<not> Available (clk j) (m_keys m ! a))"
    "case res of
       Inr s \<Rightarrow> loop_post clk f av m m' (Some s)
     | Inl e \<Rightarrow> loop_post clk f av m m' None \<and>
         e = (if \<exists>k\<in>set (m_keys m). offered f al k then ErrExhausted else ErrOutOfScope)"
proof -
  obtain av off n where s: "scan_keys clk f al 0 0 (m_keys m) = (av, off, n)"
    by (metis prod_cases3)
  obtain m2 r where d: "draw_loop clk f n av m = (m2, r)" by fastforce
  note spec = scan_keys_spec [OF s]
  have dist: "distinct av" using spec(1) by (simp add: strict_sorted_iff)
  have len: "\<forall>a\<in>set av. a < length (m_keys m)" using spec(2) by simp
  have post: "loop_post clk f av m m2 r" using dist len d by (rule draw_loop_post)
  have r: "case res of
       Inr s \<Rightarrow> loop_post clk f av m m' (Some s)
     | Inl e \<Rightarrow> loop_post clk f av m m' None \<and>
         e = (if \<exists>k\<in>set (m_keys m). offered f al k then ErrExhausted else ErrOutOfScope)"
    using assms s d post spec(5) by (auto simp: GetKeyForFeature_def split: option.splits)
  show ?thesis
    by (rule that [OF dist _ _ r]) (use spec(3,4) len in auto)
qed

lemma draw_core [frame]:
  "map core (m_keys (fst (GetKeyForFeature clk f al m))) = map core (m_keys m)"
proof -
  obtain m' res where g: "GetKeyForFeature clk f al m = (m', res)" by fastforce
  then show ?thesis by (rule draw_cases) (auto simp: loop_post_def g split: sum.splits)
qed

text \<open>A key that is handed out passed every test, and a refusal means that every key failed one.\<close>

definition eligible :: "(nat \<Rightarrow> time) \<Rightarrow> string \<Rightarrow> scope \<Rightarrow> PoolKey \<Rightarrow> bool" where
  "eligible clk f al k \<longleftrightarrow> in_scope al (pk_TierID k) \<and> HasFeature f k
     \<and> (\<exists>i. Available (clk i) k) \<and> (\<exists>i. serves (clk i) (clk (Suc i)) f k)"

definition turned_down :: "(nat \<Rightarrow> time) \<Rightarrow> string \<Rightarrow> scope \<Rightarrow> PoolKey \<Rightarrow> bool" where
  "turned_down clk f al k \<longleftrightarrow> \<not> in_scope al (pk_TierID k) \<or> \<not> HasFeature f k
     \<or> (\<exists>i. \<not> Available (clk i) k) \<or> (\<exists>i. \<not> serves (clk i) (clk (Suc i)) f k)"

lemma draw_served:
  assumes "GetKeyForFeature clk f al m = (m', Inr s)"
  shows "\<exists>k\<in>set (m_keys m). s = served_of k \<and> eligible clk f al k"
proof -
  obtain av where av: "\<forall>a\<in>set av. a < length (m_keys m) \<and> offered f al (m_keys m ! a)
        \<and> (\<exists>j. Available (clk j) (m_keys m ! a))" "loop_post clk f av m m' (Some s)"
    using assms by (rule draw_cases) simp
  then obtain a where a: "a \<in> set av" "served_at clk f m m' a s" by (auto simp: loop_post_def)
  moreover have "m_keys m ! a \<in> set (m_keys m)" using a(1) av(1) by simp
  ultimately show ?thesis using av(1) by (auto simp: served_at_def offered_def eligible_def)
qed

lemma draw_refused:
  assumes "GetKeyForFeature clk f al m = (m', Inl e)"
  shows "e = (if \<exists>k\<in>set (m_keys m). offered f al k then ErrExhausted else ErrOutOfScope)"
    "\<forall>k\<in>set (m_keys m). turned_down clk f al k"
proof -
  obtain av where av: "\<forall>a<length (m_keys m). offered f al (m_keys m ! a) \<and> a \<notin> set av
        \<longrightarrow> (\<exists>j. \<not> Available (clk j) (m_keys m ! a))"
    "loop_post clk f av m m' None"
    "e = (if \<exists>k\<in>set (m_keys m). offered f al k then ErrExhausted else ErrOutOfScope)"
    using assms by (rule draw_cases) simp
  have "turned_down clk f al (m_keys m ! a)" if "a < length (m_keys m)" for a
  proof (cases "a \<in> set av")
    case True
    with av(2) show ?thesis by (simp add: loop_post_def turned_down_def)
  next
    case False
    with that av(1) show ?thesis by (auto simp: turned_down_def offered_def)
  qed
  then show "\<forall>k\<in>set (m_keys m). turned_down clk f al k" unfolding all_set_conv_all_nth by blast
  show "e = (if \<exists>k\<in>set (m_keys m). offered f al k then ErrExhausted else ErrOutOfScope)"
    by (rule av(3))
qed

text \<open>
  C1. A draw hands out an eligible key only: the key is in the pool, its tier is in the caller's
  scope and covers the feature, it was found active, unexpired, not reported exhausted and
  within its budget, and it passed its rate limit and its usage limit; the answer carries that
  key's id, value, metadata and secrets. A draw refuses only when it has to: every key of the
  pool failed one of these tests, and the error tells a caller with no such key in scope from
  one whose keys are all used up. The clock may advance between the readings.
\<close>

theorem draw_outcome:
  "case snd (GetKeyForFeature clk f al m) of
     Inr s \<Rightarrow> (\<exists>k\<in>set (m_keys m). s = served_of k \<and> eligible clk f al k)
   | Inl e \<Rightarrow> (\<forall>k\<in>set (m_keys m). turned_down clk f al k)
       \<and> e = (if \<exists>k\<in>set (m_keys m). in_scope al (pk_TierID k) \<and> HasFeature f k
              then ErrExhausted else ErrOutOfScope)"
proof -
  obtain m' res where g: "GetKeyForFeature clk f al m = (m', res)" by fastforce
  show ?thesis
  proof (cases res)
    case (Inl e)
    with draw_refused [of clk f al m m' e] g show ?thesis by (simp add: offered_def)
  next
    case (Inr s)
    with draw_served [of clk f al m m' s] g show ?thesis by simp
  qed
qed

text \<open>
  C2. At one instant the pool answers if and only if some key can: a draw succeeds exactly when
  a key in scope covers the feature, is available and has both rate and usage left. Exhausted
  keys are skipped and the next is tried, whatever the round-robin counter is.
\<close>

theorem draw_succeeds_iff:
  "(\<exists>s. snd (GetKeyForFeature (\<lambda>_. t) f al m) = Inr s) \<longleftrightarrow>
     (\<exists>k\<in>set (m_keys m). in_scope al (pk_TierID k) \<and> HasFeature f k \<and> Available t k
        \<and> serves t t f k)"
proof -
  obtain m' res where g: "GetKeyForFeature (\<lambda>_. t) f al m = (m', res)" by fastforce
  show ?thesis
  proof (cases res)
    case (Inl e)
    with g draw_refused(2) [of "\<lambda>_. t" f al m m' e] show ?thesis by (auto simp: turned_down_def)
  next
    case (Inr s)
    with g draw_served [of "\<lambda>_. t" f al m m' s] show ?thesis by (auto simp: eligible_def)
  qed
qed

section \<open>Round robin\<close>

lemma scan_keys_core:
  "map core ks = map core ks' \<Longrightarrow> scan_keys clk f al n a ks = scan_keys clk f al n a ks'"
proof (induction ks arbitrary: ks' n a)
  case (Cons k ks)
  then obtain k' ks'' where ks': "ks' = k' # ks''" "core k = core k'" "map core ks = map core ks''"
    by auto
  have "offered f al k = offered f al k'" "Available t k = Available t k'" for t
    using core_fields(3) [OF ks'(2)] core_HasFeature [OF ks'(2)] core_Available [OF ks'(2)]
    by (simp_all add: offered_def)
  with Cons.IH [OF ks'(3)] ks'(1) show ?case by simp
qed simp

lemma scan_keys_filter:
  "scan_keys (\<lambda>_. t) f al n a ks = (av, off, n') \<Longrightarrow>
   map (\<lambda>b. ks ! (b - a)) av = filter (\<lambda>k. offered f al k \<and> Available t k) ks"
proof (induction ks arbitrary: n a av off n')
  case (Cons k ks)
  obtain m av' off' where r: "scan_keys (\<lambda>_. t) f al m (Suc a) ks = (av', off', n')"
    and av: "av = (if offered f al k \<and> Available t k then a # av' else av')"
    using Cons.prems
    by (cases "offered f al k"; cases "scan_keys (\<lambda>_. t) f al (Suc n) (Suc a) ks";
        cases "scan_keys (\<lambda>_. t) f al n (Suc a) ks") (auto split: if_splits)
  have "\<forall>b\<in>set av'. Suc a \<le> b" using scan_keys_spec(2) [OF r] by blast
  then have "map (\<lambda>b. (k # ks) ! (b - a)) av' = map (\<lambda>b. ks ! (b - Suc a)) av'"
    by (auto simp: nth_Cons' Suc_diff_le)
  with Cons.IH [OF r] av show ?case by simp
qed simp

text \<open>\<open>n\<close> draws one after the other at the same instant.\<close>

fun draws :: "nat \<Rightarrow> time \<Rightarrow> string \<Rightarrow> scope \<Rightarrow> Manager \<Rightarrow> Manager \<times> (poolerr + ServedKey) list" where
  "draws 0 t f al m = (m, [])"
| "draws (Suc n) t f al m =
     (case draws n t f al m of (m, rs) \<Rightarrow>
        case GetKeyForFeature (\<lambda>_. t) f al m of (m, r) \<Rightarrow> (m, rs @ [r]))"

lemma draw_first_try:
  assumes "scan_keys (\<lambda>_. t) f al 0 0 (m_keys m) = (av, off, n)" "av \<noteq> []"
    and "serves t t f (m_keys m ! (av ! turn m av))"
  shows "snd (GetKeyForFeature (\<lambda>_. t) f al m) = Inr (served_of (m_keys m ! (av ! turn m av)))"
    "m_next (fst (GetKeyForFeature (\<lambda>_. t) f al m)) = m_next m + 1"
    "m_keys (fst (GetKeyForFeature (\<lambda>_. t) f al m)) =
       (m_keys m)[av ! turn m av := gated t t f (m_keys m ! (av ! turn m av))]"
  using assms draw_loop_step [OF assms(2) refl, where clk = "\<lambda>_. t" and n = n and f = f and m = m]
  by (simp_all add: GetKeyForFeature_def)

lemma mod_add_cancel: "i < n \<Longrightarrow> j < n \<Longrightarrow> (a + i) mod n = (a + j) mod (n::nat) \<Longrightarrow> i = j"
proof -
  assume a: "i < n" "j < n" "(a + i) mod n = (a + j) mod n"
  then obtain p q where "a + i + n * p = a + j + n * q" using nat_mod_eq_iff by blast
  then have "i + n * p = j + n * q" by simp
  then have "i mod n = j mod n" by (metis mod_mult_self2)
  with a show "i = j" by simp
qed

text \<open>After \<open>j\<close> draws: the turn has moved on by \<open>j\<close>, and the keys whose turn is to come are as they were.\<close>

lemma draws_round:
  assumes scan: "scan_keys (\<lambda>_. t) f al 0 0 (m_keys m) = (av, off, n)"
    and serve: "\<forall>a\<in>set av. serves t t f (m_keys m ! a)"
    and wrap: "unat (m_next m) + length av < 2 ^ 64"
  shows "j \<le> length av \<Longrightarrow> draws j t f al m = (mj, rs) \<Longrightarrow>
    map core (m_keys mj) = map core (m_keys m) \<and> unat (m_next mj) = unat (m_next m) + j \<and>
    rs = map (\<lambda>i. Inr (served_of (m_keys m ! (av ! ((unat (m_next m) + i) mod length av))))) [0..<j] \<and>
    (\<forall>i. j \<le> i \<and> i < length av \<longrightarrow>
       m_keys mj ! (av ! ((unat (m_next m) + i) mod length av))
         = m_keys m ! (av ! ((unat (m_next m) + i) mod length av)))"
proof (induction j arbitrary: mj rs)
  case (Suc j)
  let ?p = "\<lambda>i. av ! ((unat (m_next m) + i) mod length av)"
  obtain m1 rs1 where d: "draws j t f al m = (m1, rs1)" by fastforce
  have IH: "map core (m_keys m1) = map core (m_keys m)" "unat (m_next m1) = unat (m_next m) + j"
    "rs1 = map (\<lambda>i. Inr (served_of (m_keys m ! ?p i))) [0..<j]"
    "\<And>i. j \<le> i \<Longrightarrow> i < length av \<Longrightarrow> m_keys m1 ! ?p i = m_keys m ! ?p i"
    using Suc.IH [OF _ d] Suc.prems(1) by auto
  have ne: "av \<noteq> []" using Suc.prems(1) by auto
  have scan1: "scan_keys (\<lambda>_. t) f al 0 0 (m_keys m1) = (av, off, n)"
    using scan scan_keys_core [OF IH(1)] by simp
  have p: "av ! turn m1 av = ?p j" by (simp add: turn_def IH(2))
  have key: "m_keys m1 ! ?p j = m_keys m ! ?p j" using IH(4) Suc.prems(1) by simp
  have "?p j \<in> set av" using ne by simp
  with serve key p have sv: "serves t t f (m_keys m1 ! (av ! turn m1 av))" by simp
  note first = draw_first_try [OF scan1 ne sv, unfolded p key]
  obtain m2 r where g: "GetKeyForFeature (\<lambda>_. t) f al m1 = (m2, r)" by fastforce
  have res: "mj = m2" "rs = rs1 @ [r]" using Suc.prems(2) d g by simp_all
  have "unat (m_next m1 + 1) = unat (m_next m1) + 1"
    using IH(2) wrap Suc.prems(1) by (subst unat_plus_simple [THEN iffD1]) (simp_all add: no_olen_add_nat)
  then have "unat (m_next mj) = unat (m_next m) + Suc j" using first(2) g res IH(2) by simp
  moreover have "map core (m_keys mj) = map core (m_keys m)"
    using draw_core [of "\<lambda>_. t" f al m1] IH(1) g res by simp
  moreover have "m_keys mj ! ?p i = m_keys m ! ?p i" if "Suc j \<le> i" "i < length av" for i
  proof -
    have dist: "distinct av" using scan_keys_spec(1) [OF scan] by (simp add: strict_sorted_iff)
    have "?p i \<noteq> ?p j"
    proof
      assume "?p i = ?p j"
      then have "(unat (m_next m) + i) mod length av = (unat (m_next m) + j) mod length av"
        using dist ne by (simp add: nth_eq_iff_index_eq)
      with mod_add_cancel [of i "length av" j] that show False by simp
    qed
    with first(3) g res IH(4) that show ?thesis by simp
  qed
  ultimately show ?case using first(1) g res IH(3) by simp
qed simp

text \<open>
  C3. Round robin: as long as no key refuses, consecutive draws go round the available keys in
  the order of the pool, starting at the turn of the shared counter, and use each of them
  exactly once before any of them again.
\<close>

theorem round_robin:
  assumes "ks = filter (\<lambda>k. in_scope al (pk_TierID k) \<and> HasFeature f k \<and> Available t k) (m_keys m)"
    and "\<forall>k\<in>set ks. serves t t f k"
    and "unat (m_next m) + length ks < 2 ^ 64"
  shows "snd (draws (length ks) t f al m) = map (\<lambda>k. Inr (served_of k)) (rotate (unat (m_next m)) ks)"
proof -
  obtain av off n where scan: "scan_keys (\<lambda>_. t) f al 0 0 (m_keys m) = (av, off, n)"
    by (metis prod_cases3)
  have ks: "ks = map (\<lambda>a. m_keys m ! a) av"
    using scan_keys_filter [OF scan] assms(1) by (simp add: offered_def conj_assoc)
  obtain m' rs where d: "draws (length ks) t f al m = (m', rs)" by fastforce
  have "rs = map (\<lambda>i. Inr (served_of (m_keys m ! (av ! ((unat (m_next m) + i) mod length av)))))
      [0..<length ks]"
    using draws_round [OF scan _ _ _ d] assms(2,3) ks by simp
  also have "\<dots> = map (\<lambda>k. Inr (served_of k)) (rotate (unat (m_next m)) ks)"
  proof (rule nth_equalityI, goal_cases)
    case (2 i)
    then have "i < length av" by (simp add: ks)
    then have "(unat (m_next m) + i) mod length av < length av" by (intro mod_less_divisor) auto
    with \<open>i < length av\<close> show ?case by (simp add: ks nth_rotate)
  qed (simp add: ks)
  finally show ?thesis by (simp add: d)
qed

end
