(* ===== verification/Pool.thy ===== *)
theory Pool
  imports Serving
begin

text \<open>
  The pool as a whole: finding a key, the invariant every pooled key satisfies, the contract of
  the database behind it (locale \<open>pool_store\<close>), and what the operations other than a draw do.
\<close>

section \<open>Finding a key\<close>

lemma find_from_Some:
  "find_from i n keys = Some a \<longleftrightarrow> n \<le> a \<and> a < n + length keys \<and> pk_ID (keys ! (a - n)) = i
     \<and> (\<forall>b<a - n. pk_ID (keys ! b) \<noteq> i)"
proof (induction keys arbitrary: n)
  case (Cons k keys)
  show ?case
  proof (cases "pk_ID k = i")
    case True
    then have "n = a \<longleftrightarrow> n \<le> a \<and> a < n + length (k # keys) \<and> pk_ID ((k # keys) ! (a - n)) = i
        \<and> (\<forall>b<a - n. pk_ID ((k # keys) ! b) \<noteq> i)"
      by (auto simp: not_less dest!: spec [of _ 0])
    with True show ?thesis by simp
  next
    case False
    have "(\<forall>b<a - n. pk_ID ((k # keys) ! b) \<noteq> i) \<longleftrightarrow> (\<forall>b<a - Suc n. pk_ID (keys ! b) \<noteq> i)"
      if "Suc n \<le> a"
      using that False by (auto simp: nth_Cons Suc_diff_Suc split: nat.splits)
        (metis Suc_diff_Suc Suc_less_eq Suc_le_eq nat.simps(5))+
    moreover have "(k # keys) ! (a - n) = keys ! (a - Suc n)" if "Suc n \<le> a"
      using that by (simp add: nth_Cons')
    moreover have "pk_ID ((k # keys) ! (a - n)) = i \<Longrightarrow> n \<le> a \<Longrightarrow> Suc n \<le> a"
      using False by (cases "a = n") auto
    ultimately show ?thesis using Cons.IH [of "Suc n"] False by auto
  qed
qed auto

lemma find_from_None: "find_from i n keys = None \<longleftrightarrow> i \<notin> pk_ID ` set keys"
  by (induction keys arbitrary: n) auto

lemma find_key_Some:
  assumes "find_key i m = Some a"
  shows "a < length (m_keys m)" "pk_ID (m_keys m ! a) = i"
  using assms find_from_Some [of i 0 "m_keys m" a] by (simp_all add: find_key_def)

lemma find_key_None: "find_key i m = None \<longleftrightarrow> i \<notin> pk_ID ` set (m_keys m)"
  by (simp add: find_key_def find_from_None)

lemma find_key_nth:
  "distinct (map pk_ID (m_keys m)) \<Longrightarrow> a < length (m_keys m) \<Longrightarrow>
   find_key (pk_ID (m_keys m ! a)) m = Some a"
proof -
  assume d: "distinct (map pk_ID (m_keys m))" "a < length (m_keys m)"
  have "find_key (pk_ID (m_keys m ! a)) m \<noteq> None" using d(2) by (simp add: find_key_None)
  then obtain b where b: "find_key (pk_ID (m_keys m ! a)) m = Some b" by blast
  from find_key_Some [OF b] d have "b = a" by (metis length_map nth_eq_iff_index_eq nth_map)
  with b show ?thesis by simp
qed

section \<open>A key asked for by its id\<close>

text \<open>
  C4. A key drawn by id is that key or nothing: an id that is not in the pool is \<open>ErrNotFound\<close>, a
  key whose tier is outside the caller's scope or does not cover the feature is
  \<open>ErrOutOfScope\<close>, one that is not available or out of rate or usage is \<open>ErrExhausted\<close>, and
  every other answer is the key itself; no other key is ever handed out in its place, and no
  other key changes.
\<close>

theorem KeyByID_outcome:
  "case KeyByID clk i f al m of (m', r) \<Rightarrow>
     (case find_key i m of
        None \<Rightarrow> r = Inl ErrNotFound \<and> m' = m
      | Some a \<Rightarrow> (let k = m_keys m ! a in
          pk_ID k = i \<and> (\<forall>b. b \<noteq> a \<longrightarrow> m_keys m' ! b = m_keys m ! b) \<and> m_next m' = m_next m \<and>
          r = (if \<not> in_scope al (pk_TierID k) \<or> \<not> HasFeature f k then Inl ErrOutOfScope
               else if \<not> Available (clk 0) k \<or> \<not> serves (clk 1) (clk 2) f k then Inl ErrExhausted
               else Inr (served_of k))))"
proof (cases "find_key i m")
  case None
  then show ?thesis by (simp add: KeyByID_def)
next
  case (Some a)
  note a = find_key_Some [OF Some]
  obtain m2 r2 where t: "try_key (clk 1) (clk 2) f a m = (m2, r2)" by fastforce
  note fields = try_key_fields [of "clk 1" "clk 2" f a m, unfolded t]
  show ?thesis
    using a fields
    by (auto simp: KeyByID_def Some t [unfolded One_nat_def] Let_def offered_def split: option.split)
qed

end
