(* ===== verification/Schema.thy ===== *)
theory Schema
  imports Db_Types "HOL-Library.Char_ord" "HOL-Library.List_Lexorder" "HOL-Library.Product_Lexorder"
begin

text \<open>
  The tables of \<open>migrations/001_init.sql\<close> and \<open>002_budgets.sql\<close> with their constraints, and the
  way the methods of \<open>PostgresAdapter\<close> talk to them: one statement at a time or in a
  transaction. The server is the program that runs the SQL text of the sources; what it does
  with a statement is a function on the tables, written out from the text. Whether a call
  reaches it is not up to the program: \<open>pg_faults\<close> lists, for the calls to come, the ones that
  fail and with which message. A failed call changes nothing; an answer that is lost after the
  server has acted is outside the model, as are text values the encoding of the database
  refuses. Text is ordered as by the collation \<open>C\<close>.
\<close>

section \<open>Tables\<close>

record key_row =
  kr_id :: string
  kr_name :: string
  kr_key_value :: string
  kr_tier_id :: string
  kr_is_active :: bool
  kr_expires_at :: "time option"
  kr_usage_limit :: "int option"
  kr_usage_count :: int
  kr_usage_window_seconds :: "int option"
  kr_usage_window_start :: "time option"
  kr_exhausted_until :: "time option"
  kr_metadata_json :: string
  kr_created_at :: time
  kr_budget_amount :: "f64 option"
  kr_budget_unit :: "string option"
  kr_budget_reset_day :: "int option"
  kr_spent :: f64
  kr_spent_period_start :: "time option"

record usage_row =
  ur_id :: string
  ur_key_id :: string
  ur_consumer_id :: "string option"
  ur_feature :: string
  ur_created_at :: time

record pg =
  pg_tiers :: "Tier list"
  pg_tier_features :: "TierFeature list"
  pg_keys :: "key_row list"
  pg_key_secrets :: "KeySecret list"
  pg_consumers :: "Consumer list"
  pg_consumer_scopes :: "(string \<times> string) list"
  pg_usage_events :: "usage_row list"
  pg_spend_events :: "SpendEvent list"
  pg_now :: time
  pg_faults :: "string option list"

definition empty_pg :: pg where
  "empty_pg = \<lparr>pg_tiers = [], pg_tier_features = [], pg_keys = [], pg_key_secrets = [],
     pg_consumers = [], pg_consumer_scopes = [], pg_usage_events = [], pg_spend_events = [],
     pg_now = 0, pg_faults = []\<rparr>"

definition uniqueViolation :: string where "uniqueViolation = ''23505''"
definition foreignKeyViolation :: string where "foreignKeyViolation = ''23503''"
definition outOfRange :: string where "outOfRange = ''22003''"

text \<open>A nullable INTEGER column.\<close>

fun int32_null :: "int option \<Rightarrow> bool" where
  "int32_null None = True"
| "int32_null (Some n) = int32 n"

text \<open>A foreign key: every value of the referring column is a value of the referred one.\<close>

definition refers :: "('a \<Rightarrow> string) \<Rightarrow> 'a list \<Rightarrow> ('b \<Rightarrow> string) \<Rightarrow> 'b list \<Rightarrow> bool" where
  "refers f xs g ys \<longleftrightarrow> set (map f xs) \<subseteq> set (map g ys)"

lemma refers_add [simp]:
  "refers f (xs @ [x]) g ys \<longleftrightarrow> refers f xs g ys \<and> f x \<in> g ` set ys"
  "refers f xs g ys \<Longrightarrow> refers f xs g (ys @ zs)"
  by (auto simp: refers_def)

lemma set_map_filter_ne: "set (map g (filter (\<lambda>y. g y \<noteq> i) ys)) = set (map g ys) - {i}"
  by auto

lemma refers_filter [simp]:
  "refers f xs g ys \<Longrightarrow> refers f (filter P xs) g ys"
  "refers f xs g ys \<Longrightarrow> refers f (filter (\<lambda>x. f x \<noteq> i) xs) g (filter (\<lambda>y. g y \<noteq> i) ys)"
  unfolding refers_def set_map_filter_ne by auto

lemma refers_filter_unused:
  "refers f xs g ys \<Longrightarrow> i \<notin> f ` set xs \<Longrightarrow> refers f xs g (filter (\<lambda>y. g y \<noteq> i) ys)"
  unfolding refers_def set_map_filter_ne by auto

lemma refers_cong:
  "map g ys = map g' ys' \<Longrightarrow> map f xs = map f xs' \<Longrightarrow> refers f xs g ys = refers f xs' g' ys'"
  by (simp only: refers_def)

text \<open>
  The constraints: primary keys, UNIQUE columns, foreign keys, and the range of INTEGER.
\<close>

definition tiers_ok :: "pg \<Rightarrow> bool" where
  "tiers_ok s \<longleftrightarrow> distinct (map tier_ID (pg_tiers s)) \<and> distinct (map tier_Name (pg_tiers s))
     \<and> distinct (map (\<lambda>f. (tf_TierID f, tf_Feature f)) (pg_tier_features s))
     \<and> refers tf_TierID (pg_tier_features s) tier_ID (pg_tiers s)
     \<and> (\<forall>f\<in>set (pg_tier_features s). int32 (tf_RateLimit f) \<and> int32 (tf_WindowSeconds f))"

definition key_row_ok :: "key_row \<Rightarrow> bool" where
  "key_row_ok r \<longleftrightarrow> int32_null (kr_usage_limit r) \<and> int32 (kr_usage_count r)
     \<and> int32_null (kr_usage_window_seconds r) \<and> int32_null (kr_budget_reset_day r)"

definition keys_ok :: "pg \<Rightarrow> bool" where
  "keys_ok s \<longleftrightarrow> distinct (map kr_id (pg_keys s))
     \<and> refers kr_tier_id (pg_keys s) tier_ID (pg_tiers s)
     \<and> (\<forall>r\<in>set (pg_keys s). key_row_ok r)
     \<and> distinct (map (\<lambda>x. (ks_KeyID x, ks_Name x)) (pg_key_secrets s))
     \<and> refers ks_KeyID (pg_key_secrets s) kr_id (pg_keys s)"

definition consumers_ok :: "pg \<Rightarrow> bool" where
  "consumers_ok s \<longleftrightarrow> distinct (map c_ID (pg_consumers s)) \<and> distinct (map c_Name (pg_consumers s))
     \<and> distinct (map c_TokenHash (pg_consumers s)) \<and> distinct (pg_consumer_scopes s)
     \<and> refers fst (pg_consumer_scopes s) c_ID (pg_consumers s)
     \<and> refers snd (pg_consumer_scopes s) tier_ID (pg_tiers s)"

definition events_ok :: "pg \<Rightarrow> bool" where
  "events_ok s \<longleftrightarrow> distinct (map ur_id (pg_usage_events s))
     \<and> distinct (map se_ID (pg_spend_events s)) \<and> distinct (map se_RequestID (pg_spend_events s))"

definition schema_ok :: "pg \<Rightarrow> bool" where
  "schema_ok s \<longleftrightarrow> tiers_ok s \<and> keys_ok s \<and> consumers_ok s \<and> events_ok s"

lemmas schema_defs = schema_ok_def tiers_ok_def keys_ok_def consumers_ok_def events_ok_def

section \<open>Calls, statements and transactions\<close>

type_synonym 'a stmt = "pg \<Rightarrow> dberr + pg \<times> 'a"
type_synonym 'a dbop = "pg \<Rightarrow> pg \<times> (dberr + 'a)"

definition call :: "pg \<Rightarrow> pg \<times> dberr option" where
  "call s = (s\<lparr>pg_faults := tl (pg_faults s)\<rparr>,
     (case pg_faults s of Some msg # _ \<Rightarrow> Some (ErrOther msg) | _ \<Rightarrow> None))"

text \<open>\<open>Exec\<close>, \<open>Query\<close> and \<open>QueryRow\<close>: one statement, atomic by itself.\<close>

definition exec :: "'a stmt \<Rightarrow> 'a dbop" where
  "exec stmt s =
     (case call s of
        (s, Some err) \<Rightarrow> (s, Inl err)
      | (s, None) \<Rightarrow> (case stmt s of Inl err \<Rightarrow> (s, Inl err) | Inr (s', a) \<Rightarrow> (s', Inr a)))"

definition dreturn :: "'a \<Rightarrow> 'a dbop" where "dreturn a s = (s, Inr a)"
definition draise :: "dberr \<Rightarrow> 'a dbop" where "draise err s = (s, Inl err)"

definition dbind :: "'a dbop \<Rightarrow> ('a \<Rightarrow> 'b dbop) \<Rightarrow> 'b dbop" where
  "dbind op f s = (case op s of (s', Inl err) \<Rightarrow> (s', Inl err) | (s', Inr a) \<Rightarrow> f a s')"

definition dmap_err :: "(dberr \<Rightarrow> dberr) \<Rightarrow> 'a dbop \<Rightarrow> 'a dbop" where
  "dmap_err g op s = (case op s of (s', Inl err) \<Rightarrow> (s', Inl (g err)) | (s', Inr a) \<Rightarrow> (s', Inr a))"

text \<open>A loop that executes one statement per element and returns at the first error.\<close>

fun each :: "('a \<Rightarrow> unit dbop) \<Rightarrow> 'a list \<Rightarrow> unit dbop" where
  "each f [] = dreturn ()"
| "each f (x # xs) = dbind (f x) (\<lambda>_. each f xs)"

text \<open>
  \<open>Begin\<close>, the body with \<open>defer tx.Rollback\<close>, and \<open>Commit\<close>: the tables change when the commit
  succeeds, and not at all on any way out before it.
\<close>

definition rollback :: "pg \<Rightarrow> pg \<Rightarrow> pg" where
  "rollback s0 s = s0\<lparr>pg_faults := pg_faults s\<rparr>"

definition transaction :: "'a dbop \<Rightarrow> 'a dbop" where
  "transaction body s =
     (case call s of
        (s0, Some err) \<Rightarrow> (s0, Inl err)
      | (s0, None) \<Rightarrow>
          (case body s0 of
             (s1, Inl err) \<Rightarrow> (rollback s0 s1, Inl err)
           | (s1, Inr a) \<Rightarrow>
               (case call s1 of
                  (s2, Some err) \<Rightarrow> (rollback s0 s2, Inl err)
                | (s2, None) \<Rightarrow> (s2, Inr a))))"

section \<open>What statements and transactions preserve\<close>

text \<open>The tables, without the calls to come.\<close>

definition tables :: "pg \<Rightarrow> pg" where "tables s = s\<lparr>pg_faults := []\<rparr>"

lemma tables_faults [simp]: "tables (s\<lparr>pg_faults := fs\<rparr>) = tables s"
  by (simp add: tables_def)

lemma call_tables [simp]: "tables (fst (call s)) = tables s"
  by (simp add: call_def)

lemma rollback_tables [simp]: "tables (rollback s0 s) = tables s0"
  by (simp add: rollback_def)

lemma tables_fields:
  assumes "tables s' = tables s"
  shows "pg_tiers s' = pg_tiers s" "pg_tier_features s' = pg_tier_features s"
    "pg_keys s' = pg_keys s" "pg_key_secrets s' = pg_key_secrets s"
    "pg_consumers s' = pg_consumers s" "pg_consumer_scopes s' = pg_consumer_scopes s"
    "pg_usage_events s' = pg_usage_events s" "pg_spend_events s' = pg_spend_events s"
    "pg_now s' = pg_now s"
  using assms by (cases s; cases s'; simp add: tables_def)+

lemma schema_ok_tables: "tables s' = tables s \<Longrightarrow> schema_ok s' = schema_ok s"
  using tables_fields [of s' s] by (simp add: schema_defs)

text \<open>An operation that reports an error has left the tables alone.\<close>

definition atomic :: "'a dbop \<Rightarrow> bool" where
  "atomic op \<longleftrightarrow> (\<forall>s s' err. op s = (s', Inl err) \<longrightarrow> tables s' = tables s)"

text \<open>An operation keeps a property of the tables.\<close>

definition keeps :: "(pg \<Rightarrow> bool) \<Rightarrow> 'a dbop \<Rightarrow> bool" where
  "keeps P op \<longleftrightarrow> (\<forall>s s' r. P s \<longrightarrow> op s = (s', r) \<longrightarrow> P s')"

definition faultless :: "(pg \<Rightarrow> bool) \<Rightarrow> bool" where
  "faultless P \<longleftrightarrow> (\<forall>s fs. P (s\<lparr>pg_faults := fs\<rparr>) = P s)"

lemma faultless_schema_ok [simp]: "faultless schema_ok"
  by (simp add: faultless_def schema_defs)

text \<open>When no failure is to come, calls are plain function calls.\<close>

lemma no_faults: "pg_faults s = [] \<Longrightarrow> s\<lparr>pg_faults := []\<rparr> = s"
  by (cases s) simp

lemma call_ok: "pg_faults s = [] \<Longrightarrow> call s = (s, None)"
  by (simp add: call_def no_faults)

lemma exec_ok:
  "pg_faults s = [] \<Longrightarrow>
   exec stmt s = (case stmt s of Inl err \<Rightarrow> (s, Inl err) | Inr (s', a) \<Rightarrow> (s', Inr a))"
  by (simp add: exec_def call_ok)

lemma exec_cases:
  assumes "exec stmt s = (s', r)"
  obtains (failed) err fs where "r = Inl err" "s' = s\<lparr>pg_faults := fs\<rparr>"
  | (finished) fs a where "stmt (s\<lparr>pg_faults := fs\<rparr>) = Inr (s', a)" "r = Inr a"
  using assms by (auto simp: exec_def call_def split: option.splits sum.splits list.splits prod.splits)

lemma transaction_cases:
  assumes "transaction body s = (s', r)"
  obtains (failed) err fs where "r = Inl err" "s' = s\<lparr>pg_faults := fs\<rparr>"
  | (finished) fs s1 a fs' where "body (s\<lparr>pg_faults := fs\<rparr>) = (s1, Inr a)"
      "s' = s1\<lparr>pg_faults := fs'\<rparr>" "r = Inr a"
proof (cases "snd (call s)")
  case (Some err)
  with assms failed show ?thesis by (auto simp: transaction_def call_def)
next
  case None
  obtain s1 b where b: "body (s\<lparr>pg_faults := tl (pg_faults s)\<rparr>) = (s1, b)" by fastforce
  show ?thesis
  proof (cases b)
    case (Inl err)
    with assms None b have "r = Inl err" "s' = s\<lparr>pg_faults := pg_faults s1\<rparr>"
      by (simp_all add: transaction_def call_def rollback_def)
    then show ?thesis by (rule failed)
  next
    case (Inr a)
    show ?thesis
    proof (cases "snd (call s1)")
      case (Some err)
      with assms None b Inr have "r = Inl err" "s' = s\<lparr>pg_faults := tl (pg_faults s1)\<rparr>"
        by (simp_all add: transaction_def call_def rollback_def)
      then show ?thesis by (rule failed)
    next
      case None
      with assms \<open>snd (call s) = None\<close> b Inr
      have "r = Inr a" "s' = s1\<lparr>pg_faults := tl (pg_faults s1)\<rparr>"
        by (simp_all add: transaction_def call_def)
      with b Inr show ?thesis using finished by blast
    qed
  qed
qed

lemma atomic_exec [intro]: "atomic (exec stmt)"
  unfolding atomic_def by (auto elim: exec_cases)

lemma atomic_transaction [intro]: "atomic (transaction body)"
  unfolding atomic_def by (auto elim: transaction_cases)

lemma atomic_dmap_err [intro]: "atomic op \<Longrightarrow> atomic (dmap_err g op)"
  unfolding atomic_def dmap_err_def by (fastforce split: prod.splits sum.splits)

lemma keeps_dreturn [simp, intro]: "keeps P (dreturn a)"
  by (simp add: keeps_def dreturn_def)

lemma keeps_draise [simp, intro]: "keeps P (draise err)"
  by (simp add: keeps_def draise_def)

lemma keeps_dbind [intro]:
  assumes "keeps P op" "\<And>a. keeps P (f a)"
  shows "keeps P (dbind op f)"
proof -
  have "P s'" if "P s" "dbind op f s = (s', r)" for s s' r
  proof -
    obtain s1 b where b: "op s = (s1, b)" by fastforce
    with assms(1) that(1) have "P s1" by (auto simp: keeps_def)
    with assms(2) b that(2) show ?thesis by (cases b) (auto simp: dbind_def keeps_def)
  qed
  then show ?thesis by (auto simp: keeps_def)
qed

lemma keeps_dmap_err [intro]: "keeps P op \<Longrightarrow> keeps P (dmap_err g op)"
  unfolding keeps_def dmap_err_def by (fastforce split: prod.splits sum.splits)

lemma keeps_each [intro]: "(\<And>x. keeps P (f x)) \<Longrightarrow> keeps P (each f xs)"
  by (induction xs) (auto intro: keeps_dbind)

lemma keeps_exec:
  assumes "faultless P" "\<And>s s' a. P s \<Longrightarrow> stmt s = Inr (s', a) \<Longrightarrow> P s'"
  shows "keeps P (exec stmt)"
  using assms unfolding keeps_def faultless_def by (metis exec_cases)

lemma keeps_transaction:
  assumes "faultless P" "keeps P body"
  shows "keeps P (transaction body)"
  using assms unfolding keeps_def faultless_def by (metis transaction_cases)

end
