(* ===== verification/Postgres.thy ===== *)
theory Postgres
  imports Schema
begin

text \<open>
  The methods of \<open>PostgresAdapter\<close> (\<open>internal/db/postgres.go\<close>, \<open>postgres_keys.go\<close>,
  \<open>postgres_budget.go\<close>, \<open>postgres_consumers.go\<close>), each with its SQL statements as functions on
  the tables of theory \<open>Schema\<close>. \<open>json.Marshal\<close> and \<open>json.Unmarshal\<close> of the metadata column
  are the two functions of a \<open>json_codec\<close>.
\<close>

section \<open>Tiers\<close>

definition duplicate :: "dberr \<Rightarrow> dberr" where
  "duplicate err = (if err = PgError uniqueViolation then ErrDuplicate else err)"

definition insert_tier :: "Tier \<Rightarrow> unit stmt" where
  "insert_tier t s =
     (if tier_ID t \<in> tier_ID ` set (pg_tiers s) \<or> tier_Name t \<in> tier_Name ` set (pg_tiers s)
      then Inl (PgError uniqueViolation)
      else Inr (s\<lparr>pg_tiers := pg_tiers s @ [t\<lparr>tier_CreatedAt := timestamptz (pg_now s)\<rparr>]\<rparr>, ()))"

definition insert_tier_feature :: "string \<Rightarrow> TierFeature \<Rightarrow> unit stmt" where
  "insert_tier_feature tierID f s =
     (if \<not> int32 (tf_RateLimit f) \<or> \<not> int32 (tf_WindowSeconds f) then Inl (PgError outOfRange)
      else if (tierID, tf_Feature f) \<in> (\<lambda>g. (tf_TierID g, tf_Feature g)) ` set (pg_tier_features s)
        then Inl (PgError uniqueViolation)
      else if tierID \<notin> tier_ID ` set (pg_tiers s) then Inl (PgError foreignKeyViolation)
      else Inr (s\<lparr>pg_tier_features := pg_tier_features s @ [f\<lparr>tf_TierID := tierID\<rparr>]\<rparr>, ()))"

definition insertTierFeatures :: "string \<Rightarrow> TierFeature list \<Rightarrow> unit dbop" where
  "insertTierFeatures tierID features = each (\<lambda>f. exec (insert_tier_feature tierID f)) features"

definition CreateTier :: "Tier \<Rightarrow> TierFeature list \<Rightarrow> unit dbop" where
  "CreateTier tier features =
     transaction
       (dbind (dmap_err duplicate (exec (insert_tier tier)))
         (\<lambda>_. insertTierFeatures (tier_ID tier) features))"

definition GetTierByName :: "string \<Rightarrow> Tier option dbop" where
  "GetTierByName name = exec (\<lambda>s. Inr (s, find (\<lambda>t. tier_Name t = name) (pg_tiers s)))"

definition GetAllTiers :: "Tier list dbop" where
  "GetAllTiers = exec (\<lambda>s. Inr (s, sort_key tier_Name (pg_tiers s)))"

definition UpdateTierDescription :: "string \<Rightarrow> string \<Rightarrow> unit dbop" where
  "UpdateTierDescription tierID description =
     exec (\<lambda>s. Inr (s\<lparr>pg_tiers := map (\<lambda>t. if tier_ID t = tierID
       then t\<lparr>tier_Description := description\<rparr> else t) (pg_tiers s)\<rparr>, ()))"

definition SetTierFeatures :: "string \<Rightarrow> TierFeature list \<Rightarrow> unit dbop" where
  "SetTierFeatures tierID features =
     transaction
       (dbind (exec (\<lambda>s. Inr (s\<lparr>pg_tier_features :=
                  filter (\<lambda>f. tf_TierID f \<noteq> tierID) (pg_tier_features s)\<rparr>, ())))
         (\<lambda>_. insertTierFeatures tierID features))"

text \<open>
  The delete cascades to the tier's features and to the scopes on it, and fails while a key
  refers to the tier. The answer is the number of rows deleted.
\<close>

definition delete_tier :: "string \<Rightarrow> nat stmt" where
  "delete_tier tierID s =
     (if tierID \<in> kr_tier_id ` set (pg_keys s) \<and> tierID \<in> tier_ID ` set (pg_tiers s)
      then Inl (PgError foreignKeyViolation)
      else if tierID \<notin> tier_ID ` set (pg_tiers s) then Inr (s, 0)
      else Inr (s\<lparr>pg_tiers := filter (\<lambda>t. tier_ID t \<noteq> tierID) (pg_tiers s),
                  pg_tier_features := filter (\<lambda>f. tf_TierID f \<noteq> tierID) (pg_tier_features s),
                  pg_consumer_scopes := filter (\<lambda>x. snd x \<noteq> tierID) (pg_consumer_scopes s)\<rparr>,
                length (filter (\<lambda>t. tier_ID t = tierID) (pg_tiers s))))"

definition DeleteTier :: "string \<Rightarrow> unit dbop" where
  "DeleteTier tierID =
     dbind (dmap_err (\<lambda>err. if err = PgError foreignKeyViolation then ErrTierInUse else err)
         (exec (delete_tier tierID)))
       (\<lambda>rows. if rows = 0 then draise ErrTierNotFound else dreturn ())"

definition TierFeaturesByTier :: "(string, TierFeature list) gomap dbop" where
  "TierFeaturesByTier =
     exec (\<lambda>s. Inr (s, group_rows tf_TierID
       (sort_key (\<lambda>f. (tf_TierID f, tf_Feature f)) (pg_tier_features s))))"

section \<open>Keys\<close>

record json_codec =
  json_Marshal :: "metadata \<Rightarrow> string option"
  json_Unmarshal :: "string \<Rightarrow> metadata option option"

definition budgetColumns :: "Budget option \<Rightarrow> f64 option \<times> string option \<times> int option" where
  "budgetColumns b = (case b of None \<Rightarrow> (None, None, None)
     | Some b \<Rightarrow> (Some (b_Amount b), Some (b_Unit b), b_ResetDay b))"

definition budgetOf :: "f64 option \<Rightarrow> string option \<Rightarrow> int option \<Rightarrow> Budget option" where
  "budgetOf amount unit resetDay =
     (case (amount, unit) of
        (Some a, Some u) \<Rightarrow> Some \<lparr>b_Amount = a, b_Unit = u, b_ResetDay = resetDay\<rparr>
      | _ \<Rightarrow> None)"

text \<open>The columns the statement does not name have their defaults: not exhausted, nothing spent.\<close>

definition row_of_key :: "string \<Rightarrow> time \<Rightarrow> Key \<Rightarrow> key_row" where
  "row_of_key metadata now k =
     (case budgetColumns (key_Budget k) of (amount, unit, resetDay) \<Rightarrow>
        \<lparr>kr_id = key_ID k, kr_name = key_Name k, kr_key_value = key_KeyValue k,
         kr_tier_id = key_TierID k, kr_is_active = key_IsActive k,
         kr_expires_at = map_option timestamptz (key_ExpiresAt k),
         kr_usage_limit = key_UsageLimit k, kr_usage_count = key_UsageCount k,
         kr_usage_window_seconds = key_UsageWindowSeconds k,
         kr_usage_window_start = map_option timestamptz (key_UsageWindowStart k),
         kr_exhausted_until = None, kr_metadata_json = metadata,
         kr_created_at = timestamptz now, kr_budget_amount = amount, kr_budget_unit = unit,
         kr_budget_reset_day = resetDay, kr_spent = 0, kr_spent_period_start = None\<rparr>)"

definition insert_key :: "string \<Rightarrow> Key \<Rightarrow> unit stmt" where
  "insert_key metadata k s =
     (let r = row_of_key metadata (pg_now s) k in
      if \<not> key_row_ok r then Inl (PgError outOfRange)
      else if kr_id r \<in> kr_id ` set (pg_keys s) then Inl (PgError uniqueViolation)
      else if kr_tier_id r \<notin> tier_ID ` set (pg_tiers s) then Inl (PgError foreignKeyViolation)
      else Inr (s\<lparr>pg_keys := pg_keys s @ [r]\<rparr>, ()))"

definition insert_secret :: "string \<Rightarrow> KeySecret \<Rightarrow> unit stmt" where
  "insert_secret keyID x s =
     (if (keyID, ks_Name x) \<in> (\<lambda>y. (ks_KeyID y, ks_Name y)) ` set (pg_key_secrets s)
      then Inl (PgError uniqueViolation)
      else if keyID \<notin> kr_id ` set (pg_keys s) then Inl (PgError foreignKeyViolation)
      else Inr (s\<lparr>pg_key_secrets := pg_key_secrets s @ [x\<lparr>ks_KeyID := keyID\<rparr>]\<rparr>, ()))"

definition CreateKey :: "json_codec \<Rightarrow> Key \<Rightarrow> KeySecret list \<Rightarrow> unit dbop" where
  "CreateKey codec key secrets =
     (case json_Marshal codec (key_Metadata key) of
        None \<Rightarrow> draise (ErrOther ''json'')
      | Some metadata \<Rightarrow>
          transaction
            (dbind (exec (insert_key metadata key))
              (\<lambda>_. each (\<lambda>x. exec (insert_secret (key_ID key) x)) secrets)))"

definition key_of_row :: "json_codec \<Rightarrow> key_row \<Rightarrow> dberr + Key" where
  "key_of_row codec r =
     (let metadata = (if kr_metadata_json r = [] then ''{}'' else kr_metadata_json r) in
      case json_Unmarshal codec metadata of
        None \<Rightarrow> Inl (ErrOther (''failed to parse metadata_json for key '' @ kr_id r))
      | Some decoded \<Rightarrow>
          Inr \<lparr>key_ID = kr_id r, key_Name = kr_name r, key_KeyValue = kr_key_value r,
            key_TierID = kr_tier_id r, key_IsActive = kr_is_active r,
            key_ExpiresAt = kr_expires_at r, key_UsageLimit = kr_usage_limit r,
            key_UsageCount = kr_usage_count r, key_UsageWindowSeconds = kr_usage_window_seconds r,
            key_UsageWindowStart = kr_usage_window_start r,
            key_ExhaustedUntil = kr_exhausted_until r,
            key_Budget = budgetOf (kr_budget_amount r) (kr_budget_unit r) (kr_budget_reset_day r),
            key_Spent = kr_spent r, key_SpentPeriodStart = kr_spent_period_start r,
            key_Metadata = (case decoded of None \<Rightarrow> [] | Some m \<Rightarrow> m),
            key_CreatedAt = kr_created_at r\<rparr>)"

fun keys_of_rows :: "json_codec \<Rightarrow> key_row list \<Rightarrow> dberr + Key list" where
  "keys_of_rows codec [] = Inr []"
| "keys_of_rows codec (r # rs) =
     ebind (key_of_row codec r) (\<lambda>k. ebind (keys_of_rows codec rs) (\<lambda>ks. Inr (k # ks)))"

definition GetAllKeys :: "json_codec \<Rightarrow> Key list dbop" where
  "GetAllKeys codec =
     dbind (exec (\<lambda>s. Inr (s, sort_key kr_created_at (pg_keys s))))
       (\<lambda>rows. case keys_of_rows codec rows of Inl err \<Rightarrow> draise err | Inr ks \<Rightarrow> dreturn ks)"

definition delete_key :: "string \<Rightarrow> nat stmt" where
  "delete_key keyID s =
     Inr (s\<lparr>pg_keys := filter (\<lambda>r. kr_id r \<noteq> keyID) (pg_keys s),
            pg_key_secrets := filter (\<lambda>x. ks_KeyID x \<noteq> keyID) (pg_key_secrets s)\<rparr>,
          length (filter (\<lambda>r. kr_id r = keyID) (pg_keys s)))"

definition DeleteKey :: "string \<Rightarrow> unit dbop" where
  "DeleteKey keyID =
     transaction
       (dbind (exec (\<lambda>s. Inr (s\<lparr>pg_key_secrets :=
                  filter (\<lambda>x. ks_KeyID x \<noteq> keyID) (pg_key_secrets s)\<rparr>, ())))
         (\<lambda>_. dbind (exec (delete_key keyID))
           (\<lambda>rows. if rows = 0 then draise (ErrOther ''key not found'') else dreturn ())))"

text \<open>An UPDATE of the rows with a given id; it fails when a value leaves its column's range.\<close>

definition update_keys :: "string \<Rightarrow> (key_row \<Rightarrow> key_row) \<Rightarrow> nat stmt" where
  "update_keys keyID g s =
     (if \<exists>r\<in>set (pg_keys s). kr_id r = keyID \<and> \<not> key_row_ok (g r) then Inl (PgError outOfRange)
      else Inr (s\<lparr>pg_keys := map (\<lambda>r. if kr_id r = keyID then g r else r) (pg_keys s)\<rparr>,
                length (filter (\<lambda>r. kr_id r = keyID) (pg_keys s))))"

definition ignore_rows :: "nat dbop \<Rightarrow> unit dbop" where
  "ignore_rows op = dbind op (\<lambda>_. dreturn ())"

definition AddUsage :: "string \<Rightarrow> int \<Rightarrow> unit dbop" where
  "AddUsage keyID n =
     ignore_rows (exec (\<lambda>s. if int32 n
       then update_keys keyID (\<lambda>r. r\<lparr>kr_usage_count := kr_usage_count r + n\<rparr>) s
       else Inl (PgError outOfRange)))"

definition ResetUsageWindow :: "string \<Rightarrow> time \<Rightarrow> int \<Rightarrow> unit dbop" where
  "ResetUsageWindow keyID start count =
     ignore_rows (exec (\<lambda>s. if int32 count
       then update_keys keyID (\<lambda>r. r\<lparr>kr_usage_count := count,
              kr_usage_window_start := Some (timestamptz start)\<rparr>) s
       else Inl (PgError outOfRange)))"

definition SetKeyExhausted :: "string \<Rightarrow> time \<Rightarrow> unit dbop" where
  "SetKeyExhausted keyID until =
     ignore_rows (exec (update_keys keyID
       (\<lambda>r. r\<lparr>kr_exhausted_until := Some (timestamptz until)\<rparr>)))"

definition KeySecretsByKey :: "(string, KeySecret list) gomap dbop" where
  "KeySecretsByKey =
     exec (\<lambda>s. Inr (s, group_rows ks_KeyID
       (sort_key (\<lambda>x. (ks_KeyID x, ks_Name x)) (pg_key_secrets s))))"

section \<open>Budgets\<close>

text \<open>
  \<open>IS NOT DISTINCT FROM\<close> is equality on nullable values. The unit compared is the one the row
  had before the update.
\<close>

definition UpdateKeyBudget :: "string \<Rightarrow> Budget option \<Rightarrow> unit dbop" where
  "UpdateKeyBudget keyID budget =
     (case budgetColumns budget of (amount, unit, resetDay) \<Rightarrow>
        dbind (exec (\<lambda>s. if int32_null resetDay
            then update_keys keyID (\<lambda>r. r\<lparr>
              kr_budget_amount := amount, kr_budget_unit := unit, kr_budget_reset_day := resetDay,
              kr_spent := (if kr_budget_unit r = unit then kr_spent r else 0),
              kr_spent_period_start :=
                (if kr_budget_unit r = unit then kr_spent_period_start r else None)\<rparr>) s
            else Inl (PgError outOfRange)))
          (\<lambda>rows. if rows = 0 then draise ErrKeyNotFound else dreturn ()))"

text \<open>\<open>ON CONFLICT (request_id) DO NOTHING\<close> answers a known request id, not a known id.\<close>

definition insert_spend :: "SpendEvent \<Rightarrow> nat stmt" where
  "insert_spend e s =
     (if se_RequestID e \<in> se_RequestID ` set (pg_spend_events s) then Inr (s, 0)
      else if se_ID e \<in> se_ID ` set (pg_spend_events s) then Inl (PgError uniqueViolation)
      else Inr (s\<lparr>pg_spend_events :=
          pg_spend_events s @ [e\<lparr>se_CreatedAt := timestamptz (se_CreatedAt e)\<rparr>]\<rparr>, 1))"

definition select_spent :: "string \<Rightarrow> time \<Rightarrow> f64 stmt" where
  "select_spent keyID start s =
     (case find (\<lambda>r. kr_id r = keyID) (pg_keys s) of
        None \<Rightarrow> Inl ErrKeyNotFound
      | Some r \<Rightarrow> Inr (s, if kr_spent_period_start r = Some (timestamptz start) then kr_spent r else 0))"

text \<open>The addition of two finite numbers that overflows is an error of the server.\<close>

definition new_spent :: "time \<Rightarrow> f64 \<Rightarrow> key_row \<Rightarrow> f64" where
  "new_spent start amount r =
     (if kr_spent_period_start r = Some (timestamptz start) then kr_spent r + amount else amount)"

definition spent_overflow :: "time \<Rightarrow> f64 \<Rightarrow> key_row \<Rightarrow> bool" where
  "spent_overflow start amount r \<longleftrightarrow>
     (case (kr_spent r, amount, new_spent start amount r) of (Fin _, Fin _, FInf _) \<Rightarrow> True | _ \<Rightarrow> False)"

definition update_spent :: "string \<Rightarrow> time \<Rightarrow> f64 \<Rightarrow> f64 stmt" where
  "update_spent keyID start amount s =
     (case find (\<lambda>r. kr_id r = keyID) (pg_keys s) of
        None \<Rightarrow> Inl ErrKeyNotFound
      | Some r \<Rightarrow>
          (if spent_overflow start amount r then Inl (PgError outOfRange)
           else Inr (s\<lparr>pg_keys := map (\<lambda>r. if kr_id r = keyID
                  then r\<lparr>kr_spent := new_spent start amount r,
                         kr_spent_period_start := Some (timestamptz start)\<rparr>
                  else r) (pg_keys s)\<rparr>,
                new_spent start amount r)))"

definition RecordSpend_db :: "SpendEvent \<Rightarrow> time option \<Rightarrow> (f64 \<times> bool) dbop" where
  "RecordSpend_db e start =
     transaction
       (dbind (exec (insert_spend e))
         (\<lambda>rows. let dup = (rows = 0) in
            case start of
              None \<Rightarrow> dreturn (0, dup)
            | Some t \<Rightarrow>
                dbind (if dup then exec (select_spent (se_KeyID e) t)
                       else exec (update_spent (se_KeyID e) t (se_Amount e)))
                  (\<lambda>spent. dreturn (spent, dup))))"

section \<open>Consumers\<close>

definition insert_consumer :: "Consumer \<Rightarrow> unit stmt" where
  "insert_consumer c s =
     (if c_ID c \<in> c_ID ` set (pg_consumers s) \<or> c_Name c \<in> c_Name ` set (pg_consumers s)
         \<or> c_TokenHash c \<in> c_TokenHash ` set (pg_consumers s)
      then Inl (PgError uniqueViolation)
      else Inr (s\<lparr>pg_consumers := pg_consumers s @ [c\<lparr>c_CreatedAt := timestamptz (pg_now s)\<rparr>]\<rparr>, ()))"

definition CreateConsumer :: "Consumer \<Rightarrow> unit dbop" where
  "CreateConsumer consumer = dmap_err duplicate (exec (insert_consumer consumer))"

definition GetConsumerByTokenHash :: "string \<Rightarrow> Consumer option dbop" where
  "GetConsumerByTokenHash tokenHash =
     exec (\<lambda>s. Inr (s, find (\<lambda>c. c_TokenHash c = tokenHash \<and> c_IsActive c) (pg_consumers s)))"

definition GetAllConsumers :: "Consumer list dbop" where
  "GetAllConsumers = exec (\<lambda>s. Inr (s, sort_key c_CreatedAt (pg_consumers s)))"

definition delete_consumer :: "string \<Rightarrow> nat stmt" where
  "delete_consumer consumerID s =
     Inr (s\<lparr>pg_consumers := filter (\<lambda>c. c_ID c \<noteq> consumerID) (pg_consumers s),
            pg_consumer_scopes := filter (\<lambda>x. fst x \<noteq> consumerID) (pg_consumer_scopes s)\<rparr>,
          length (filter (\<lambda>c. c_ID c = consumerID) (pg_consumers s)))"

definition DeleteConsumer :: "string \<Rightarrow> unit dbop" where
  "DeleteConsumer consumerID =
     transaction
       (dbind (exec (\<lambda>s. Inr (s\<lparr>pg_consumer_scopes :=
                  filter (\<lambda>x. fst x \<noteq> consumerID) (pg_consumer_scopes s)\<rparr>, ())))
         (\<lambda>_. dbind (exec (delete_consumer consumerID))
           (\<lambda>rows. if rows = 0 then draise (ErrOther ''consumer not found'') else dreturn ())))"

definition AddConsumerScope :: "string \<Rightarrow> string \<Rightarrow> unit dbop" where
  "AddConsumerScope consumerID tierID =
     exec (\<lambda>s. if (consumerID, tierID) \<in> set (pg_consumer_scopes s) then Inr (s, ())
       else if consumerID \<notin> c_ID ` set (pg_consumers s) \<or> tierID \<notin> tier_ID ` set (pg_tiers s)
         then Inl (PgError foreignKeyViolation)
       else Inr (s\<lparr>pg_consumer_scopes := pg_consumer_scopes s @ [(consumerID, tierID)]\<rparr>, ()))"

definition GetConsumerScopes :: "string \<Rightarrow> string list dbop" where
  "GetConsumerScopes consumerID =
     exec (\<lambda>s. Inr (s, map snd (filter (\<lambda>x. fst x = consumerID) (pg_consumer_scopes s))))"

definition ConsumerScopesByConsumer :: "(string, string list) gomap dbop" where
  "ConsumerScopesByConsumer =
     exec (\<lambda>s. Inr (s, map (\<lambda>(c, xs). (c, map snd xs))
       (group_rows fst (sort_key (\<lambda>x. x) (pg_consumer_scopes s)))))"

section \<open>The audit log\<close>

text \<open>No consumer is NULL in the table and the empty string in the program.\<close>

definition row_of_event :: "UsageEvent \<Rightarrow> usage_row" where
  "row_of_event e =
     \<lparr>ur_id = ue_ID e, ur_key_id = ue_KeyID e,
      ur_consumer_id = (if ue_ConsumerID e \<noteq> [] then Some (ue_ConsumerID e) else None),
      ur_feature = ue_Feature e, ur_created_at = timestamptz (ue_CreatedAt e)\<rparr>"

definition event_of_row :: "usage_row \<Rightarrow> UsageEvent" where
  "event_of_row r =
     \<lparr>ue_ID = ur_id r, ue_KeyID = ur_key_id r,
      ue_ConsumerID = (case ur_consumer_id r of None \<Rightarrow> [] | Some c \<Rightarrow> c),
      ue_Feature = ur_feature r, ue_CreatedAt = ur_created_at r\<rparr>"

definition copy_events :: "UsageEvent list \<Rightarrow> unit stmt" where
  "copy_events events s =
     (let rows = pg_usage_events s @ map row_of_event events in
      if distinct (map ur_id rows) then Inr (s\<lparr>pg_usage_events := rows\<rparr>, ())
      else Inl (PgError uniqueViolation))"

definition RecordUsageEvents :: "UsageEvent list \<Rightarrow> unit dbop" where
  "RecordUsageEvents events = (if events = [] then dreturn () else exec (copy_events events))"

definition invalidLimit :: string where "invalidLimit = ''2201W''"

definition ListUsageEvents :: "int \<Rightarrow> UsageEvent list dbop" where
  "ListUsageEvents limit =
     exec (\<lambda>s. if limit < 0 then Inl (PgError invalidLimit)
       else Inr (s, map event_of_row (take (nat limit)
         (rev (sort_key (\<lambda>r. (ur_created_at r, ur_id r)) (pg_usage_events s))))))"

end
