(* ===== verification/Writeback_Steps.thy ===== *)
theory Writeback_Steps
  imports Writeback
begin

text \<open>
  The writer with its goroutines interleaved. Producers (\<open>Served\<close>, \<open>WindowReset\<close>, \<open>Event\<close>)
  run at any moment, also between two store calls of a flush; one flusher takes the queue and
  sends it entry by entry. A store call that succeeds takes effect at its step; one that fails
  requeues its entry. The abstract specification is a ledger that is written at once, and the
  steps refine it: the store, what is being sent and what is queued always add up to the ledger.
\<close>

section \<open>The concrete steps\<close>

datatype flusher = Idle | Sending "(string \<times> usage) list" "UsageEvent list"

datatype wlabel = LServed string | LReset string time | LEvent UsageEvent | LInternal

type_synonym 's wstate = "Writer \<times> flusher \<times> 's"

inductive wb_step :: "'s WStore \<Rightarrow> 's wstate \<Rightarrow> wlabel \<Rightarrow> 's wstate \<Rightarrow> bool"
  for st :: "'s WStore" where
  served: "wb_step st (w, f, s) (LServed k) (Served k w, f, s)"
| reset: "wb_step st (w, f, s) (LReset k t) (WindowReset k t w, f, s)"
| event: "wb_step st (w, f, s) (LEvent e) (Event e w, f, s)"
| take: "mset xs = mset (w_usage w) \<Longrightarrow>
    wb_step st (w, Idle, s) LInternal
      (w\<lparr>w_usage := [], w_events := []\<rparr>, Sending xs (w_events w), s)"
| sent: "send_usage st k u s = (s', None) \<Longrightarrow>
    wb_step st (w, Sending ((k, u) # xs) es, s) LInternal (w, Sending xs es, s')"
| failed: "send_usage st k u s = (s', Some e) \<Longrightarrow>
    wb_step st (w, Sending ((k, u) # xs) es, s) LInternal (requeueUsage k u w, Sending xs es, s')"
| finish: "flush_events st es w s = (w', s') \<Longrightarrow>
    wb_step st (w, Sending [] es, s) LInternal (w', Idle, s')"

inductive wb_run :: "'s WStore \<Rightarrow> 's wstate \<Rightarrow> wlabel list \<Rightarrow> 's wstate \<Rightarrow> bool"
  for st :: "'s WStore" where
  run_Nil: "wb_run st c [] c"
| run_Cons: "wb_step st c l c' \<Longrightarrow> wb_run st c' ls c'' \<Longrightarrow> wb_run st c (l # ls) c''"

inductive_simps wb_run_Nil_iff [simp]: "wb_run st c [] c'"
inductive_simps wb_run_Cons_iff: "wb_run st c (l # ls) c'"
inductive_cases wb_step_internal: "wb_step st c LInternal c'"

lemma wb_run_append: "wb_run st c ls c' \<Longrightarrow> wb_run st c' ms c'' \<Longrightarrow> wb_run st c (ls @ ms) c''"
  by (induction rule: wb_run.induct) (auto intro: wb_run.intros)

text \<open>A flush that nobody interrupts is a run of these steps: \<open>Flush\<close> is one of the behaviours.\<close>

lemma flush_usage_run:
  "\<exists>n. wb_run st (w, Sending xs es, s) (replicate n LInternal)
     (fst (flush_usage st xs w s), Sending [] es, snd (flush_usage st xs w s))"
proof (induction st xs w s rule: flush_usage.induct)
  case (1 st w s)
  have "wb_run st (w, Sending [] es, s) (replicate 0 LInternal) (w, Sending [] es, s)" by simp
  then show ?case unfolding flush_usage.simps fst_conv snd_conv by (rule exI)
next
  case (2 st k u rest w s)
  obtain s1 err where e: "send_usage st k u s = (s1, err)" by (cases "send_usage st k u s")
  define w1 where "w1 = (if err = None then w else requeueUsage k u w)"
  have r: "flush_usage st ((k, u) # rest) w s = flush_usage st rest w1 s1"
    using e by (simp add: w1_def split: option.split)
  obtain n where "wb_run st (w1, Sending rest es, s1) (replicate n LInternal)
      (fst (flush_usage st rest w1 s1), Sending [] es, snd (flush_usage st rest w1 s1))"
    using 2 e by (cases err) (auto simp: w1_def)
  moreover have "wb_step st (w, Sending ((k, u) # rest) es, s) LInternal (w1, Sending rest es, s1)"
    using e by (cases err) (auto simp: w1_def intro: wb_step.intros)
  ultimately have "wb_run st (w, Sending ((k, u) # rest) es, s) (replicate (Suc n) LInternal)
      (fst (flush_usage st rest w1 s1), Sending [] es, snd (flush_usage st rest w1 s1))"
    by (simp add: wb_run.run_Cons)
  then show ?case unfolding r by (rule exI)
qed

lemma Flush_is_run:
  assumes "mset (order (w_usage w)) = mset (w_usage w)" "Flush st order w s = (w', s')"
  shows "\<exists>n. wb_run st (w, Idle, s) (replicate n LInternal) (w', Idle, s')"
proof -
  define w1 where "w1 = w\<lparr>w_usage := [], w_events := []\<rparr>"
  obtain w2 s2 where f: "flush_usage st (order (w_usage w)) w1 s = (w2, s2)"
    by (cases "flush_usage st (order (w_usage w)) w1 s")
  have last: "wb_step st (w2, Sending [] (w_events w), s2) LInternal (w', Idle, s')"
    using assms(2) f by (intro wb_step.finish) (simp add: Flush_def Let_def w1_def)
  have first: "wb_step st (w, Idle, s) LInternal (w1, Sending (order (w_usage w)) (w_events w), s)"
    unfolding w1_def using assms(1) by (rule wb_step.take)
  obtain n where "wb_run st (w1, Sending (order (w_usage w)) (w_events w), s)
      (replicate n LInternal) (w2, Sending [] (w_events w), s2)"
    using flush_usage_run [of st w1 "order (w_usage w)" "w_events w" s] f by auto
  with first have "wb_run st (w, Idle, s) (replicate (Suc n) LInternal) (w2, Sending [] (w_events w), s2)"
    by (simp add: wb_run.run_Cons)
  moreover have "wb_run st (w2, Sending [] (w_events w), s2) [LInternal] (w', Idle, s')"
    using last by (auto intro: wb_run.intros)
  ultimately have "wb_run st (w, Idle, s) (replicate (Suc n) LInternal @ [LInternal]) (w', Idle, s')"
    by (rule wb_run_append)
  then have "wb_run st (w, Idle, s) (replicate (Suc (Suc n)) LInternal) (w', Idle, s')"
    by (simp add: replicate_append_same)
  then show ?thesis by (rule exI)
qed

section \<open>The ledger\<close>

record ledger =
  led_usage :: "string \<Rightarrow> counted option"
  led_events :: "UsageEvent list"

fun ledger_step :: "wlabel \<Rightarrow> ledger \<Rightarrow> ledger" where
  "ledger_step (LServed k) L =
     L\<lparr>led_usage := (led_usage L)(k := map_option (\<lambda>c. (fst c + 1, snd c)) (led_usage L k))\<rparr>"
| "ledger_step (LReset k t) L =
     L\<lparr>led_usage := (led_usage L)(k := map_option (\<lambda>c. (1, Some (timestamptz t))) (led_usage L k))\<rparr>"
| "ledger_step (LEvent e) L = L\<lparr>led_events := led_events L @ [e]\<rparr>"
| "ledger_step LInternal L = L"

fun ledger_run :: "wlabel list \<Rightarrow> ledger \<Rightarrow> ledger" where
  "ledger_run [] L = L"
| "ledger_run (l # ls) L = ledger_run ls (ledger_step l L)"

fun flight_usage :: "flusher \<Rightarrow> (string \<times> usage) list" where
  "flight_usage Idle = []"
| "flight_usage (Sending xs es) = xs"

fun flight_events :: "flusher \<Rightarrow> UsageEvent list" where
  "flight_events Idle = []"
| "flight_events (Sending xs es) = es"

context usage_store
begin

text \<open>
  The abstraction relation. Usage adds up exactly; the audit log, the batch in flight and the
  queue are in the order of the ledger and hold nothing else; the queue is the newest part of
  the ledger, and as long as it is not full so are batch and queue together.
\<close>

definition wb_rel :: "'s wstate \<Rightarrow> ledger \<Rightarrow> bool" where
  "wb_rel c L \<longleftrightarrow>
     (case c of (w, f, s) \<Rightarrow>
        wf_map (w_usage w) \<and> distinct (map fst (flight_usage f))
      \<and> led_usage L =
          (\<lambda>k. map_option (\<lambda>c. pending w k (inflight (flight_usage f) k c)) (usage_of s k))
      \<and> subseq (audit_of s @ map stored_event (flight_events f @ w_events w))
          (map stored_event (led_events L))
      \<and> suffix (w_events w) (led_events L)
      \<and> length (w_events w) \<le> w_maxEvents w
      \<and> (length (w_events w) < w_maxEvents w \<longrightarrow> suffix (flight_events f @ w_events w) (led_events L)))"

lemma subseq_newest: "subseq (newest n xs) xs"
  unfolding newest_def by (rule suffix_imp_subseq [OF suffix_drop])

lemma suffix_newest: "suffix xs ys \<Longrightarrow> suffix (newest n xs) ys"
  unfolding newest_def by (rule suffix_order.trans [OF suffix_drop])

lemma suffix_snoc: "suffix xs ys \<Longrightarrow> suffix (xs @ [e]) (ys @ [e])"
  by (simp add: suffix_def)

lemma newest_full: "length ys = n \<Longrightarrow> newest n (xs @ ys) = ys"
  by (simp add: newest_def)

lemma subseq_newest_append: "subseq (a @ q) L \<Longrightarrow> subseq (a @ newest n q) L"
  by (meson list_emb_append_mono subseq_newest subseq_order.order_trans subseq_order.refl)

lemma subseq_snoc: "subseq (a @ q) L \<Longrightarrow> subseq (a @ newest n (q @ [e])) (L @ [e])"
proof -
  assume "subseq (a @ q) L"
  then have "subseq (a @ q @ [e]) (L @ [e])"
    using list_emb_append_mono [OF _ subseq_order.refl [of "[e]"], of "a @ q" L] by simp
  then show ?thesis by (rule subseq_newest_append)
qed

lemma wb_step_event:
  assumes "wb_rel (w, f, s) L"
  shows "wb_rel (Event e w, f, s) (L\<lparr>led_events := led_events L @ [e]\<rparr>)"
proof -
  have "suffix (flight_events f @ newest (w_maxEvents w) (w_events w @ [e])) (led_events L @ [e])"
    if "length (newest (w_maxEvents w) (w_events w @ [e])) < w_maxEvents w"
  proof -
    from that have l: "Suc (length (w_events w)) < w_maxEvents w" by (simp add: length_newest)
    then have "newest (w_maxEvents w) (w_events w @ [e]) = w_events w @ [e]"
      by (simp add: newest_all)
    with assms l show ?thesis
      using suffix_snoc [of "flight_events f @ w_events w" "led_events L" e]
      by (simp add: wb_rel_def)
  qed
  with assms show ?thesis
    using subseq_snoc [of "audit_of s @ map stored_event (flight_events f)"
        "map stored_event (w_events w)" "map stored_event (led_events L)" "w_maxEvents w"
        "stored_event e"] suffix_newest [OF suffix_snoc, of "w_events w" "led_events L"]
    by (simp add: wb_rel_def length_newest newest_map)
qed

lemma wb_step_requeue_events:
  assumes "wb_rel (w, Sending [] es, s) L" "usage_of s' = usage_of s" "audit_of s' = audit_of s"
  shows "wb_rel (keepEvents (es @ w_events w) w, Idle, s') L"
proof -
  have "suffix (newest (w_maxEvents w) (es @ w_events w)) (led_events L)"
  proof (cases "length (w_events w) < w_maxEvents w")
    case True
    with assms(1) show ?thesis by (simp add: wb_rel_def suffix_newest)
  next
    case False
    with assms(1) show ?thesis by (simp add: wb_rel_def newest_full)
  qed
  with assms show ?thesis
    using subseq_newest_append [of "audit_of s" "map stored_event (es @ w_events w)"
        "map stored_event (led_events L)" "w_maxEvents w"]
    by (simp add: wb_rel_def length_newest newest_map)
qed

lemma wb_step_finish:
  assumes "flush_events st es w s = (w', s')" "wb_rel (w, Sending [] es, s) L"
  shows "wb_rel (w', Idle, s') L"
proof (cases "es = []")
  case True
  with assms show ?thesis by (simp add: wb_rel_def flush_events_def)
next
  case False
  obtain s1 err where r: "ws_RecordUsageEvents st es s = (s1, err)"
    by (cases "ws_RecordUsageEvents st es s")
  show ?thesis
  proof (cases err)
    case None
    then have "w' = w" "s' = s1" using assms(1) False r by (auto simp: flush_events_def)
    with assms(2) None r RecordUsageEvents_ok [of es s s1] show ?thesis by (simp add: wb_rel_def)
  next
    case (Some e)
    then have "w' = keepEvents (es @ w_events w) w" "s' = s1"
      using assms(1) False r by (auto simp: flush_events_def)
    with assms(2) Some r RecordUsageEvents_err [of es s s1 e] show ?thesis
      by (simp add: wb_step_requeue_events)
  qed
qed

lemma wb_step_failed:
  assumes "send_usage st k u s = (s', Some e)" "wb_rel (w, Sending ((k, u) # xs) es, s) L"
  shows "wb_rel (requeueUsage k u w, Sending xs es, s') L"
proof -
  have d: "k \<notin> fst ` set xs" "distinct (map fst xs)" using assms(2) by (auto simp: wb_rel_def)
  have "pending (requeueUsage k u w) k' (inflight xs k' c)
      = pending w k' (inflight ((k, u) # xs) k' c)" for k' c
    using d by (cases "k' = k") (simp_all add: pending_requeue inflight_none)
  with assms(2) send_err [OF assms(1)] d show ?thesis by (simp add: wb_rel_def)
qed

lemma wb_step_refines: "wb_step st c l c' \<Longrightarrow> wb_rel c L \<Longrightarrow> wb_rel c' (ledger_step l L)"
proof (induction rule: wb_step.induct)
  case (served w f s k)
  then show ?case
    by (auto simp: wb_rel_def pending_Served fun_eq_iff option.map_comp comp_def)
next
  case (reset w f s k t)
  then show ?case
    by (auto simp: wb_rel_def pending_WindowReset fun_eq_iff option.map_comp comp_def)
next
  case (event w f s e)
  then show ?case by (simp add: wb_step_event)
next
  case (take xs w s)
  then have wf: "wf_map (w_usage w)" by (simp add: wb_rel_def)
  have "inflight xs = pending w" by (intro ext) (rule inflight_taken(1) [OF wf take(1)])
  with take inflight_taken(2) [OF wf take(1)] show ?case by (simp add: wb_rel_def)
next
  case (sent k u s s' w xs es)
  then have "k \<notin> fst ` set xs" by (auto simp: wb_rel_def)
  with sent send_ok [OF sent(1)] show ?case
    by (auto simp: wb_rel_def fun_eq_iff option.map_comp comp_def inflight_none)
next
  case (failed k u s s' e w xs es)
  then show ?case by (simp add: wb_step_failed)
next
  case (finish es w s w' s')
  then show ?case by (simp add: wb_step_finish)
qed

lemma wb_run_refines: "wb_run st c ls c' \<Longrightarrow> wb_rel c L \<Longrightarrow> wb_rel c' (ledger_run ls L)"
  by (induction arbitrary: L rule: wb_run.induct) (auto dest: wb_step_refines)

end

end
