(* ===== verification/Database.thy ===== *)
theory Database
  imports Postgres Writeback_Steps
begin

text \<open>
  What the database layer keeps and promises: the constraints of the schema hold after every
  call, a call that reports an error has changed nothing, and the results of the calls the rest
  of the program relies on.
\<close>

section \<open>Calls that write\<close>

datatype dbcall = CCreateTier Tier "TierFeature list" | CUpdateTierDescription string string
  | CSetTierFeatures string "TierFeature list" | CDeleteTier string
  | CCreateKey Key "KeySecret list" | CDeleteKey string | CAddUsage string int
  | CResetUsageWindow string time int | CSetKeyExhausted string time
  | CUpdateKeyBudget string "Budget option" | CRecordSpend SpendEvent "time option"
  | CCreateConsumer Consumer | CDeleteConsumer string | CAddConsumerScope string string
  | CRecordUsageEvents "UsageEvent list"

definition drop_result :: "'a dbop \<Rightarrow> unit dbop" where
  "drop_result op = dbind op (\<lambda>_. dreturn ())"

fun db_do :: "json_codec \<Rightarrow> dbcall \<Rightarrow> unit dbop" where
  "db_do codec (CCreateTier t fs) = CreateTier t fs"
| "db_do codec (CUpdateTierDescription i d) = UpdateTierDescription i d"
| "db_do codec (CSetTierFeatures i fs) = SetTierFeatures i fs"
| "db_do codec (CDeleteTier i) = DeleteTier i"
| "db_do codec (CCreateKey k xs) = CreateKey codec k xs"
| "db_do codec (CDeleteKey i) = DeleteKey i"
| "db_do codec (CAddUsage i n) = AddUsage i n"
| "db_do codec (CResetUsageWindow i t n) = ResetUsageWindow i t n"
| "db_do codec (CSetKeyExhausted i t) = SetKeyExhausted i t"
| "db_do codec (CUpdateKeyBudget i b) = UpdateKeyBudget i b"
| "db_do codec (CRecordSpend e t) = drop_result (RecordSpend_db e t)"
| "db_do codec (CCreateConsumer c) = CreateConsumer c"
| "db_do codec (CDeleteConsumer i) = DeleteConsumer i"
| "db_do codec (CAddConsumerScope i t) = AddConsumerScope i t"
| "db_do codec (CRecordUsageEvents es) = RecordUsageEvents es"

section \<open>The constraints of the schema\<close>

lemma keeps_schema_exec:
  "(\<And>s s' a. schema_ok s \<Longrightarrow> stmt s = Inr (s', a) \<Longrightarrow> schema_ok s') \<Longrightarrow> keeps schema_ok (exec stmt)"
  by (rule keeps_exec [OF faultless_schema_ok])

lemma keeps_schema_transaction: "keeps schema_ok body \<Longrightarrow> keeps schema_ok (transaction body)"
  by (rule keeps_transaction [OF faultless_schema_ok])

lemmas keeps_schema_intros = keeps_schema_transaction keeps_dbind keeps_dmap_err keeps_each
  keeps_dreturn keeps_draise

lemma schema_insert_tier: "keeps schema_ok (exec (insert_tier t))"
  by (rule keeps_schema_exec) (auto simp: insert_tier_def schema_defs split: if_splits)

lemma schema_insert_tier_feature: "keeps schema_ok (exec (insert_tier_feature i f))"
  by (rule keeps_schema_exec) (auto simp: insert_tier_feature_def schema_defs split: if_splits)

lemma distinct_map_filter: "distinct (map f xs) \<Longrightarrow> distinct (map f (filter P xs))"
  by (induction xs) auto

lemma schema_delete_features:
  "keeps schema_ok (exec (\<lambda>s. Inr (s\<lparr>pg_tier_features := filter P (pg_tier_features s)\<rparr>, ())))"
  by (rule keeps_schema_exec) (auto simp: schema_defs distinct_map_filter)

lemma schema_insert_key: "keeps schema_ok (exec (insert_key metadata k))"
  by (rule keeps_schema_exec) (auto simp: insert_key_def schema_defs Let_def split: if_splits)

lemma schema_insert_secret: "keeps schema_ok (exec (insert_secret i x))"
  by (rule keeps_schema_exec) (auto simp: insert_secret_def schema_defs split: if_splits)

lemma schema_delete_secrets:
  "keeps schema_ok (exec (\<lambda>s. Inr (s\<lparr>pg_key_secrets := filter P (pg_key_secrets s)\<rparr>, ())))"
  by (rule keeps_schema_exec) (auto simp: schema_defs distinct_map_filter)

lemma schema_delete_key: "keeps schema_ok (exec (delete_key i))"
  by (rule keeps_schema_exec) (auto simp: delete_key_def schema_defs distinct_map_filter)

lemma schema_delete_tier: "keeps schema_ok (exec (delete_tier i))"
  by (rule keeps_schema_exec)
    (auto simp: delete_tier_def schema_defs distinct_map_filter refers_filter_unused
      split: if_splits)

text \<open>An update of key rows that leaves their ids and tiers alone.\<close>

lemma map_update_same:
  "(\<And>r. h (g r) = h r) \<Longrightarrow> map h (map (\<lambda>r. if P r then g r else r) rs) = map h rs"
  by (induction rs) auto

lemma schema_ok_keys_cong:
  assumes "schema_ok s" "map kr_id rs = map kr_id (pg_keys s)"
    "map kr_tier_id rs = map kr_tier_id (pg_keys s)" "\<forall>r\<in>set rs. key_row_ok r"
  shows "schema_ok (s\<lparr>pg_keys := rs\<rparr>)"
  using assms refers_cong [OF refl assms(3), of tier_ID "pg_tiers s"]
    refers_cong [OF assms(2) refl, of ks_KeyID "pg_key_secrets s"]
  by (simp add: schema_defs)

lemma schema_update_keys:
  assumes "\<And>r. kr_id (g r) = kr_id r" "\<And>r. kr_tier_id (g r) = kr_tier_id r"
    and "schema_ok s" "update_keys i g s = Inr (s', n)"
  shows "schema_ok s'"
proof -
  have s': "s' = s\<lparr>pg_keys := map (\<lambda>r. if kr_id r = i then g r else r) (pg_keys s)\<rparr>"
    "\<forall>r\<in>set (pg_keys s). kr_id r = i \<longrightarrow> key_row_ok (g r)"
    using assms(4) by (auto simp: update_keys_def split: if_splits)
  have "\<forall>r\<in>set (pg_keys s). key_row_ok r" using assms(3) by (simp add: schema_defs)
  with s'(2) have "\<forall>r\<in>set (map (\<lambda>r. if kr_id r = i then g r else r) (pg_keys s)). key_row_ok r"
    by auto
  then show ?thesis
    unfolding s'(1) by (intro schema_ok_keys_cong [OF assms(3)] map_update_same assms(1,2))
qed

lemma schema_update_spent: "keeps schema_ok (exec (update_spent i t a))"
proof (rule keeps_schema_exec)
  fix s s' x
  define g where "g = (\<lambda>r. r\<lparr>kr_spent := new_spent t a r, kr_spent_period_start := Some (timestamptz t)\<rparr>)"
  assume s: "schema_ok s" "update_spent i t a s = Inr (s', x)"
  then have s': "s' = s\<lparr>pg_keys := map (\<lambda>r. if kr_id r = i then g r else r) (pg_keys s)\<rparr>"
    by (auto simp: update_spent_def g_def split: option.splits if_splits)
  have "\<forall>r\<in>set (pg_keys s). key_row_ok (g r)" using s(1) by (simp add: schema_defs g_def key_row_ok_def)
  moreover have "kr_id (g r) = kr_id r" "kr_tier_id (g r) = kr_tier_id r" for r by (simp_all add: g_def)
  ultimately have "update_keys i g s = Inr (s', length (filter (\<lambda>r. kr_id r = i) (pg_keys s)))"
    by (auto simp: update_keys_def s')
  with \<open>\<And>r. kr_id (g r) = kr_id r\<close> \<open>\<And>r. kr_tier_id (g r) = kr_tier_id r\<close> s(1)
  show "schema_ok s'" by (rule schema_update_keys)
qed

lemma schema_insert_spend: "keeps schema_ok (exec (insert_spend e))"
  by (rule keeps_schema_exec) (auto simp: insert_spend_def schema_defs split: if_splits)

lemma schema_select_spent: "keeps schema_ok (exec (select_spent i t))"
  by (rule keeps_schema_exec) (auto simp: select_spent_def split: option.splits)

lemma schema_RecordSpend: "keeps schema_ok (RecordSpend_db e t)"
  unfolding RecordSpend_db_def Let_def
  by (intro keeps_schema_intros schema_insert_spend)
    (auto split: option.split intro!: keeps_schema_intros schema_update_spent schema_select_spent)

lemma schema_keys_exec:
  assumes "\<And>r. kr_id (g r) = kr_id r" "\<And>r. kr_tier_id (g r) = kr_tier_id r"
  shows "keeps schema_ok (exec (\<lambda>s. if c then update_keys i g s else Inl e))"
    "keeps schema_ok (exec (update_keys i g))"
  by (rule keeps_schema_exec, auto split: if_splits dest: schema_update_keys [OF assms])+

lemma schema_keys:
  "keeps schema_ok (AddUsage i n)" "keeps schema_ok (ResetUsageWindow i t n)"
  "keeps schema_ok (SetKeyExhausted i t)" "keeps schema_ok (UpdateKeyBudget i b)"
  unfolding AddUsage_def ResetUsageWindow_def SetKeyExhausted_def UpdateKeyBudget_def ignore_rows_def
  by (auto split: prod.split intro!: keeps_schema_intros schema_keys_exec)

lemma schema_tiers:
  "keeps schema_ok (CreateTier t fs)" "keeps schema_ok (SetTierFeatures i fs)"
  "keeps schema_ok (DeleteTier i)" "keeps schema_ok (UpdateTierDescription i d)"
proof -
  have ids: "map tier_ID (map (\<lambda>t. if tier_ID t = i then t\<lparr>tier_Description := d\<rparr> else t) ts) = map tier_ID ts"
    "map tier_Name (map (\<lambda>t. if tier_ID t = i then t\<lparr>tier_Description := d\<rparr> else t) ts) = map tier_Name ts"
    for ts by (induction ts) auto
  note refs = refers_cong [OF ids(1) refl]
  show "keeps schema_ok (UpdateTierDescription i d)"
    unfolding UpdateTierDescription_def
    by (rule keeps_schema_exec) (auto simp: schema_defs ids refs simp del: map_map)
qed (unfold CreateTier_def SetTierFeatures_def DeleteTier_def insertTierFeatures_def,
    auto intro!: keeps_schema_intros schema_insert_tier schema_insert_tier_feature
      schema_delete_features schema_delete_tier)

lemma schema_key_rows:
  "keeps schema_ok (CreateKey codec k xs)" "keeps schema_ok (DeleteKey i)"
  unfolding CreateKey_def DeleteKey_def
  by (auto split: option.split intro!: keeps_schema_intros schema_insert_key schema_insert_secret
      schema_delete_secrets schema_delete_key)

lemma schema_delete_scopes:
  "keeps schema_ok (exec (\<lambda>s. Inr (s\<lparr>pg_consumer_scopes := filter P (pg_consumer_scopes s)\<rparr>, ())))"
  by (rule keeps_schema_exec) (auto simp: schema_defs)

lemma schema_delete_consumer: "keeps schema_ok (exec (delete_consumer i))"
  by (rule keeps_schema_exec) (auto simp: delete_consumer_def schema_defs distinct_map_filter)

lemma schema_consumers:
  "keeps schema_ok (CreateConsumer c)" "keeps schema_ok (DeleteConsumer i)"
  "keeps schema_ok (AddConsumerScope i t)" "keeps schema_ok (RecordUsageEvents es)"
proof -
  have "keeps schema_ok (exec (insert_consumer c))"
    by (rule keeps_schema_exec) (auto simp: insert_consumer_def schema_defs split: if_splits)
  then show "keeps schema_ok (CreateConsumer c)" unfolding CreateConsumer_def by (rule keeps_dmap_err)
  show "keeps schema_ok (DeleteConsumer i)"
    unfolding DeleteConsumer_def
    by (auto intro!: keeps_schema_intros schema_delete_scopes schema_delete_consumer)
  show "keeps schema_ok (AddConsumerScope i t)"
    unfolding AddConsumerScope_def
    by (rule keeps_schema_exec) (auto simp: schema_defs split: if_splits)
  have "keeps schema_ok (exec (copy_events es))"
    by (rule keeps_schema_exec) (auto simp: copy_events_def schema_defs Let_def split: if_splits)
  then show "keeps schema_ok (RecordUsageEvents es)"
    by (simp add: RecordUsageEvents_def)
qed

lemma schema_db_do: "keeps schema_ok (db_do codec c)"
  by (cases c) (auto simp: drop_result_def intro: schema_tiers schema_key_rows schema_keys
      schema_consumers schema_RecordSpend keeps_dbind)

section \<open>A failed call has changed nothing\<close>

lemma atomic_ignore_rows: "atomic op \<Longrightarrow> atomic (ignore_rows op)"
  unfolding atomic_def ignore_rows_def dbind_def dreturn_def by (fastforce split: prod.splits sum.splits)

lemma atomic_draise [intro]: "atomic (draise err)"
  by (simp add: atomic_def draise_def)

lemma atomic_dreturn [intro]: "atomic (dreturn a)"
  by (simp add: atomic_def dreturn_def)

text \<open>No row affected is reported as an error, and then there was nothing to change.\<close>

lemma atomic_rows:
  assumes "\<And>s s'. stmt s = Inr (s', 0) \<Longrightarrow> s' = s"
  shows "atomic (dbind (dmap_err h (exec stmt)) (\<lambda>rows. if rows = 0 then draise e else dreturn ()))"
  unfolding atomic_def
proof (intro allI impI)
  fix s s' err
  assume a: "dbind (dmap_err h (exec stmt)) (\<lambda>rows. if rows = 0 then draise e else dreturn ()) s
    = (s', Inl err)"
  obtain s1 b where b: "exec stmt s = (s1, b)" by fastforce
  then show "tables s' = tables s"
  proof (cases rule: exec_cases)
    case (failed err fs)
    with a b show ?thesis by (auto simp: dbind_def dmap_err_def)
  next
    case (finished fs n)
    with a b have "n = 0" "s' = s1" by (auto simp: dbind_def dmap_err_def draise_def dreturn_def split: if_splits)
    with finished assms have "s' = s\<lparr>pg_faults := fs\<rparr>" by metis
    then show ?thesis by simp
  qed
qed

lemma dmap_err_id: "dmap_err (\<lambda>e. e) op = op"
  by (auto simp: dmap_err_def fun_eq_iff split: prod.split sum.split)

lemma update_keys_none:
  assumes "update_keys i g s = Inr (s', 0)"
  shows "s' = s"
proof -
  have "\<forall>r\<in>set (pg_keys s). kr_id r \<noteq> i"
    and s': "s' = s\<lparr>pg_keys := map (\<lambda>r. if kr_id r = i then g r else r) (pg_keys s)\<rparr>"
    using assms by (auto simp: update_keys_def filter_empty_conv split: if_splits)
  then have "map (\<lambda>r. if kr_id r = i then g r else r) (pg_keys s) = pg_keys s"
    by (intro map_idI) simp
  with s' show ?thesis by simp
qed

lemma delete_tier_none: "delete_tier i s = Inr (s', 0) \<Longrightarrow> s' = s"
  by (auto simp: delete_tier_def filter_empty_conv split: if_splits)

lemma atomic_db_do: "atomic (db_do codec c)"
proof (cases c)
  case (CDeleteTier i)
  show ?thesis
    unfolding CDeleteTier db_do.simps DeleteTier_def by (rule atomic_rows) (rule delete_tier_none)
next
  case (CUpdateKeyBudget i b)
  obtain amount u d where b: "budgetColumns b = (amount, u, d)" by (metis prod_cases3)
  note rows = atomic_rows [where h = "\<lambda>e. e", unfolded dmap_err_id]
  from b CUpdateKeyBudget show ?thesis
    by (auto simp: UpdateKeyBudget_def intro!: rows dest: update_keys_none split: if_splits)
next
  case (CRecordSpend e t)
  have "atomic (RecordSpend_db e t)" unfolding RecordSpend_db_def by (rule atomic_transaction)
  with CRecordSpend show ?thesis
    by (simp add: drop_result_def atomic_ignore_rows [unfolded ignore_rows_def]
        atomic_def dbind_def dreturn_def split: prod.splits sum.splits)
qed (auto simp: CreateTier_def UpdateTierDescription_def SetTierFeatures_def CreateKey_def
    DeleteKey_def AddUsage_def ResetUsageWindow_def SetKeyExhausted_def CreateConsumer_def
    DeleteConsumer_def AddConsumerScope_def RecordUsageEvents_def intro: atomic_ignore_rows
    split: option.split)

section \<open>Properties of the calls\<close>

text \<open>
  C29. Every call that writes is all or nothing: one that reports an error, at whichever of its
  statements or at the commit, has left every table as it was.
\<close>

theorem failed_call_changes_nothing:
  assumes "db_do codec c s = (s', Inl err)"
  shows "tables s' = tables s"
  using atomic_db_do [of codec c] assms by (simp add: atomic_def)

definition demo_tier :: Tier where
  "demo_tier = \<lparr>tier_ID = ''t1'', tier_Name = ''basic'', tier_Description = [], tier_CreatedAt = 0\<rparr>"

definition demo_feature :: TierFeature where
  "demo_feature = \<lparr>tf_TierID = [], tf_Feature = ''search'', tf_RateLimit = 2, tf_WindowSeconds = 60\<rparr>"

definition demo_codec :: json_codec where
  "demo_codec = \<lparr>json_Marshal = (\<lambda>m. if m = [] then Some ''{}'' else None),
     json_Unmarshal = (\<lambda>s. if s = ''{}'' then Some (Some []) else None)\<rparr>"

theorem failed_call_changes_nothing_witness:
  "tables (fst (db_do demo_codec (CCreateTier demo_tier [demo_feature, demo_feature]) empty_pg))
     = tables empty_pg"
proof -
  have "snd (db_do demo_codec (CCreateTier demo_tier [demo_feature, demo_feature]) empty_pg)
      = Inl (PgError uniqueViolation)"
    by code_simp
  then show ?thesis by (metis failed_call_changes_nothing prod.collapse)
qed

end
