(* ===== verification/Stored_Keys.thy ===== *)
theory Stored_Keys
  imports Database
begin

text \<open>
  What the pool reads back from the database: the keys in their order of creation, the limits of
  their tiers and their secrets, as they were written.
\<close>

section \<open>Budgets as columns\<close>

lemma budget_roundtrip: "budgetColumns b = (amount, unit, resetDay) \<Longrightarrow> budgetOf amount unit resetDay = b"
  by (cases b) (auto simp: budgetColumns_def budgetOf_def)

section \<open>Reading all keys\<close>

lemma keys_of_rows_mem:
  "keys_of_rows codec rs = Inr ks \<Longrightarrow> r \<in> set rs \<Longrightarrow> \<exists>k\<in>set ks. key_of_row codec r = Inr k"
  by (induction rs arbitrary: ks) (auto simp: ebind_Inr_iff)

lemma keys_of_rows_origin:
  "keys_of_rows codec rs = Inr ks \<Longrightarrow> k \<in> set ks \<Longrightarrow> \<exists>r\<in>set rs. key_of_row codec r = Inr k"
  by (induction rs arbitrary: ks) (auto simp: ebind_Inr_iff)

lemma key_of_row_fields:
  assumes "key_of_row codec r = Inr k"
  shows "key_ID k = kr_id r" "key_TierID k = kr_tier_id r" "key_UsageLimit k = kr_usage_limit r"
    "key_UsageCount k = kr_usage_count r" "key_UsageWindowSeconds k = kr_usage_window_seconds r"
    "key_UsageWindowStart k = kr_usage_window_start r"
  using assms by (auto simp: key_of_row_def Let_def split: option.splits)

lemma keys_of_rows_ids:
  "keys_of_rows codec rs = Inr ks \<Longrightarrow> map key_ID ks = map kr_id rs"
  by (induction rs arbitrary: ks) (auto simp: ebind_Inr_iff key_of_row_fields)

lemma GetAllKeys_cases:
  assumes "GetAllKeys codec s = (s', r)"
  shows "tables s' = tables s"
    "r = Inr ks \<Longrightarrow> keys_of_rows codec (sort_key kr_created_at (pg_keys s)) = Inr ks"
proof -
  obtain s1 b where b: "exec (\<lambda>s. Inr (s, sort_key kr_created_at (pg_keys s))) s = (s1, b)" by fastforce
  have "tables s' = tables s
    \<and> (\<forall>ks. r = Inr ks \<longrightarrow> keys_of_rows codec (sort_key kr_created_at (pg_keys s)) = Inr ks)"
    using b
  proof (cases rule: exec_cases)
    case (failed err fs)
    with assms b show ?thesis by (auto simp: GetAllKeys_def dbind_def)
  next
    case (finished fs rows)
    with assms b show ?thesis
      by (auto simp: GetAllKeys_def dbind_def dreturn_def draise_def split: sum.splits)
  qed
  then show "tables s' = tables s"
    "r = Inr ks \<Longrightarrow> keys_of_rows codec (sort_key kr_created_at (pg_keys s)) = Inr ks" by simp_all
qed

section \<open>What is created is read back\<close>

text \<open>A key as it comes back: times in microseconds, the columns the insert leaves at their defaults.\<close>

definition as_stored :: "time \<Rightarrow> Key \<Rightarrow> Key" where
  "as_stored now k = k\<lparr>key_ExpiresAt := map_option timestamptz (key_ExpiresAt k),
     key_UsageWindowStart := map_option timestamptz (key_UsageWindowStart k),
     key_ExhaustedUntil := None, key_Spent := 0, key_SpentPeriodStart := None,
     key_CreatedAt := timestamptz now\<rparr>"

lemma key_of_row_of_key:
  assumes "json_Unmarshal codec metadata = Some (Some (key_Metadata k))" "metadata \<noteq> []"
  shows "key_of_row codec (row_of_key metadata now k) = Inr (as_stored now k)"
proof -
  obtain amount u d where c: "budgetColumns (key_Budget k) = (amount, u, d)" by (metis prod_cases3)
  show ?thesis
    using assms budget_roundtrip [OF c] c
    by (cases k) (simp add: key_of_row_def row_of_key_def as_stored_def)
qed

lemma each_insert_secret:
  "each (\<lambda>x. exec (insert_secret i x)) xs s = (s', Inr ()) \<Longrightarrow>
   pg_keys s' = pg_keys s
   \<and> pg_key_secrets s' = pg_key_secrets s @ map (\<lambda>x. x\<lparr>ks_KeyID := i\<rparr>) xs"
proof (induction xs arbitrary: s)
  case (Cons x xs)
  obtain s1 b where b: "exec (insert_secret i x) s = (s1, b)" by fastforce
  from b show ?case
  proof (cases rule: exec_cases)
    case (failed err fs)
    with Cons.prems b show ?thesis by (simp add: dbind_def)
  next
    case (finished fs a)
    with Cons.prems b have "each (\<lambda>x. exec (insert_secret i x)) xs s1 = (s', Inr ())"
      by (simp add: dbind_def)
    from Cons.IH [OF this] finished(1) show ?thesis
      by (auto simp: insert_secret_def split: if_splits)
  qed
qed (simp add: dreturn_def)

lemma CreateKey_stored:
  assumes "CreateKey codec k xs s = (s', Inr ())"
  obtains metadata where "json_Marshal codec (key_Metadata k) = Some metadata"
    "pg_keys s' = pg_keys s @ [row_of_key metadata (pg_now s) k]"
    "pg_key_secrets s' = pg_key_secrets s @ map (\<lambda>x. x\<lparr>ks_KeyID := key_ID k\<rparr>) xs"
proof -
  obtain metadata where m: "json_Marshal codec (key_Metadata k) = Some metadata"
    using assms by (auto simp: CreateKey_def draise_def split: option.splits)
  let ?body = "dbind (exec (insert_key metadata k))
      (\<lambda>_. each (\<lambda>x. exec (insert_secret (key_ID k) x)) xs)"
  have "transaction ?body s = (s', Inr ())" using assms m by (simp add: CreateKey_def)
  then show ?thesis
  proof (cases rule: transaction_cases)
    case (finished fs s1 a fs')
    obtain s2 b where b: "exec (insert_key metadata k) (s\<lparr>pg_faults := fs\<rparr>) = (s2, b)" by fastforce
    then show ?thesis
    proof (cases rule: exec_cases)
      case (failed err fs2)
      with finished(1) b show ?thesis by (simp add: dbind_def)
    next
      case ins: (finished fs2 c)
      with finished(1) b have "each (\<lambda>x. exec (insert_secret (key_ID k) x)) xs s2 = (s1, Inr ())"
        by (simp add: dbind_def)
      from each_insert_secret [OF this] ins(1) finished(2) show ?thesis
        by (intro that [OF m]) (auto simp: insert_key_def Let_def split: if_splits)
    qed
  qed simp
qed

text \<open>
  C30. A key that was created comes back when the pool reads the database: every field as it was
  given, budget, limits and metadata included, times cut to microseconds, not exhausted and with
  nothing spent. Its secrets come back under its id, and no other key's do.
\<close>

theorem CreateKey_roundtrip:
  assumes "CreateKey codec k xs s = (s', Inr ())"
    and "\<And>j. json_Marshal codec (key_Metadata k) = Some j \<Longrightarrow>
        json_Unmarshal codec j = Some (Some (key_Metadata k)) \<and> j \<noteq> []"
    and "schema_ok s" "GetAllKeys codec s' = (s1, Inr ks)" "KeySecretsByKey s' = (s2, Inr byKey)"
  shows "as_stored (pg_now s) k \<in> set ks
    \<and> set (rows_of byKey (key_ID k)) = (\<lambda>x. x\<lparr>ks_KeyID := key_ID k\<rparr>) ` set xs"
proof -
  obtain j where j: "json_Marshal codec (key_Metadata k) = Some j"
    "pg_keys s' = pg_keys s @ [row_of_key j (pg_now s) k]"
    "pg_key_secrets s' = pg_key_secrets s @ map (\<lambda>x. x\<lparr>ks_KeyID := key_ID k\<rparr>) xs"
    using assms(1) by (rule CreateKey_stored)
  have "key_of_row codec (row_of_key j (pg_now s) k) = Inr (as_stored (pg_now s) k)"
    using assms(2) [OF j(1)] by (intro key_of_row_of_key) simp_all
  then have "as_stored (pg_now s) k \<in> set ks"
    using keys_of_rows_mem [OF GetAllKeys_cases(2) [OF assms(4) refl], of "row_of_key j (pg_now s) k"] j(2)
    by auto
  moreover have "byKey = group_rows ks_KeyID (sort_key (\<lambda>x. (ks_KeyID x, ks_Name x)) (pg_key_secrets s'))"
    using assms(5) by (auto simp: KeySecretsByKey_def elim: exec_cases)
  moreover have "ks_KeyID x \<noteq> key_ID k" if "x \<in> set (pg_key_secrets s)" for x
  proof
    assume "ks_KeyID x = key_ID k"
    moreover have "refers ks_KeyID (pg_key_secrets s) kr_id (pg_keys s)"
      using assms(3) by (simp add: schema_defs)
    ultimately have "key_ID k \<in> kr_id ` set (pg_keys s)" using that by (force simp: refers_def)
    moreover have "schema_ok s'"
      using schema_key_rows(1) [of codec k xs] assms(1,3) by (auto simp: keeps_def)
    then have "kr_id (row_of_key j (pg_now s) k) \<notin> kr_id ` set (pg_keys s)"
      using j(2) by (simp add: schema_defs)
    moreover have "kr_id (row_of_key j (pg_now s) k) = key_ID k"
      by (simp add: row_of_key_def split: prod.split)
    ultimately show False by simp
  qed
  ultimately show ?thesis using j(3) by (auto simp: rows_of_group_rows)
qed

end
