(* ===== verification/Usage_Ledger.thy ===== *)
theory Usage_Ledger
  imports Database
begin

text \<open>
  The write-back queue over the database: \<open>PostgresAdapter\<close> as the \<open>Store\<close> of the writer. The
  contract \<open>usage_store\<close> is discharged for the methods of theory \<open>Postgres\<close>, and what a flush
  and an interleaved run guarantee is stated over the tables.
\<close>

section \<open>The adapter as the store of the writer\<close>

definition err_of :: "pg \<times> (dberr + unit) \<Rightarrow> pg \<times> dberr option" where
  "err_of x = (fst x, (case snd x of Inl err \<Rightarrow> Some err | Inr _ \<Rightarrow> None))"

definition pg_writer :: "pg WStore" where
  "pg_writer = \<lparr>ws_AddUsage = (\<lambda>k n s. err_of (AddUsage k n s)),
     ws_ResetUsageWindow = (\<lambda>k t n s. err_of (ResetUsageWindow k t n s)),
     ws_RecordUsageEvents = (\<lambda>es s. err_of (RecordUsageEvents es s))\<rparr>"

definition key_row_of :: "pg \<Rightarrow> string \<Rightarrow> key_row option" where
  "key_row_of s k = find (\<lambda>r. kr_id r = k) (pg_keys s)"

definition counted_in :: "key_row \<Rightarrow> counted" where
  "counted_in r = (kr_usage_count r, kr_usage_window_start r)"

definition usage_in :: "pg \<Rightarrow> string \<Rightarrow> counted option" where
  "usage_in s k = map_option counted_in (key_row_of s k)"

definition audit_in :: "pg \<Rightarrow> UsageEvent list" where
  "audit_in s = map event_of_row (pg_usage_events s)"

lemma in_faults [simp]:
  "key_row_of (s\<lparr>pg_faults := fs\<rparr>) = key_row_of s"
  "usage_in (s\<lparr>pg_faults := fs\<rparr>) = usage_in s" "audit_in (s\<lparr>pg_faults := fs\<rparr>) = audit_in s"
  by (simp_all add: key_row_of_def usage_in_def audit_in_def fun_eq_iff)

lemma event_of_row_of_event: "event_of_row (row_of_event e) = stored_event e"
  by (simp add: event_of_row_def row_of_event_def stored_event_def)

lemma find_update:
  "(\<And>r. kr_id (g r) = kr_id r) \<Longrightarrow>
   find (\<lambda>r. kr_id r = k) (map (\<lambda>r. if kr_id r = i then g r else r) rs) =
     map_option (\<lambda>r. if k = i then g r else r) (find (\<lambda>r. kr_id r = k) rs)"
  by (induction rs) auto

lemma update_keys_usage:
  assumes "update_keys i g s = Inr (s', n)" "\<And>r. kr_id (g r) = kr_id r"
    and "\<And>r. counted_in (g r) = h (counted_in r)"
  shows "usage_in s' = (usage_in s)(i := map_option h (usage_in s i))" "audit_in s' = audit_in s"
    "key_row_of s' i = map_option g (key_row_of s i)"
    "k \<noteq> i \<Longrightarrow> key_row_of s' k = key_row_of s k"
proof -
  have s': "s' = s\<lparr>pg_keys := map (\<lambda>r. if kr_id r = i then g r else r) (pg_keys s)\<rparr>"
    using assms(1) by (auto simp: update_keys_def split: if_splits)
  have k: "key_row_of s' k = map_option (\<lambda>r. if k = i then g r else r) (key_row_of s k)" for k
    unfolding s' key_row_of_def by (simp add: find_update assms(2))
  then show "key_row_of s' i = map_option g (key_row_of s i)" by simp
  show "k \<noteq> i \<Longrightarrow> key_row_of s' k = key_row_of s k" by (simp add: k option.map_ident)
  have "usage_in s' k = ((usage_in s)(i := map_option h (usage_in s i))) k" for k
    by (cases "k = i") (simp_all add: usage_in_def k option.map_comp comp_def assms(3) option.map_ident)
  then show "usage_in s' = (usage_in s)(i := map_option h (usage_in s i))" by blast
  show "audit_in s' = audit_in s" by (simp add: s' audit_in_def)
qed

text \<open>The two usage statements: an error leaves the rows alone, success updates the one key.\<close>

lemma usage_call:
  assumes "err_of (ignore_rows (exec (\<lambda>s. if c then update_keys i g s else Inl e)) s) = (s', r)"
    and g: "\<And>r. kr_id (g r) = kr_id r" "\<And>r. counted_in (g r) = h (counted_in r)"
  shows "audit_in s' = audit_in s
    \<and> usage_in s' = (if r = None then (usage_in s)(i := map_option h (usage_in s i)) else usage_in s)"
proof -
  obtain s1 b where b: "exec (\<lambda>s. if c then update_keys i g s else Inl e) s = (s1, b)" by fastforce
  have s1: "s1 = s'" "r = (case b of Inl err \<Rightarrow> Some err | Inr _ \<Rightarrow> None)"
    using assms(1) b by (auto simp: err_of_def ignore_rows_def dbind_def dreturn_def split: sum.splits)
  from b show ?thesis
  proof (cases rule: exec_cases)
    case (failed e fs)
    with s1 show ?thesis by auto
  next
    case (finished fs n)
    then have u: "update_keys i g (s\<lparr>pg_faults := fs\<rparr>) = Inr (s', n)" and "r = None"
      using s1 by (auto split: if_splits)
    with update_keys_usage(1,2) [OF u g] show ?thesis by simp
  qed
qed

lemma AddUsage_call:
  "err_of (AddUsage k n s) = (s', r) \<Longrightarrow> audit_in s' = audit_in s \<and> usage_in s' =
     (if r = None then (usage_in s)(k := map_option (\<lambda>c. (fst c + n, snd c)) (usage_in s k))
      else usage_in s)"
  unfolding AddUsage_def by (erule usage_call) (simp_all add: counted_in_def)

lemma ResetUsageWindow_call:
  "err_of (ResetUsageWindow k t n s) = (s', r) \<Longrightarrow> audit_in s' = audit_in s \<and> usage_in s' =
     (if r = None then (usage_in s)(k := map_option (\<lambda>c. (n, Some (timestamptz t))) (usage_in s k))
      else usage_in s)"
  unfolding ResetUsageWindow_def by (erule usage_call) (simp_all add: counted_in_def)

lemma events_call:
  assumes "err_of (RecordUsageEvents es s) = (s', r)"
  shows "r = None \<Longrightarrow> usage_in s' = usage_in s \<and> audit_in s' = audit_in s @ map stored_event es"
    "r = Some err \<Longrightarrow> usage_in s' = usage_in s \<and> audit_in s' = audit_in s"
proof -
  obtain s1 b where b: "RecordUsageEvents es s = (s1, b)" by fastforce
  have s1: "s1 = s'" "r = (case b of Inl err \<Rightarrow> Some err | Inr _ \<Rightarrow> None)"
    using assms b by (simp_all add: err_of_def)
  have ok: "usage_in s' = usage_in s \<and> audit_in s' = audit_in s @ map stored_event es"
    if "copy_events es (s\<lparr>pg_faults := fs\<rparr>) = Inr (s', a)" for fs a
    using that by (auto simp: copy_events_def Let_def audit_in_def usage_in_def key_row_of_def
        fun_eq_iff event_of_row_of_event split: if_splits)
  show "r = None \<Longrightarrow> usage_in s' = usage_in s \<and> audit_in s' = audit_in s @ map stored_event es"
    "r = Some err \<Longrightarrow> usage_in s' = usage_in s \<and> audit_in s' = audit_in s"
    using b s1 ok
    by (auto simp: RecordUsageEvents_def dreturn_def split: if_splits elim!: exec_cases)
qed

interpretation pg: usage_store pg_writer usage_in audit_in
proof unfold_locales
  fix k :: string and t :: time and n :: int and s s' :: pg and e :: dberr
  show "ws_AddUsage pg_writer k n s = (s', None) \<Longrightarrow>
      usage_in s' = (usage_in s)(k := map_option (\<lambda>c. (fst c + n, snd c)) (usage_in s k))
      \<and> audit_in s' = audit_in s"
    "ws_AddUsage pg_writer k n s = (s', Some e) \<Longrightarrow>
      usage_in s' = usage_in s \<and> audit_in s' = audit_in s"
    by (auto simp: pg_writer_def dest: AddUsage_call)
  show "ws_ResetUsageWindow pg_writer k t n s = (s', None) \<Longrightarrow>
      usage_in s' = (usage_in s)(k := map_option (\<lambda>c. (n, Some (timestamptz t))) (usage_in s k))
      \<and> audit_in s' = audit_in s"
    "ws_ResetUsageWindow pg_writer k t n s = (s', Some e) \<Longrightarrow>
      usage_in s' = usage_in s \<and> audit_in s' = audit_in s"
    by (auto simp: pg_writer_def dest: ResetUsageWindow_call)
next
  fix es :: "UsageEvent list" and s s' :: pg and e :: dberr
  show "ws_RecordUsageEvents pg_writer es s = (s', None) \<Longrightarrow>
      usage_in s' = usage_in s \<and> audit_in s' = audit_in s @ map stored_event es"
    "ws_RecordUsageEvents pg_writer es s = (s', Some e) \<Longrightarrow>
      usage_in s' = usage_in s \<and> audit_in s' = audit_in s"
    by (simp_all add: pg_writer_def events_call)
qed

section \<open>Nothing lost, nothing counted twice\<close>

text \<open>
  C21. Producers, the flusher and failing store calls may interleave in any way: at every moment
  the stored usage of a key, with what is being sent and what is queued on top, is exactly the
  usage it would have if every serve and every window reset had been written at once. Nothing
  is lost and nothing is counted twice. The audit log, the batch in flight and the queue
  together hold events that happened, each once and in order; the queue holds the newest ones
  and never more than its bound.
\<close>

theorem writeback_refines_ledger:
  assumes "wb_run pg_writer (New_Writer, Idle, s0) ls (w, f, s)"
    and "audit_in s0 = map stored_event es0"
    and "L = ledger_run ls \<lparr>led_usage = usage_in s0, led_events = es0\<rparr>"
  shows "map_option (\<lambda>c. pending w k (inflight (flight_usage f) k c)) (usage_in s k) = led_usage L k
    \<and> subseq (audit_in s @ map stored_event (flight_events f @ w_events w))
        (map stored_event (led_events L))
    \<and> suffix (w_events w) (led_events L) \<and> length (w_events w) \<le> w_maxEvents w"
proof -
  have "pg.wb_rel (New_Writer, Idle, s0) \<lparr>led_usage = usage_in s0, led_events = es0\<rparr>"
    using assms(2)
    by (simp add: pg.wb_rel_def New_Writer_def DefaultMaxEvents_def pending_def inflight_Nil
        option.map_ident)
  from pg.wb_run_refines [OF assms(1) this] show ?thesis by (simp add: pg.wb_rel_def assms(3))
qed

section \<open>A flush that succeeds empties the queue\<close>

text \<open>The queued entries fit the columns they are added to.\<close>

definition entries_fit :: "pg \<Rightarrow> (string \<times> usage) list \<Rightarrow> bool" where
  "entries_fit s xs \<longleftrightarrow> (\<forall>(k, u)\<in>set xs. int32 (u_n u) \<and>
     (\<forall>r\<in>set (pg_keys s). kr_id r = k \<longrightarrow> int32 (fst (apply_usage u (counted_in r)))))"

lemma send_fits:
  assumes "pg_faults s = []" "schema_ok s" "int32 (u_n u)"
    and "\<forall>r\<in>set (pg_keys s). kr_id r = k \<longrightarrow> int32 (fst (apply_usage u (counted_in r)))"
  obtains s' where "send_usage pg_writer k u s = (s', None)" "pg_faults s' = []" "schema_ok s'"
    "\<forall>r'\<in>set (pg_keys s'). kr_id r' = k \<or> r' \<in> set (pg_keys s)"
    "pg_usage_events s' = pg_usage_events s"
proof -
  define g where "g = (\<lambda>r :: key_row. case u_reset u of
      None \<Rightarrow> r\<lparr>kr_usage_count := kr_usage_count r + u_n u\<rparr>
    | Some t \<Rightarrow> r\<lparr>kr_usage_count := u_n u, kr_usage_window_start := Some (timestamptz t)\<rparr>)"
  define s' where "s' = s\<lparr>pg_keys := map (\<lambda>r. if kr_id r = k then g r else r) (pg_keys s)\<rparr>"
  have ids: "kr_id (g r) = kr_id r" "kr_tier_id (g r) = kr_tier_id r" for r
    by (simp_all add: g_def split: option.split)
  have "key_row_ok (g r)" if "r \<in> set (pg_keys s)" "kr_id r = k" for r
    using that assms(2,4) by (cases "u_reset u")
      (auto simp: g_def key_row_ok_def schema_defs apply_usage_def counted_in_def)
  then have u: "update_keys k g s = Inr (s', length (filter (\<lambda>r. kr_id r = k) (pg_keys s)))"
    by (auto simp: update_keys_def s'_def)
  have "send_usage pg_writer k u s = (s', None)"
    using u assms(1,3)
    by (cases "u_reset u") (simp_all add: send_usage_def pg_writer_def AddUsage_def
        ResetUsageWindow_def ignore_rows_def dbind_def dreturn_def exec_ok err_of_def g_def)
  moreover have "schema_ok s'" using ids assms(2) u by (rule schema_update_keys)
  ultimately show ?thesis using that assms(1) ids by (auto simp: s'_def)
qed

lemma flush_usage_fits:
  "pg_faults s = [] \<Longrightarrow> schema_ok s \<Longrightarrow> distinct (map fst xs) \<Longrightarrow> entries_fit s xs \<Longrightarrow>
   \<exists>s'. flush_usage pg_writer xs w s = (w, s') \<and> pg_faults s' = []
     \<and> pg_usage_events s' = pg_usage_events s"
proof (induction xs arbitrary: s)
  case (Cons x xs)
  obtain k u where x: "x = (k, u)" by (cases x)
  obtain s1 where s1: "send_usage pg_writer k u s = (s1, None)" "pg_faults s1 = []" "schema_ok s1"
    "\<forall>r'\<in>set (pg_keys s1). kr_id r' = k \<or> r' \<in> set (pg_keys s)"
    "pg_usage_events s1 = pg_usage_events s"
    using send_fits [OF Cons.prems(1,2), of u k] Cons.prems(4) x by (auto simp: entries_fit_def)
  have "k' \<noteq> k" if "(k', v) \<in> set xs" for k' v using Cons.prems(3) x that by force
  then have "entries_fit s1 xs" using Cons.prems(4) s1(4) x by (fastforce simp: entries_fit_def)
  with Cons.IH [OF s1(2,3)] Cons.prems(3) x obtain s'
    where "flush_usage pg_writer xs w s1 = (w, s')" "pg_faults s' = []"
      "pg_usage_events s' = pg_usage_events s1" by auto
  with s1(1,5) x show ?case by simp
qed simp

text \<open>
  C22. When the database answers every call, one flush empties the queue: afterwards the stored
  usage of every key is what the queue said it should be, and the queued events are in the
  audit log, in order.
\<close>

theorem Flush_empties_queue:
  assumes "pg_faults s = []" "schema_ok s" "wf_map (w_usage w)" "entries_fit s (w_usage w)"
    and "distinct (map ur_id (pg_usage_events s) @ map ue_ID (w_events w))"
    and "\<And>xs. mset (order xs) = mset xs"
    and "Flush pg_writer order w s = (w', s')"
  shows "w_usage w' = [] \<and> w_events w' = []
    \<and> usage_in s' k = map_option (pending w k) (usage_in s k)
    \<and> audit_in s' = audit_in s @ map stored_event (w_events w)"
proof -
  define w1 where "w1 = w\<lparr>w_usage := [], w_events := []\<rparr>"
  have "set (order (w_usage w)) = set (w_usage w)" using assms(6) by (metis set_mset_mset)
  then have fit: "entries_fit s (order (w_usage w))" using assms(4) by (simp add: entries_fit_def)
  obtain s2 where s2: "flush_usage pg_writer (order (w_usage w)) w1 s = (w1, s2)" "pg_faults s2 = []"
    "pg_usage_events s2 = pg_usage_events s"
    using flush_usage_fits [OF assms(1,2) inflight_taken(2) [OF assms(3) assms(6)] fit] by blast
  have audit: "audit_in s2 = audit_in s" by (simp add: audit_in_def s2(3))
  have w': "w' = w1 \<and> audit_in s' = audit_in s @ map stored_event (w_events w)"
  proof (cases "w_events w = []")
    case True
    with assms(7) s2 audit show ?thesis by (simp add: Flush_def Let_def flush_events_def w1_def)
  next
    case False
    have "distinct (map ur_id (pg_usage_events s2 @ map row_of_event (w_events w)))"
      using assms(5) s2(3) by (simp add: row_of_event_def comp_def)
    then have "ws_RecordUsageEvents pg_writer (w_events w) s2 =
        (s2\<lparr>pg_usage_events := pg_usage_events s2 @ map row_of_event (w_events w)\<rparr>, None)"
      using False s2(2) by (simp add: pg_writer_def err_of_def RecordUsageEvents_def exec_def
          call_def copy_events_def)
    with assms(7) s2 audit False show ?thesis
      by (auto simp: Flush_def Let_def flush_events_def w1_def audit_in_def event_of_row_of_event)
  qed
  have "map_option (pending w1 k) (usage_in s' k) = map_option (pending w k) (usage_in s k)"
    using pg.Flush_conserves [OF assms(3,6,7)] w' by simp
  with w' show ?thesis by (simp add: w1_def option.map_id0)
qed

end
