(* ===== verification/Pool_Store.thy ===== *)
theory Pool_Store
  imports Pool Stored_Keys Usage_Ledger
begin

text \<open>
  The database as the pool sees it. The locale \<open>pool_store\<close> says what the pool relies on:
  distinct ids and 32-bit windows in what the reads return, and that no call breaks this.
  Inside it every operation of the pool keeps the pool's invariant; the adapter of theory
  \<open>Postgres\<close> discharges it from the constraints of the schema.
\<close>

section \<open>The invariant of the pool\<close>

definition features_fit :: "(string, FeatureLimit) gomap \<Rightarrow> bool" where
  "features_fit fs \<longleftrightarrow> fs \<noteq> [] \<and> wf_map fs \<and> (\<forall>x\<in>set fs. int32 (fl_WindowSeconds (snd x)))"

definition counters_fit :: "(string, rateCounter) gomap \<Rightarrow> bool" where
  "counters_fit rcs \<longleftrightarrow> wf_map rcs \<and> (\<forall>x\<in>set rcs. 0 \<le> rc_count (snd x))"

definition key_fits :: "PoolKey \<Rightarrow> bool" where
  "key_fits k \<longleftrightarrow> features_fit (pk_Features k) \<and> counters_fit (pk_rateCounters k)
     \<and> int32_null (pk_UsageWindowSeconds k)"

definition pool_ok :: "Manager \<Rightarrow> bool" where
  "pool_ok m \<longleftrightarrow> distinct (map pk_ID (m_keys m)) \<and> (\<forall>k\<in>set (m_keys m). key_fits k)
     \<and> wf_map (w_usage (m_usage m))"

lemma set_mput: "wf_map m \<Longrightarrow> set (mput k v m) = insert (k, v) {x \<in> set m. fst x \<noteq> k}"
  by (induction m) (auto simp: wf_map_def image_iff)

lemma counters_fit_mput: "counters_fit m \<Longrightarrow> 0 \<le> rc_count rc \<Longrightarrow> counters_fit (mput f rc m)"
  by (auto simp: counters_fit_def set_mput)

lemma counters_fit_mget: "counters_fit m \<Longrightarrow> mget m f = Some rc \<Longrightarrow> 0 \<le> rc_count rc"
  by (fastforce simp: counters_fit_def dest!: map_of_SomeD)

lemma TryRate_fits:
  assumes "counters_fit (pk_rateCounters k)"
  shows "counters_fit (pk_rateCounters (fst (TryRate t f k)))"
proof (cases "mget (pk_Features k) f")
  case None
  with assms show ?thesis by (simp add: TryRate_def)
next
  case (Some fl)
  define rc0 where "rc0 = (case mget (pk_rateCounters k) f of None \<Rightarrow> zeroCounter | Some rc \<Rightarrow> rc)"
  have "0 \<le> rc_count rc0"
    using counters_fit_mget [OF assms] by (auto simp: rc0_def zeroCounter_def split: option.split)
  then show ?thesis
    using assms by (auto simp: TryRate_def Some Let_def simp flip: rc0_def intro!: counters_fit_mput)
qed

lemma key_fits_gated: "key_fits k \<Longrightarrow> key_fits (gated t1 t2 f k)"
proof -
  assume k: "key_fits k"
  have "counters_fit (pk_rateCounters (gated t1 t2 f k))"
    using k TryRate_fits [of k t1 f] TryConsumeUsage_rate [of t2 "fst (TryRate t1 f k)"]
    by (auto simp: gated_def key_fits_def try_usage_def split: prod.splits)
  with k core_fields [OF core_gated [of t1 t2 f k]] show ?thesis by (simp add: key_fits_def)
qed

lemma key_fits_cong:
  "pk_Features k' = pk_Features k \<Longrightarrow> pk_rateCounters k' = pk_rateCounters k \<Longrightarrow>
   pk_UsageWindowSeconds k' = pk_UsageWindowSeconds k \<Longrightarrow> key_fits k' = key_fits k"
  by (simp add: key_fits_def)

text \<open>One key is replaced by one with the same id that fits.\<close>

lemma map_ID_update: "pk_ID k' = pk_ID (ks ! a) \<Longrightarrow> map pk_ID (ks[a := k']) = map pk_ID ks"
  by (cases "a < length ks") (simp_all add: map_update list_update_same_conv list_update_beyond)

lemma pool_ok_set_key:
  assumes "pool_ok m" "pk_ID k' = pk_ID (m_keys m ! a)" "a < length (m_keys m) \<Longrightarrow> key_fits k'"
  shows "pool_ok (set_key a k' m)"
  using assms map_ID_update [OF assms(2)]
  by (cases "a < length (m_keys m)")
    (auto simp: pool_ok_def list_update_beyond dest!: set_update_subset_insert [THEN subsetD])

lemma pool_ok_usage: "pool_ok m \<Longrightarrow> wf_map (w_usage w) \<Longrightarrow> pool_ok (m\<lparr>m_usage := w\<rparr>)"
  by (simp add: pool_ok_def)

lemma wf_queued: "wf_map (w_usage w) \<Longrightarrow> wf_map (w_usage (queued t k w))"
  by (auto simp: queued_def split: prod.split)

lemma pool_ok_try_key: "pool_ok m \<Longrightarrow> pool_ok (fst (try_key t1 t2 f a m))"
proof -
  assume m: "pool_ok m"
  have "pool_ok (set_key a (gated t1 t2 f (m_keys m ! a)) m)"
    using m core_fields(1) [OF core_gated [of t1 t2 f "m_keys m ! a"]]
    by (intro pool_ok_set_key) (auto simp: pool_ok_def intro: key_fits_gated)
  moreover have "wf_map (w_usage (queued t k (m_usage m)))" for t k
    using m by (simp add: pool_ok_def wf_queued)
  ultimately show ?thesis by (auto simp: try_key_eq intro: pool_ok_usage)
qed

text \<open>Both draws keep what an attempt at one key and the advance of the rotation keep.\<close>

lemma draw_keeps:
  assumes "\<And>m t1 t2 a. P m \<Longrightarrow> P (fst (try_key t1 t2 f a m))" "\<And>m n. P m \<Longrightarrow> P (m\<lparr>m_next := n\<rparr>)" "P m"
  shows "P (fst (GetKeyForFeature clk f al m))" "P (fst (KeyByID clk i f al m))"
proof -
  have "P (fst (draw_loop clk f n av m))" for n av
    using assms(3)
  proof (induction "length av" arbitrary: av m n)
    case (Suc l)
    then have ne: "av \<noteq> []" by auto
    define m1 where "m1 = fst (try_key (clk n) (clk (Suc n)) f (av ! turn m av)
        (m\<lparr>m_next := m_next m + 1\<rparr>))"
    have m1: "P m1" unfolding m1_def by (intro assms(1,2) Suc.prems)
    have "l = length (remove_at (turn m av) av)" using Suc.hyps(2) turn_less [OF ne, of m] by simp
    from Suc.hyps(1) [OF this m1] m1 show ?case by (simp add: draw_loop_step [OF ne m1_def])
  qed simp
  then show "P (fst (GetKeyForFeature clk f al m))"
    by (auto simp: GetKeyForFeature_def split: prod.splits option.splits) (metis fst_conv)+
  show "P (fst (KeyByID clk i f al m))"
    using assms(1) [OF assms(3), of "clk 1" "clk 2"] assms(3)
    by (auto simp: KeyByID_def split: prod.splits option.splits) (metis fst_conv)+
qed

lemma pool_ok_draws:
  "pool_ok m \<Longrightarrow> pool_ok (fst (GetKeyForFeature clk f al m))"
  "pool_ok m \<Longrightarrow> pool_ok (fst (KeyByID clk i f al m))"
proof -
  have advance: "pool_ok m \<Longrightarrow> pool_ok (m\<lparr>m_next := n\<rparr>)" for m n by (simp add: pool_ok_def)
  show "pool_ok m \<Longrightarrow> pool_ok (fst (GetKeyForFeature clk f al m))"
    "pool_ok m \<Longrightarrow> pool_ok (fst (KeyByID clk i f al m))"
    by (rule draw_keeps [OF pool_ok_try_key advance]; assumption)+
qed

section \<open>The contract\<close>

definition row_fits :: "Key \<Rightarrow> bool" where
  "row_fits k \<longleftrightarrow> int32_null (key_UsageWindowSeconds k)"

locale pool_store =
  fixes db :: "'s PStore" and good :: "'s \<Rightarrow> bool"
  assumes GetAllKeys_good: "good s \<Longrightarrow> ps_GetAllKeys db s = (s', r) \<Longrightarrow> good s'"
    and GetAllKeys_rows: "good s \<Longrightarrow> ps_GetAllKeys db s = (s', Inr ks) \<Longrightarrow>
      distinct (map key_ID ks) \<and> (\<forall>k\<in>set ks. row_fits k)"
    and TierFeatures_good: "good s \<Longrightarrow> ps_TierFeaturesByTier db s = (s', r1) \<Longrightarrow> good s'"
    and TierFeatures_rows: "good s \<Longrightarrow> ps_TierFeaturesByTier db s = (s', Inr byTier) \<Longrightarrow>
      \<forall>row\<in>set (rows_of byTier t). int32 (tf_WindowSeconds row)"
    and KeySecrets_good: "good s \<Longrightarrow> ps_KeySecretsByKey db s = (s', r2) \<Longrightarrow> good s'"
    and SetKeyExhausted_good: "good s \<Longrightarrow> good (fst (ps_SetKeyExhausted db i until s))"
    and RecordSpend_good: "good s \<Longrightarrow> good (fst (ps_RecordSpend db e start s))"
begin

lemma featureLimits_fit:
  assumes "\<forall>row\<in>set rows. int32 (tf_WindowSeconds row)" "featureLimits rows \<noteq> []"
  shows "features_fit (featureLimits rows)"
proof -
  define put where "put = (\<lambda>f :: TierFeature. mput (tf_Feature f)
      \<lparr>fl_RateLimit = tf_RateLimit f, fl_WindowSeconds = tf_WindowSeconds f\<rparr>)"
  have "wf_map (fold put rows m) \<and> (\<forall>x\<in>set (fold put rows m). int32 (fl_WindowSeconds (snd x)))"
    if "wf_map m" "\<forall>x\<in>set m. int32 (fl_WindowSeconds (snd x))" for m
    using assms(1) that
  proof (induction rows arbitrary: m)
    case (Cons r rows)
    have "wf_map (put r m)" "\<forall>x\<in>set (put r m). int32 (fl_WindowSeconds (snd x))"
      using Cons.prems by (auto simp: set_mput put_def)
    with Cons.IH [of "put r m"] Cons.prems(1) show ?case by simp
  qed simp
  from this [of "[]"] assms(2) show ?thesis
    by (simp add: features_fit_def featureLimits_def put_def)
qed

lemma existing_key:
  assumes "mget (fold (\<lambda>key. mput (pk_ID key) key) keys m) i = Some k"
  shows "k \<in> set keys \<and> pk_ID k = i \<or> mget m i = Some k"
  using assms by (induction keys arbitrary: m) (fastforce split: if_splits)+

lemma pool_key_fits:
  assumes "pool_key m byTier byKey row = Some k" "pool_ok m" "row_fits row"
    "\<forall>r\<in>set (rows_of byTier (key_TierID row)). int32 (tf_WindowSeconds r)"
  shows "key_fits k" "pk_ID k = key_ID row"
proof -
  obtain k0 where k0: "counters_fit (pk_rateCounters k0)" "featureLimits (rows_of byTier (key_TierID row)) \<noteq> []"
    "k = load row (featureLimits (rows_of byTier (key_TierID row)))
      (openSecrets (m_sealer m) (rows_of byKey (key_ID row))) k0"
  proof (cases "mget (fold (\<lambda>key. mput (pk_ID key) key) (m_keys m) []) (key_ID row)")
    case None
    then show ?thesis
      using assms(1) by (intro that [of "new_PoolKey (key_UsageCount row) (key_UsageWindowStart row)"])
        (auto simp: pool_key_def Let_def new_PoolKey_def counters_fit_def split: if_splits)
  next
    case (Some k0)
    then have "k0 \<in> set (m_keys m)" using existing_key [OF Some] by simp
    with assms(2) have "counters_fit (pk_rateCounters k0)" by (simp add: pool_ok_def key_fits_def)
    then show ?thesis
      using assms(1) Some by (intro that [of k0]) (auto simp: pool_key_def Let_def split: if_splits)
  qed
  with featureLimits_fit [OF assms(4)] assms(3) show "key_fits k" "pk_ID k = key_ID row"
    by (simp_all add: key_fits_def load_def row_fits_def)
qed

lemma map_filter_distinct:
  "(\<And>x y. x \<in> set xs \<Longrightarrow> g x = Some y \<Longrightarrow> h y = h' x) \<Longrightarrow> distinct (map h' xs) \<Longrightarrow>
   distinct (map h (List.map_filter g xs)) \<and> h ` set (List.map_filter g xs) \<subseteq> h' ` set xs"
proof (induction xs)
  case (Cons x xs)
  have IH: "distinct (map h (List.map_filter g xs))" "h ` set (List.map_filter g xs) \<subseteq> h' ` set xs"
    using Cons by simp_all
  show ?case
  proof (cases "g x")
    case (Some y)
    then have "h y = h' x" using Cons.prems(1) by simp
    with IH Cons.prems(2) Some show ?thesis by (auto simp: map_filter_simps)
  qed (use IH in \<open>auto simp: map_filter_simps\<close>)
qed (simp add: map_filter_simps)

lemma map_filter_pool:
  assumes "pool_ok m" "\<forall>row\<in>set rows. row_fits row"
    "\<And>t. \<forall>r\<in>set (rows_of byTier t). int32 (tf_WindowSeconds r)"
  shows "\<forall>k\<in>set (List.map_filter (pool_key m byTier byKey) rows). key_fits k"
    "distinct (map key_ID rows) \<Longrightarrow>
     distinct (map pk_ID (List.map_filter (pool_key m byTier byKey) rows))"
proof -
  have fits: "key_fits k \<and> pk_ID k = key_ID row"
    if "row \<in> set rows" "pool_key m byTier byKey row = Some k" for row k
    using pool_key_fits [OF that(2) assms(1)] assms(2,3) that(1) by blast
  then show "\<forall>k\<in>set (List.map_filter (pool_key m byTier byKey) rows). key_fits k"
    by (auto simp: List.map_filter_def)
  show "distinct (map pk_ID (List.map_filter (pool_key m byTier byKey) rows))"
    if "distinct (map key_ID rows)"
    using map_filter_distinct [of rows "pool_key m byTier byKey" pk_ID key_ID] fits that by blast
qed

lemma ReloadKeys_ok:
  assumes "pool_ok m" "good s" "ReloadKeys db m s = (m', s', err)"
  shows "pool_ok m' \<and> good s'"
proof -
  obtain s1 r1 where c1: "ps_GetAllKeys db s = (s1, r1)" by fastforce
  obtain s2 r2 where c2: "ps_TierFeaturesByTier db s1 = (s2, r2)" by fastforce
  obtain s3 r3 where c3: "ps_KeySecretsByKey db s2 = (s3, r3)" by fastforce
  have g: "good s1" "good s2" "good s3"
    using assms(2) c1 c2 c3 GetAllKeys_good TierFeatures_good KeySecrets_good by blast+
  show ?thesis
  proof (cases "\<exists>rows byTier byKey. r1 = Inr rows \<and> r2 = Inr byTier \<and> r3 = Inr byKey")
    case True
    then obtain rows byTier byKey where r: "r1 = Inr rows" "r2 = Inr byTier" "r3 = Inr byKey" by blast
    have "m' = m\<lparr>m_keys := List.map_filter (pool_key m byTier byKey) rows\<rparr>" "s' = s3"
      using assms(3) c1 c2 c3 r by (simp_all add: ReloadKeys_def)
    moreover have "distinct (map key_ID rows)" "\<forall>row\<in>set rows. row_fits row"
      using GetAllKeys_rows [OF assms(2) c1 [unfolded r]] by simp_all
    moreover have "\<forall>row\<in>set (rows_of byTier t). int32 (tf_WindowSeconds row)" for t
      using TierFeatures_rows [OF g(1) c2 [unfolded r]] by blast
    ultimately show ?thesis
      using map_filter_pool [OF assms(1), of rows byTier byKey] assms(1) g(3)
      by (simp add: pool_ok_def)
  next
    case False
    then have "m' = m" "good s'"
      using assms(3) c1 c2 c3 g by (auto simp: ReloadKeys_def split: sum.splits)
    with assms(1) show ?thesis by simp
  qed
qed

lemma MarkExhausted_ok:
  assumes "pool_ok m" "good s" "MarkExhausted db i until m s = (m', s', b)"
  shows "pool_ok m' \<and> good s'"
proof (cases "find_key i m")
  case (Some a)
  have "pool_ok (set_key a ((m_keys m ! a)\<lparr>pk_ExhaustedUntil := Some until\<rparr>) m)"
    using assms(1) by (intro pool_ok_set_key) (simp_all add: pool_ok_def key_fits_def)
  with Some assms(2,3) SetKeyExhausted_good show ?thesis by (auto simp: MarkExhausted_def)
qed (use assms in \<open>simp add: MarkExhausted_def\<close>)

lemma SetBalance_ok:
  assumes "pool_ok m"
  shows "pool_ok (SetBalance i b m)"
proof (cases "find_key i m")
  case (Some a)
  have "pool_ok (set_key a ((m_keys m ! a)\<lparr>pk_Balance := Some b\<rparr>) m)"
    using assms by (intro pool_ok_set_key) (simp_all add: pool_ok_def key_fits_def)
  with Some show ?thesis by (simp add: SetBalance_def)
qed (use assms in \<open>simp add: SetBalance_def\<close>)

lemma spend_finish_ok: "pool_ok m \<Longrightarrow> pool_ok (fst (spend_finish now i (a, budget, start) (spent, dup) m))"
proof (cases start)
  case (Some t)
  assume m: "pool_ok m"
  have "pool_ok (set_key a (holdSpent spent t (m_keys m ! a)) m)"
    using m by (intro pool_ok_set_key) (simp_all add: pool_ok_def key_fits_def holdSpent_def)
  with Some show ?thesis by (simp add: spend_finish_def)
qed (simp add: spend_finish_def)

lemma RecordSpend_ok:
  assumes "pool_ok m" "good s" "RecordSpend db now e m s = (m', s', r)"
  shows "pool_ok m' \<and> good s'"
proof (cases "spend_begin now e m")
  case (Inr begun)
  obtain s1 c where c: "ps_RecordSpend db e (snd (snd begun)) s = (s1, c)" by fastforce
  have "good s1" using RecordSpend_good [OF assms(2)] c by (metis fst_conv)
  moreover have "s' = s1 \<and> pool_ok m'"
  proof (cases c)
    case (Inl err)
    with assms(1,3) c Inr show ?thesis by (cases err) (auto simp: RecordSpend_def)
  next
    case (Inr counted)
    obtain m1 sp where f: "spend_finish now (se_KeyID e) begun counted m = (m1, sp)" by fastforce
    have "pool_ok m1"
      using spend_finish_ok [OF assms(1), of now "se_KeyID e" "fst begun" "fst (snd begun)"
          "snd (snd begun)" "fst counted" "snd counted"] f by simp
    with assms(3) c Inr f \<open>spend_begin now e m = Inr begun\<close> show ?thesis
      by (auto simp: RecordSpend_def)
  qed
  ultimately show ?thesis by simp
qed (use assms in \<open>simp add: RecordSpend_def\<close>)

end

section \<open>Operations in any order\<close>

datatype mop = ODraw "nat \<Rightarrow> time" string scope | OKeyByID "nat \<Rightarrow> time" string string scope
  | OReload | OExhaust string time | OSpend time SpendEvent | OBalance string Balance

fun pool_do :: "'s PStore \<Rightarrow> mop \<Rightarrow> Manager \<times> 's \<Rightarrow> Manager \<times> 's" where
  "pool_do db (ODraw clk f al) (m, s) = (fst (GetKeyForFeature clk f al m), s)"
| "pool_do db (OKeyByID clk i f al) (m, s) = (fst (KeyByID clk i f al m), s)"
| "pool_do db OReload (m, s) = (case ReloadKeys db m s of (m', s', err) \<Rightarrow> (m', s'))"
| "pool_do db (OExhaust i until) (m, s) = (case MarkExhausted db i until m s of (m', s', b) \<Rightarrow> (m', s'))"
| "pool_do db (OSpend now e) (m, s) = (case RecordSpend db now e m s of (m', s', r) \<Rightarrow> (m', s'))"
| "pool_do db (OBalance i b) (m, s) = (SetBalance i b m, s)"

definition pool_run :: "'s PStore \<Rightarrow> mop list \<Rightarrow> Manager \<times> 's \<Rightarrow> Manager \<times> 's" where
  "pool_run db ops x = fold (pool_do db) ops x"

context pool_store
begin

lemma pool_do_ok:
  assumes "pool_ok m" "good s" "pool_do db op (m, s) = (m', s')"
  shows "pool_ok m' \<and> good s'"
proof (cases op)
  case OReload
  with assms show ?thesis by (auto dest: ReloadKeys_ok split: prod.splits)
next
  case (OExhaust i until)
  with assms show ?thesis by (auto dest: MarkExhausted_ok split: prod.splits)
next
  case (OSpend now e)
  with assms show ?thesis by (auto dest: RecordSpend_ok split: prod.splits)
qed (use assms in \<open>auto simp: pool_ok_draws SetBalance_ok\<close>)

lemma pool_run_ok:
  "pool_ok m \<Longrightarrow> good s \<Longrightarrow> pool_run db ops (m, s) = (m', s') \<Longrightarrow> pool_ok m' \<and> good s'"
proof (induction ops arbitrary: m s)
  case (Cons op ops)
  obtain m1 s1 where d: "pool_do db op (m, s) = (m1, s1)" by fastforce
  have "pool_run db ops (m1, s1) = (m', s')" using Cons.prems(3) d by (simp add: pool_run_def)
  with pool_do_ok [OF Cons.prems(1,2) d] Cons.IH show ?case by blast
qed (simp add: pool_run_def)

lemma NewManager_ok:
  assumes "good s" "wf_map (w_usage usage)" "NewManager db sealer usage s = (s', Inr m)"
  shows "pool_ok m \<and> good s'"
proof -
  have "pool_ok \<lparr>m_keys = [], m_next = 0, m_usage = usage, m_sealer = sealer\<rparr>"
    using assms(2) by (simp add: pool_ok_def)
  with assms(1,3) show ?thesis
    by (auto simp: NewManager_def dest: ReloadKeys_ok split: prod.splits option.splits)
qed

end

section \<open>The adapter as the store of the pool\<close>

definition pg_pool :: "json_codec \<Rightarrow> pg PStore" where
  "pg_pool codec = \<lparr>ps_GetAllKeys = GetAllKeys codec,
     ps_TierFeaturesByTier = TierFeaturesByTier, ps_KeySecretsByKey = KeySecretsByKey,
     ps_SetKeyExhausted = (\<lambda>i until s. err_of (SetKeyExhausted i until s)),
     ps_RecordSpend = RecordSpend_db\<rparr>"

lemma keeps_reads: "(\<And>s. stmt s = Inr (s, g s)) \<Longrightarrow> keeps schema_ok (exec stmt)"
  by (rule keeps_schema_exec) simp

lemma TierFeaturesByTier_rows:
  assumes "TierFeaturesByTier s = (s', Inr byTier)"
  shows "set (rows_of byTier t) = {f \<in> set (pg_tier_features s). tf_TierID f = t}"
proof -
  have "byTier = group_rows tf_TierID
      (sort_key (\<lambda>f. (tf_TierID f, tf_Feature f)) (pg_tier_features s))"
    using assms by (auto simp: TierFeaturesByTier_def elim: exec_cases)
  then show ?thesis by (auto simp: rows_of_group_rows)
qed

interpretation pgp: pool_store "pg_pool codec" schema_ok for codec
proof unfold_locales
  fix s s' :: pg and r
  show "schema_ok s'" if "schema_ok s" "ps_GetAllKeys (pg_pool codec) s = (s', r)" for r
    using that schema_ok_tables [OF GetAllKeys_cases(1)] by (simp add: pg_pool_def)
  show "distinct (map key_ID ks) \<and> (\<forall>k\<in>set ks. row_fits k)"
    if "schema_ok s" "ps_GetAllKeys (pg_pool codec) s = (s', Inr ks)" for ks
  proof -
    have ks: "keys_of_rows codec (sort_key kr_created_at (pg_keys s)) = Inr ks"
      using that(2) GetAllKeys_cases(2) [OF _ refl] by (simp add: pg_pool_def)
    have "distinct (map kr_id (pg_keys s))" "\<forall>r\<in>set (pg_keys s). key_row_ok r"
      using that(1) by (simp_all add: schema_defs)
    moreover from this have "distinct (map kr_id (sort_key kr_created_at (pg_keys s)))"
      by (metis distinct_map distinct_sort set_sort)
    moreover have "row_fits k" if "k \<in> set ks" for k
      using keys_of_rows_origin [OF ks that] key_of_row_fields(5) calculation(2)
      by (auto simp: row_fits_def key_row_ok_def)
    ultimately show ?thesis using keys_of_rows_ids [OF ks] by simp
  qed
  show "schema_ok s'" if "schema_ok s" "ps_TierFeaturesByTier (pg_pool codec) s = (s', r)" for r
    using that keeps_reads [of _ "\<lambda>s. group_rows tf_TierID
      (sort_key (\<lambda>f. (tf_TierID f, tf_Feature f)) (pg_tier_features s))"]
    by (auto simp: pg_pool_def TierFeaturesByTier_def keeps_def)
  show "\<forall>row\<in>set (rows_of byTier t). int32 (tf_WindowSeconds row)"
    if "schema_ok s" "ps_TierFeaturesByTier (pg_pool codec) s = (s', Inr byTier)" for byTier t
    using that TierFeaturesByTier_rows [of s s' byTier t] by (auto simp: pg_pool_def schema_defs)
  show "schema_ok s'" if "schema_ok s" "ps_KeySecretsByKey (pg_pool codec) s = (s', r)" for r
    using that keeps_reads [of _ "\<lambda>s. group_rows ks_KeyID
      (sort_key (\<lambda>x. (ks_KeyID x, ks_Name x)) (pg_key_secrets s))"]
    by (auto simp: pg_pool_def KeySecretsByKey_def keeps_def)
  show "schema_ok (fst (ps_SetKeyExhausted (pg_pool codec) i until s))" if "schema_ok s" for i until
    using that schema_keys(3) [of i until] unfolding keeps_def
    by (auto simp: pg_pool_def err_of_def) (metis prod.collapse)
  show "schema_ok (fst (ps_RecordSpend (pg_pool codec) e start s))" if "schema_ok s" for e start
    using that schema_RecordSpend [of e start] unfolding keeps_def
    by (auto simp: pg_pool_def) (metis prod.collapse)
qed

end
