(* ===== verification/Reload.thy ===== *)
theory Reload
  imports Pool_Store
begin

text \<open>
  \<open>ReloadKeys\<close> over the database: which keys the pool holds afterwards, which of their fields
  come from the tables and which from the pool before, and that a failed reload changes nothing.
\<close>

section \<open>Limits of a tier\<close>

lemma featureLimits_mget:
  "mget (featureLimits rows) f =
     map_option (\<lambda>r. \<lparr>fl_RateLimit = tf_RateLimit r, fl_WindowSeconds = tf_WindowSeconds r\<rparr>)
       (find (\<lambda>r. tf_Feature r = f) (rev rows))"
proof (induction rows rule: rev_induct)
  case (snoc r rows)
  have "featureLimits (rows @ [r]) = mput (tf_Feature r)
      \<lparr>fl_RateLimit = tf_RateLimit r, fl_WindowSeconds = tf_WindowSeconds r\<rparr> (featureLimits rows)"
    by (simp add: featureLimits_def)
  with snoc show ?case by simp
qed (simp add: featureLimits_def)

lemma featureLimits_empty: "featureLimits rows = [] \<longleftrightarrow> rows = []"
  by (cases rows rule: rev_cases) (simp_all add: featureLimits_def)

definition limit_in :: "TierFeature list \<Rightarrow> string \<Rightarrow> string \<Rightarrow> FeatureLimit option" where
  "limit_in tf t f =
     map_option (\<lambda>x. \<lparr>fl_RateLimit = tf_RateLimit x, fl_WindowSeconds = tf_WindowSeconds x\<rparr>)
       (find (\<lambda>x. tf_TierID x = t \<and> tf_Feature x = f) tf)"

lemma featureLimits_limit_in:
  assumes "set rows = {f \<in> set tf. tf_TierID f = t}"
    "distinct (map (\<lambda>f. (tf_TierID f, tf_Feature f)) tf)"
  shows "mget (featureLimits rows) f = limit_in tf t f"
proof -
  have "inj_on (\<lambda>f. (tf_TierID f, tf_Feature f)) (set tf)" using assms(2) by (simp add: distinct_map)
  then have "find (\<lambda>r. tf_Feature r = f) (rev rows) = find (\<lambda>x. tf_TierID x = t \<and> tf_Feature x = f) tf"
    by (intro find_same_member) (auto simp: assms(1) inj_on_def)
  then show ?thesis by (simp add: featureLimits_mget limit_in_def)
qed

section \<open>The secrets of a key\<close>

lemma openSecrets_mget_fold:
  defines "step \<equiv> \<lambda>sealer x secrets. case Open sealer (ks_Value x) of
      Inl err \<Rightarrow> secrets | Inr plain \<Rightarrow> mput (ks_Name x) plain secrets"
  assumes "inj_on ks_Name (set rows)"
  shows "mget (fold (step sealer) rows acc) n =
    (case find (\<lambda>x. ks_Name x = n) rows of
       None \<Rightarrow> mget acc n
     | Some x \<Rightarrow> (case Open sealer (ks_Value x) of Inl e \<Rightarrow> mget acc n | Inr p \<Rightarrow> Some p))"
  using assms(2)
proof (induction rows arbitrary: acc)
  case (Cons x rows)
  have inj: "inj_on ks_Name (set rows)" using Cons.prems by (simp add: inj_on_insert)
  note IH = Cons.IH [OF inj, unfolded step_def]
  show ?case
  proof (cases "ks_Name x = n")
    case True
    have "y = x" if "y \<in> set rows" "ks_Name y = n" for y
      using that True Cons.prems by (auto simp: inj_on_def)
    then have "find (\<lambda>x. ks_Name x = n) rows \<in> {None, Some x}"
      using find_found [of "\<lambda>x. ks_Name x = n" rows] by (cases "find (\<lambda>x. ks_Name x = n) rows") auto
    then show ?thesis using True by (auto simp: IH step_def split: sum.split)
  next
    case False
    then show ?thesis by (auto simp: IH step_def split: sum.split option.split)
  qed
qed simp

text \<open>What the pool serves under the name of a secret.\<close>

definition secret_of :: "Sealer \<Rightarrow> KeySecret list \<Rightarrow> string \<Rightarrow> string \<Rightarrow> string option" where
  "secret_of sealer rows i n =
     (case find (\<lambda>x. ks_KeyID x = i \<and> ks_Name x = n) rows of
        None \<Rightarrow> None
      | Some x \<Rightarrow> (case Open sealer (ks_Value x) of Inl e \<Rightarrow> None | Inr p \<Rightarrow> Some p))"

lemma openSecrets_mget:
  assumes "set rows = {x \<in> set all. ks_KeyID x = i}" "distinct (map (\<lambda>x. (ks_KeyID x, ks_Name x)) all)"
  shows "mget (openSecrets sealer rows) n = secret_of sealer all i n"
proof -
  have all: "inj_on (\<lambda>x. (ks_KeyID x, ks_Name x)) (set all)" using assms(2) by (simp add: distinct_map)
  then have "inj_on ks_Name (set rows)" unfolding assms(1) by (auto simp: inj_on_def)
  moreover have "find (\<lambda>x. ks_Name x = n) rows = find (\<lambda>x. ks_KeyID x = i \<and> ks_Name x = n) all"
    using all by (intro find_same_member) (auto simp: assms(1) inj_on_def)
  ultimately show ?thesis
    by (simp add: openSecrets_def secret_of_def openSecrets_mget_fold split: option.split sum.split)
qed

section \<open>The keys of the pool before\<close>

lemma existing_find:
  assumes "distinct (map pk_ID (m_keys m))"
  shows "mget (fold (\<lambda>key. mput (pk_ID key) key) (m_keys m) []) i
    = map_option (\<lambda>a. m_keys m ! a) (find_key i m)"
proof (cases "mget (fold (\<lambda>key. mput (pk_ID key) key) (m_keys m) []) i")
  case None
  have "mget (fold (\<lambda>key. mput (pk_ID key) key) keys acc) i \<noteq> None"
    if "i \<in> pk_ID ` set keys \<or> mget acc i \<noteq> None" for keys acc
    using that by (induction keys arbitrary: acc) auto
  with None have "i \<notin> pk_ID ` set (m_keys m)" by blast
  with None show ?thesis by (simp add: find_key_None)
next
  case (Some k)
  then have k: "k \<in> set (m_keys m)" "pk_ID k = i" using pgp.existing_key [OF Some] by auto
  then obtain a where a: "a < length (m_keys m)" "m_keys m ! a = k" by (metis in_set_conv_nth)
  with find_key_nth [OF assms a(1)] k Some show ?thesis by simp
qed

lemma reload_tables:
  assumes "ReloadKeys (pg_pool codec) m s = (m', s', err)"
  shows "tables s' = tables s"
proof -
  obtain s1 r1 where c1: "GetAllKeys codec s = (s1, r1)" by fastforce
  obtain s2 r2 where c2: "TierFeaturesByTier s1 = (s2, r2)" by fastforce
  obtain s3 r3 where c3: "KeySecretsByKey s2 = (s3, r3)" by fastforce
  have t1: "tables s1 = tables s" using GetAllKeys_cases(1) [OF c1] .
  have t2: "tables s2 = tables s" using c2 t1 by (auto simp: TierFeaturesByTier_def elim: exec_cases)
  have t3: "tables s3 = tables s" using c3 t2 by (auto simp: KeySecretsByKey_def elim: exec_cases)
  show ?thesis
    using assms c1 c2 c3 t1 t2 t3 by (auto simp: ReloadKeys_def pg_pool_def split: sum.splits)
qed

definition kept_or_new :: "Manager \<Rightarrow> Key \<Rightarrow> PoolKey" where
  "kept_or_new m row =
     (case find_key (key_ID row) m of
        Some a \<Rightarrow> m_keys m ! a
      | None \<Rightarrow> new_PoolKey (key_UsageCount row) (key_UsageWindowStart row))"

lemma pool_key_eq:
  assumes "distinct (map pk_ID (m_keys m))"
  shows "pool_key m byTier byKey row =
    (if rows_of byTier (key_TierID row) = [] then None
     else Some (load row (featureLimits (rows_of byTier (key_TierID row)))
       (openSecrets (m_sealer m) (rows_of byKey (key_ID row))) (kept_or_new m row)))"
  unfolding pool_key_def Let_def existing_find [OF assms] featureLimits_empty kept_or_new_def
  by (cases "find_key (key_ID row) m") simp_all

lemma map_filter_map:
  "List.map_filter (\<lambda>x. if P x then None else Some (g x)) xs = map g (filter (\<lambda>x. \<not> P x) xs)"
  by (induction xs) (auto simp: map_filter_simps)

section \<open>What a reload does\<close>

lemma ReloadKeys_cases:
  assumes "ReloadKeys (pg_pool codec) m s = (m', s', err)" "distinct (map pk_ID (m_keys m))"
  obtains (failed) e where "err = Some e" "m' = m" "tables s' = tables s"
  | (loaded) rows byTier byKey where "err = None" "tables s' = tables s"
      "keys_of_rows codec (sort_key kr_created_at (pg_keys s)) = Inr rows"
      "\<And>t. set (rows_of byTier t) = {f \<in> set (pg_tier_features s). tf_TierID f = t}"
      "\<And>i. set (rows_of byKey i) = {x \<in> set (pg_key_secrets s). ks_KeyID x = i}"
      "m' = m\<lparr>m_keys := map (\<lambda>row. load row (featureLimits (rows_of byTier (key_TierID row)))
         (openSecrets (m_sealer m) (rows_of byKey (key_ID row))) (kept_or_new m row))
         (filter (\<lambda>row. rows_of byTier (key_TierID row) \<noteq> []) rows)\<rparr>"
proof -
  obtain s1 r1 where c1: "GetAllKeys codec s = (s1, r1)" by fastforce
  obtain s2 r2 where c2: "TierFeaturesByTier s1 = (s2, r2)" by fastforce
  obtain s3 r3 where c3: "KeySecretsByKey s2 = (s3, r3)" by fastforce
  have t1: "tables s1 = tables s" using GetAllKeys_cases(1) [OF c1] .
  have t2: "tables s2 = tables s" using c2 t1 by (auto simp: TierFeaturesByTier_def elim: exec_cases)
  have t3: "tables s3 = tables s" using c3 t2 by (auto simp: KeySecretsByKey_def elim: exec_cases)
  show ?thesis
  proof (cases "\<exists>rows byTier byKey. r1 = Inr rows \<and> r2 = Inr byTier \<and> r3 = Inr byKey")
    case True
    then obtain rows byTier byKey where r: "r1 = Inr rows" "r2 = Inr byTier" "r3 = Inr byKey" by blast
    have m': "m' = m\<lparr>m_keys := List.map_filter (pool_key m byTier byKey) rows\<rparr>" "s' = s3" "err = None"
      using assms(1) c1 c2 c3 r by (simp_all add: ReloadKeys_def pg_pool_def)
    have "byKey = group_rows ks_KeyID (sort_key (\<lambda>x. (ks_KeyID x, ks_Name x)) (pg_key_secrets s2))"
      using c3 r(3) by (auto simp: KeySecretsByKey_def elim: exec_cases)
    then have "set (rows_of byKey i) = {x \<in> set (pg_key_secrets s). ks_KeyID x = i}" for i
      using tables_fields(4) [OF t2] by (auto simp: rows_of_group_rows)
    moreover have "set (rows_of byTier t) = {f \<in> set (pg_tier_features s). tf_TierID f = t}" for t
      using TierFeaturesByTier_rows [OF c2 [unfolded r]] tables_fields(2) [OF t1] by simp
    ultimately show ?thesis
      using m' t3 GetAllKeys_cases(2) [OF c1 r(1)]
      by (intro loaded) (simp_all add: pool_key_eq [OF assms(2), abs_def] map_filter_map)
  next
    case False
    then have "m' = m \<and> tables s' = tables s \<and> err \<noteq> None"
      using assms(1) c1 c2 c3 t1 t2 t3 by (auto simp: ReloadKeys_def pg_pool_def split: sum.splits)
    then show ?thesis using failed by blast
  qed
qed

text \<open>
  A pooled key that mirrors its row: every column, the metadata as the codec reads it, the secrets
  as the sealer opens them, and the limits of its tier. The counters are the key's own.
\<close>

definition mirrors :: "json_codec \<Rightarrow> Sealer \<Rightarrow> pg \<Rightarrow> key_row \<Rightarrow> PoolKey \<Rightarrow> bool" where
  "mirrors codec sealer s r k \<longleftrightarrow>
     pk_ID k = kr_id r \<and> pk_Name k = kr_name r \<and> pk_KeyValue k = kr_key_value r
     \<and> pk_TierID k = kr_tier_id r \<and> pk_IsActive k = kr_is_active r \<and> pk_ExpiresAt k = kr_expires_at r
     \<and> pk_ExhaustedUntil k = kr_exhausted_until r \<and> pk_UsageLimit k = kr_usage_limit r
     \<and> pk_UsageWindowSeconds k = kr_usage_window_seconds r
     \<and> pk_Budget k = budgetOf (kr_budget_amount r) (kr_budget_unit r) (kr_budget_reset_day r)
     \<and> pk_Spent k = kr_spent r \<and> pk_SpentPeriodStart k = kr_spent_period_start r
     \<and> (\<exists>decoded. json_Unmarshal codec (if kr_metadata_json r = [] then ''{}'' else kr_metadata_json r) = Some decoded
          \<and> pk_Metadata k = (case decoded of None \<Rightarrow> [] | Some m \<Rightarrow> m))
     \<and> (\<forall>n. mget (pk_Secrets k) n = secret_of sealer (pg_key_secrets s) (kr_id r) n)
     \<and> (\<forall>f. mget (pk_Features k) f = limit_in (pg_tier_features s) (kr_tier_id r) f)"

definition counters_from :: "Manager \<Rightarrow> key_row \<Rightarrow> PoolKey \<Rightarrow> bool" where
  "counters_from m r k \<longleftrightarrow>
     (case find_key (kr_id r) m of
        Some a \<Rightarrow> pk_rateCounters k = pk_rateCounters (m_keys m ! a)
          \<and> pk_UsageCount k = pk_UsageCount (m_keys m ! a)
          \<and> pk_UsageWindowStart k = pk_UsageWindowStart (m_keys m ! a)
          \<and> pk_Balance k = pk_Balance (m_keys m ! a)
      | None \<Rightarrow> pk_rateCounters k = [] \<and> pk_UsageCount k = kr_usage_count r
          \<and> pk_UsageWindowStart k = kr_usage_window_start r \<and> pk_Balance k = None)"

lemma loaded_key:
  assumes "schema_ok s" "key_of_row codec r = Inr row"
    and "\<And>t. set (rows_of byTier t) = {f \<in> set (pg_tier_features s). tf_TierID f = t}"
    and "\<And>i. set (rows_of byKey i) = {x \<in> set (pg_key_secrets s). ks_KeyID x = i}"
    and "k = load row (featureLimits (rows_of byTier (key_TierID row)))
         (openSecrets sealer (rows_of byKey (key_ID row))) (kept_or_new m row)"
  shows "mirrors codec sealer s r k" "counters_from m r k"
proof -
  have d: "distinct (map (\<lambda>f. (tf_TierID f, tf_Feature f)) (pg_tier_features s))"
    "distinct (map (\<lambda>x. (ks_KeyID x, ks_Name x)) (pg_key_secrets s))"
    using assms(1) by (simp_all add: schema_defs)
  have "mget (pk_Features k) f = limit_in (pg_tier_features s) (kr_tier_id r) f" for f
    using featureLimits_limit_in [OF assms(3) d(1)] key_of_row_fields(2) [OF assms(2)]
    by (simp add: assms(5) load_def)
  moreover have "mget (pk_Secrets k) n = secret_of sealer (pg_key_secrets s) (kr_id r) n" for n
    using openSecrets_mget [OF assms(4) d(2)] key_of_row_fields(1) [OF assms(2)]
    by (simp add: assms(5) load_def)
  ultimately show "mirrors codec sealer s r k"
    using assms(2) by (auto simp: mirrors_def assms(5) load_def key_of_row_def Let_def split: option.splits)
  show "counters_from m r k"
    using assms(2) by (auto simp: counters_from_def assms(5) load_def kept_or_new_def new_PoolKey_def
        key_of_row_def Let_def split: option.splits)
qed

lemma reload_mirrors:
  assumes "schema_ok s" "pool_ok m" "ReloadKeys (pg_pool codec) m s = (m', s', None)"
  shows "list_all2 (\<lambda>r k. mirrors codec (m_sealer m) s r k \<and> counters_from m r k)
      (filter (\<lambda>r. kr_tier_id r \<in> tf_TierID ` set (pg_tier_features s)) (sort_key kr_created_at (pg_keys s)))
      (m_keys m')"
    and "m' = m\<lparr>m_keys := m_keys m'\<rparr>"
proof -
  have dist: "distinct (map pk_ID (m_keys m))" using assms(2) by (simp add: pool_ok_def)
  with assms(3) show "m' = m\<lparr>m_keys := m_keys m'\<rparr>" by (cases rule: ReloadKeys_cases) simp_all
  from assms(3) dist show "list_all2 (\<lambda>r k. mirrors codec (m_sealer m) s r k \<and> counters_from m r k)
      (filter (\<lambda>r. kr_tier_id r \<in> tf_TierID ` set (pg_tier_features s)) (sort_key kr_created_at (pg_keys s)))
      (m_keys m')"
  proof (cases rule: ReloadKeys_cases)
    case (loaded rows byTier byKey)
    let ?T = "tf_TierID ` set (pg_tier_features s)"
    let ?load = "\<lambda>row. load row (featureLimits (rows_of byTier (key_TierID row)))
         (openSecrets (m_sealer m) (rows_of byKey (key_ID row))) (kept_or_new m row)"
    have "rows_of byTier t \<noteq> [] \<longleftrightarrow> t \<in> ?T" for t
      using loaded(4) [of t] by (auto simp: set_empty [symmetric] simp del: set_empty)
    then have keys: "m_keys m' = map ?load (filter (\<lambda>row. key_TierID row \<in> ?T) rows)"
      by (simp add: loaded(6))
    have "list_all2 (\<lambda>r row. key_of_row codec r = Inr row)
        (filter (\<lambda>r. kr_tier_id r \<in> ?T) rs) (filter (\<lambda>row. key_TierID row \<in> ?T) ks)"
      if "keys_of_rows codec rs = Inr ks" for rs ks
      using that by (induction rs arbitrary: ks) (auto simp: ebind_Inr_iff key_of_row_fields)
    from this [OF loaded(3)] show ?thesis
      unfolding keys list_all2_map2
      by (rule list_all2_mono) (use loaded_key [OF assms(1) _ loaded(4,5) refl] in blast)
  qed simp
qed

text \<open>
  C23. After a reload the pool holds exactly the stored keys whose tier covers a feature, in the
  order they were created. Each mirrors its row: name, sealed value, tier, state, limits, budget
  and spend, the metadata as read by the codec, the secrets as opened by the sealer, and exactly
  the current limits of its tier. Its counters are those it had in the pool, or, if it is new to
  the pool, the stored usage with fresh rate counters: a reload never resets a limit. A reload
  that fails leaves the pool as it was, and none changes a table.
\<close>

theorem ReloadKeys_reflects_database:
  assumes "schema_ok s" "pool_ok m" "ReloadKeys (pg_pool codec) m s = (m', s', err)"
  shows "(err \<noteq> None \<longrightarrow> m' = m) \<and> (err = None \<longrightarrow>
    m' = m\<lparr>m_keys := m_keys m'\<rparr> \<and>
    list_all2 (\<lambda>r k. mirrors codec (m_sealer m) s r k \<and> counters_from m r k)
      (filter (\<lambda>r. kr_tier_id r \<in> tf_TierID ` set (pg_tier_features s)) (sort_key kr_created_at (pg_keys s)))
      (m_keys m')) \<and> tables s' = tables s"
proof -
  have "distinct (map pk_ID (m_keys m))" using assms(2) by (simp add: pool_ok_def)
  with assms(3) have "(err \<noteq> None \<longrightarrow> m' = m) \<and> tables s' = tables s"
    by (cases rule: ReloadKeys_cases) simp_all
  with reload_mirrors [OF assms(1,2)] assms(3) show ?thesis by blast
qed

section \<open>The invariant of the pool\<close>

text \<open>Usage counts, in the pool and in the tables.\<close>

definition counts_ok :: "Manager \<Rightarrow> bool" where
  "counts_ok m \<longleftrightarrow> (\<forall>k\<in>set (m_keys m). 0 \<le> pk_UsageCount k)"

definition stored_counts_ok :: "pg \<Rightarrow> bool" where
  "stored_counts_ok s \<longleftrightarrow> (\<forall>r\<in>set (pg_keys s). 0 \<le> kr_usage_count r)"

lemma stored_counts_tables: "tables s' = tables s \<Longrightarrow> stored_counts_ok s' = stored_counts_ok s"
  using tables_fields(3) [of s' s] by (simp add: stored_counts_ok_def)

lemma keeps_stored_counts:
  "keeps stored_counts_ok (SetKeyExhausted i until)" "keeps stored_counts_ok (RecordSpend_db e start)"
proof -
  have f: "faultless stored_counts_ok" by (simp add: faultless_def stored_counts_ok_def)
  have upd: "update_keys i g s = Inr (s', n) \<Longrightarrow> (\<And>r. kr_usage_count (g r) = kr_usage_count r) \<Longrightarrow>
      stored_counts_ok s \<Longrightarrow> stored_counts_ok s'" for i g s s' n
    by (auto simp: update_keys_def stored_counts_ok_def split: if_splits)
  show "keeps stored_counts_ok (SetKeyExhausted i until)"
    unfolding SetKeyExhausted_def ignore_rows_def
    by (intro keeps_dbind keeps_dreturn keeps_exec [OF f]) (auto dest: upd)
  have "keeps stored_counts_ok (exec (insert_spend e))" "keeps stored_counts_ok (exec (select_spent j t))"
    "keeps stored_counts_ok (exec (update_spent j t a))" for j t a
    by (rule keeps_exec [OF f]; auto simp: insert_spend_def select_spent_def update_spent_def stored_counts_ok_def
        split: if_splits option.splits)+
  then show "keeps stored_counts_ok (RecordSpend_db e start)"
    unfolding RecordSpend_db_def Let_def
    by (intro keeps_transaction [OF f] keeps_dbind) (auto split: option.split intro!: keeps_dbind keeps_dreturn)
qed

lemma counts_set_key:
  "counts_ok m \<Longrightarrow> (a < length (m_keys m) \<Longrightarrow> 0 \<le> pk_UsageCount k') \<Longrightarrow> counts_ok (set_key a k' m)"
  by (cases "a < length (m_keys m)")
    (auto simp: counts_ok_def set_key_def list_update_beyond dest!: set_update_subset_insert [THEN subsetD])

lemma counts_gated: "0 \<le> pk_UsageCount k \<Longrightarrow> 0 \<le> pk_UsageCount (gated t1 t2 f k)"
  by (auto simp: gated_def try_usage_def TryConsumeUsage_def TryRate_def Let_def split: option.splits prod.splits if_splits)

lemma counts_try_key: "counts_ok m \<Longrightarrow> counts_ok (fst (try_key t1 t2 f a m))"
proof -
  assume m: "counts_ok m"
  have "counts_ok (set_key a (gated t1 t2 f (m_keys m ! a)) m)"
    using m by (intro counts_set_key counts_gated) (auto simp: counts_ok_def)
  then show ?thesis by (auto simp: try_key_eq counts_ok_def)
qed

lemma counts_reload:
  assumes "counts_ok m" "stored_counts_ok s" "pool_ok m" "ReloadKeys (pg_pool codec) m s = (m', s', err)"
  shows "counts_ok m' \<and> stored_counts_ok s'"
proof -
  have "distinct (map pk_ID (m_keys m))" using assms(3) by (simp add: pool_ok_def)
  with assms(4) show ?thesis
  proof (cases rule: ReloadKeys_cases)
    case (failed e)
    with assms(1,2) stored_counts_tables [OF failed(3)] show ?thesis by simp
  next
    case (loaded rows byTier byKey)
    have "0 \<le> pk_UsageCount (kept_or_new m row)" if row: "row \<in> set rows" for row
    proof -
      obtain r where "r \<in> set (pg_keys s)" "key_of_row codec r = Inr row"
        using keys_of_rows_origin [OF loaded(3) row] by auto
      then have "0 \<le> key_UsageCount row"
        using assms(2) key_of_row_fields(4) by (auto simp: stored_counts_ok_def)
      then show ?thesis
        using assms(1) by (auto simp: kept_or_new_def new_PoolKey_def counts_ok_def find_key_Some split: option.split)
    qed
    then have "counts_ok m'" by (auto simp: loaded(6) counts_ok_def load_def)
    with assms(2) stored_counts_tables [OF loaded(2)] show ?thesis by simp
  qed
qed

lemma counts_pool_do:
  assumes "counts_ok m" "stored_counts_ok s" "pool_ok m" "pool_do (pg_pool codec) op (m, s) = (m', s')"
  shows "counts_ok m' \<and> stored_counts_ok s'"
proof (cases op)
  case (OExhaust i until)
  have "stored_counts_ok (fst (err_of (SetKeyExhausted i until s)))"
    using keeps_stored_counts(1) [of i until] assms(2) unfolding keeps_def err_of_def by (metis fst_conv prod.collapse)
  moreover have "counts_ok (set_key a ((m_keys m ! a)\<lparr>pk_ExhaustedUntil := Some until\<rparr>) m)" for a
    using assms(1) by (intro counts_set_key) (auto simp: counts_ok_def)
  ultimately show ?thesis
    using assms OExhaust by (auto simp: MarkExhausted_def pg_pool_def split: option.splits)
next
  case (OSpend now e)
  have db: "stored_counts_ok (fst (RecordSpend_db e start s))" for start
    using keeps_stored_counts(2) [of e start] assms(2) unfolding keeps_def by (metis prod.collapse)
  have "counts_ok (set_key a (holdSpent x t (m_keys m ! a)) m)" for a x t
    using assms(1) by (intro counts_set_key) (auto simp: counts_ok_def holdSpent_def)
  with assms(1) have fin: "counts_ok (fst (spend_finish now j b c m))" for j b c
    by (auto simp: spend_finish_def split: prod.split option.split)
  obtain r where r: "RecordSpend (pg_pool codec) now e m s = (m', s', r)"
    using assms(4) OSpend by (auto split: prod.splits)
  show ?thesis
  proof (cases "spend_begin now e m")
    case (Inl err)
    with r assms(1,2) show ?thesis by (simp add: RecordSpend_def)
  next
    case (Inr begun)
    obtain s1 c where c: "RecordSpend_db e (snd (snd begun)) s = (s1, c)" by fastforce
    with db [of "snd (snd begun)"] have "stored_counts_ok s1" by simp
    moreover have "s' = s1 \<and> counts_ok m'"
    proof (cases c)
      case (Inl err)
      with r c Inr assms(1) show ?thesis by (cases err) (auto simp: RecordSpend_def pg_pool_def)
    next
      case counted: (Inr counted)
      obtain m1 sp where "spend_finish now (se_KeyID e) begun counted m = (m1, sp)" by fastforce
      with r c Inr counted fin [of "se_KeyID e" begun counted] show ?thesis
        by (auto simp: RecordSpend_def pg_pool_def)
    qed
    ultimately show ?thesis by simp
  qed
next
  case (OBalance i b)
  have "counts_ok (set_key a ((m_keys m ! a)\<lparr>pk_Balance := Some b\<rparr>) m)" for a
    using assms(1) by (intro counts_set_key) (auto simp: counts_ok_def)
  with OBalance assms show ?thesis by (auto simp: SetBalance_def split: option.splits)
next
  case OReload
  with assms counts_reload [OF assms(1-3)] show ?thesis by (auto split: prod.splits)
next
  case (ODraw clk f al)
  have "counts_ok (fst (GetKeyForFeature clk f al m))"
    by (rule draw_keeps(1) [OF counts_try_key _ assms(1)]) (simp_all add: counts_ok_def)
  with assms(2,4) ODraw show ?thesis by simp
next
  case (OKeyByID clk i f al)
  have "counts_ok (fst (KeyByID clk i f al m))"
    by (rule draw_keeps(2) [OF counts_try_key _ assms(1)]) (simp_all add: counts_ok_def)
  with assms(2,4) OKeyByID show ?thesis by simp
qed

lemma counts_pool_run:
  "counts_ok m \<Longrightarrow> stored_counts_ok s \<Longrightarrow> pool_ok m \<Longrightarrow> schema_ok s \<Longrightarrow>
   pool_run (pg_pool codec) ops (m, s) = (m', s') \<Longrightarrow> counts_ok m'"
proof (induction ops arbitrary: m s)
  case (Cons op ops)
  obtain m1 s1 where d: "pool_do (pg_pool codec) op (m, s) = (m1, s1)" by fastforce
  have "pool_run (pg_pool codec) ops (m1, s1) = (m', s')" using Cons.prems(5) d by (simp add: pool_run_def)
  with counts_pool_do [OF Cons.prems(1-3) d] pgp.pool_do_ok [OF Cons.prems(3,4) d] Cons.IH show ?case by blast
qed (simp add: pool_run_def)

text \<open>
  C24. Whatever is done with a pool that was loaded from the database, in whatever order and
  whichever database calls fail: no two pooled keys have the same id, every key covers at least
  one feature, its rate windows and its usage window fit the arithmetic of durations, no rate
  counter is negative, and no usage count is when none was in the tables the pool was loaded from.
\<close>

theorem pool_invariant:
  assumes "schema_ok s" "NewManager (pg_pool codec) sealer New_Writer s = (s1, Inr m)"
    and "pool_run (pg_pool codec) ops (m, s1) = (m', s')"
  shows "pool_ok m' \<and> schema_ok s' \<and>
    ((\<forall>r\<in>set (pg_keys s). 0 \<le> kr_usage_count r) \<longrightarrow> (\<forall>k\<in>set (m_keys m'). 0 \<le> pk_UsageCount k))"
proof -
  have ok: "pool_ok m" "schema_ok s1"
    using pgp.NewManager_ok [OF assms(1) _ assms(2)] by (simp_all add: New_Writer_def)
  let ?m = "\<lparr>m_keys = [], m_next = 0, m_usage = New_Writer, m_sealer = sealer\<rparr>"
  have "pool_ok ?m" "counts_ok ?m" by (simp_all add: pool_ok_def New_Writer_def counts_ok_def)
  moreover have "ReloadKeys (pg_pool codec) ?m s = (m, s1, None)"
    using assms(2) by (auto simp: NewManager_def split: prod.splits option.splits)
  ultimately have "stored_counts_ok s \<Longrightarrow> counts_ok m \<and> stored_counts_ok s1" using counts_reload by blast
  then have "stored_counts_ok s \<Longrightarrow> counts_ok m'" using counts_pool_run [OF _ _ ok assms(3)] by blast
  with pgp.pool_run_ok [OF ok assms(3)] show ?thesis by (simp add: stored_counts_ok_def counts_ok_def)
qed

end
