(* ===== verification/Spending.thy ===== *)
theory Spending
  imports Usage_Ledger Budget
begin

text \<open>
  \<open>internal/db/postgres_budget.go\<close>: what the spend of a key is after any sequence of reports,
  why a repeated report changes nothing, and what a new budget does to the spend so far.
\<close>

section \<open>One report\<close>

text \<open>The effect of a report that succeeds, by whether its request id was known.\<close>

definition spent_row :: "time \<Rightarrow> f64 \<Rightarrow> key_row \<Rightarrow> key_row" where
  "spent_row t amount r =
     r\<lparr>kr_spent := new_spent t amount r, kr_spent_period_start := Some (timestamptz t)\<rparr>"

definition spent_at :: "time \<Rightarrow> key_row \<Rightarrow> f64" where
  "spent_at t r = (if kr_spent_period_start r = Some (timestamptz t) then kr_spent r else 0)"

definition requests :: "pg \<Rightarrow> string set" where
  "requests s = se_RequestID ` set (pg_spend_events s)"

lemma requests_faults [simp]: "requests (s\<lparr>pg_faults := fs\<rparr>) = requests s"
  by (simp add: requests_def)

lemma spent_row_id [simp]: "kr_id (spent_row t a r) = kr_id r"
  by (simp add: spent_row_def)

lemma insert_spend_cases:
  assumes "insert_spend e s = Inr (s', n)"
  shows "n = 0 \<longleftrightarrow> se_RequestID e \<in> requests s" "requests s' = insert (se_RequestID e) (requests s)"
    "key_row_of s' = key_row_of s" "n = 0 \<Longrightarrow> s' = s"
  using assms by (auto simp: insert_spend_def requests_def key_row_of_def fun_eq_iff split: if_splits)

lemma update_spent_cases:
  assumes "update_spent k t a s = Inr (s', x)"
  obtains r where "key_row_of s k = Some r" "x = new_spent t a r" "requests s' = requests s"
    "key_row_of s' k = Some (spent_row t a r)" "\<forall>k'. k' \<noteq> k \<longrightarrow> key_row_of s' k' = key_row_of s k'"
proof -
  from assms obtain r where r: "key_row_of s k = Some r" "x = new_spent t a r"
    and s': "s' = s\<lparr>pg_keys := map (\<lambda>r. if kr_id r = k then spent_row t a r else r) (pg_keys s)\<rparr>"
    by (auto simp: update_spent_def key_row_of_def spent_row_def split: option.splits if_splits)
  have "key_row_of s' k' = map_option (\<lambda>r. if k' = k then spent_row t a r else r) (key_row_of s k')"
    for k' unfolding s' key_row_of_def by (simp add: find_update)
  with r show ?thesis
    by (intro that) (simp_all add: s' requests_def option.map_ident)
qed

lemma RecordSpend_cases:
  assumes "RecordSpend_db e (Some t) s = (s', Inr (spent, dup))"
  obtains (new) r where "\<not> dup" "se_RequestID e \<notin> requests s" "key_row_of s (se_KeyID e) = Some r"
      "spent = new_spent t (se_Amount e) r" "requests s' = insert (se_RequestID e) (requests s)"
      "key_row_of s' (se_KeyID e) = Some (spent_row t (se_Amount e) r)"
      "\<forall>k. k \<noteq> se_KeyID e \<longrightarrow> key_row_of s' k = key_row_of s k"
  | (repeated) r where "dup" "se_RequestID e \<in> requests s" "key_row_of s (se_KeyID e) = Some r"
      "spent = spent_at t r" "tables s' = tables s"
  using assms unfolding RecordSpend_db_def
proof (cases rule: transaction_cases)
  case (finished fs s1 a fs')
  let ?s = "s\<lparr>pg_faults := fs\<rparr>"
  obtain s2 b where i: "exec (insert_spend e) ?s = (s2, b)" by fastforce
  then show thesis
  proof (cases rule: exec_cases)
    case (failed err fs2)
    with finished(1) i show thesis by (simp add: dbind_def)
  next
    case ins: (finished fs2 n)
    note c = insert_spend_cases [OF ins(1)]
    show thesis
    proof (cases "n = 0")
      case True
      obtain s3 x where q: "exec (select_spent (se_KeyID e) t) s2 = (s3, x)" by fastforce
      have s2: "s2 = s\<lparr>pg_faults := fs2\<rparr>" using c(4) True by simp
      from q show thesis
      proof (cases rule: exec_cases)
        case (failed err fs3)
        with finished(1) i q True ins(2) show thesis by (simp add: dbind_def)
      next
        case sel: (finished fs3 v)
        from sel(1) s2 obtain r where r: "key_row_of s (se_KeyID e) = Some r" "v = spent_at t r"
          "s3 = s\<lparr>pg_faults := fs3\<rparr>"
          by (auto simp: select_spent_def key_row_of_def spent_at_def split: option.splits)
        from finished i q True ins(2) sel(2)
        have "s' = s3\<lparr>pg_faults := fs'\<rparr>" "spent = v" "dup"
          by (auto simp: dbind_def dreturn_def)
        with r c(1) True show thesis by (intro repeated) simp_all
      qed
    next
      case False
      obtain s3 x where q: "exec (update_spent (se_KeyID e) t (se_Amount e)) s2 = (s3, x)" by fastforce
      then show thesis
      proof (cases rule: exec_cases)
        case (failed err fs3)
        with finished(1) i q False ins(2) show thesis by (simp add: dbind_def)
      next
        case upd: (finished fs3 v)
        obtain r where r: "key_row_of s2 (se_KeyID e) = Some r" "v = new_spent t (se_Amount e) r"
          "requests s3 = requests s2"
          "key_row_of s3 (se_KeyID e) = Some (spent_row t (se_Amount e) r)"
          "\<forall>k'. k' \<noteq> se_KeyID e \<longrightarrow> key_row_of s3 k' = key_row_of s2 k'"
          using upd(1) by (rule update_spent_cases) simp
        from finished i q False ins(2) upd(2)
        have "s' = s3\<lparr>pg_faults := fs'\<rparr>" "spent = v" "\<not> dup"
          by (auto simp: dbind_def dreturn_def)
        with r c(1-3) False show thesis by (intro new) simp_all
      qed
    qed
  qed
qed simp

text \<open>
  C25. Reporting a spend twice counts it once: after a report has succeeded, a second report with
  the same request id for the same period answers the same total, says it is a duplicate, and
  leaves every table as it is.
\<close>

theorem RecordSpend_retry:
  assumes "RecordSpend_db e (Some t) s = (s1, Inr (spent, dup))"
    and "se_RequestID e' = se_RequestID e" "se_KeyID e' = se_KeyID e"
    and "RecordSpend_db e' (Some t) s1 = (s2, Inr (spent', dup'))"
  shows "spent' = spent \<and> dup' \<and> tables s2 = tables s1"
proof -
  have "\<exists>r. key_row_of s1 (se_KeyID e) = Some r \<and> spent = spent_at t r \<and> se_RequestID e \<in> requests s1"
    using assms(1)
  proof (cases rule: RecordSpend_cases)
    case (new r)
    then show ?thesis by (simp add: spent_at_def spent_row_def)
  next
    case (repeated r)
    then have "key_row_of s1 = key_row_of s" "requests s1 = requests s"
      using tables_fields(3,8) [OF repeated(5)] by (simp_all add: key_row_of_def requests_def fun_eq_iff)
    with repeated show ?thesis by simp
  qed
  with assms(2,3) have known: "se_RequestID e' \<in> requests s1"
    and row: "\<exists>r. key_row_of s1 (se_KeyID e') = Some r \<and> spent = spent_at t r" by auto
  from assms(4) show ?thesis
  proof (cases rule: RecordSpend_cases)
    case (new r)
    with known show ?thesis by simp
  next
    case (repeated r)
    with row show ?thesis by auto
  qed
qed

section \<open>A sequence of reports\<close>

text \<open>
  Reports one after the other with their answers; a report carries the start of the budget's
  period, or none when the key has no budget. Any of them may fail.
\<close>

type_synonym report = "SpendEvent \<times> time option"

fun reports :: "report list \<Rightarrow> pg \<Rightarrow> pg \<times> (dberr + f64 \<times> bool) list" where
  "reports [] s = (s, [])"
| "reports ((e, start) # es) s =
     (case RecordSpend_db e start s of (s1, a) \<Rightarrow>
        case reports es s1 of (s2, as) \<Rightarrow> (s2, a # as))"

text \<open>The reports that count: those that succeeded, the first one of every request id not seen before.\<close>

fun counting :: "string set \<Rightarrow> report list \<Rightarrow> (dberr + f64 \<times> bool) list \<Rightarrow> report list" where
  "counting seen ((e, start) # es) (a # as) =
     (if isl a \<or> se_RequestID e \<in> seen then counting seen es as
      else (e, start) # counting (insert (se_RequestID e) seen) es as)"
| "counting seen _ _ = []"

text \<open>The amounts among them that a key's budget counts, each with its period.\<close>

definition amounts_of :: "string \<Rightarrow> report list \<Rightarrow> (time \<times> f64) list" where
  "amounts_of k = List.map_filter (\<lambda>(e, start).
     if se_KeyID e = k then map_option (\<lambda>t. (timestamptz t, se_Amount e)) start else None)"

text \<open>
  What the row then holds: the sum of the last unbroken run of amounts of one period, on top of
  what was stored when the run reaches back to the beginning and the stored spend is of that period.
\<close>

definition spent_after :: "f64 \<times> time option \<Rightarrow> (time \<times> f64) list \<Rightarrow> f64 \<times> time option" where
  "spent_after stored xs =
     (if xs = [] then stored
      else let t = fst (last xs); run = rev (takeWhile (\<lambda>x. fst x = t) (rev xs)) in
        (foldl (+) (if run = xs \<and> snd stored = Some t then fst stored else 0) (map snd run), Some t))"

definition tally :: "f64 \<times> time option \<Rightarrow> time \<times> f64 \<Rightarrow> f64 \<times> time option" where
  "tally v x = (if snd v = Some (fst x) then fst v + snd x else snd x, Some (fst x))"

lemma spent_after_tally:
  "\<forall>x\<in>set xs. is_f64 (snd x) \<Longrightarrow> spent_after v xs = foldl tally v xs"
proof (induction xs rule: rev_induct)
  case (snoc x xs)
  have a: "is_f64 (snd x)" using snoc.prems by simp
  have fold: "foldl tally v (xs @ [x]) = tally (spent_after v xs) x" using snoc by simp
  have "takeWhile (\<lambda>y. fst y = fst x) (rev xs) = []" if "xs \<noteq> []" "fst (last xs) \<noteq> fst x"
    using that by (cases xs rule: rev_cases) simp_all
  then show ?case
    unfolding fold using a
    by (cases "xs = []"; cases "fst (last xs) = fst x")
      (simp_all add: spent_after_def tally_def f64_zero_add Let_def)
qed (simp add: spent_after_def)

lemma amounts_of_simps [simp]:
  "amounts_of k [] = []"
  "amounts_of k ((e, start) # es) =
     (case start of None \<Rightarrow> amounts_of k es
      | Some t \<Rightarrow> (if se_KeyID e = k then [(timestamptz t, se_Amount e)] else []) @ amounts_of k es)"
  by (auto simp: amounts_of_def map_filter_simps split: option.split)

definition row_spend :: "key_row \<Rightarrow> f64 \<times> time option" where
  "row_spend r = (kr_spent r, kr_spent_period_start r)"

lemma row_spend_spent_row: "row_spend (spent_row t a r) = tally (row_spend r) (timestamptz t, a)"
  by (simp add: row_spend_def spent_row_def new_spent_def tally_def)

lemma key_row_of_tables: "tables s' = tables s \<Longrightarrow> key_row_of s' = key_row_of s \<and> requests s' = requests s"
  using tables_fields(3,8) [of s' s] by (simp add: key_row_of_def requests_def fun_eq_iff)

text \<open>A report of a key without a budget is recorded and changes no key.\<close>

lemma RecordSpend_unbudgeted:
  assumes "RecordSpend_db e None s = (s', Inr x)"
  shows "requests s' = insert (se_RequestID e) (requests s)" "key_row_of s' = key_row_of s"
proof -
  have "requests s' = insert (se_RequestID e) (requests s) \<and> key_row_of s' = key_row_of s"
    using assms unfolding RecordSpend_db_def
  proof (cases rule: transaction_cases)
    case (finished fs s1 a fs')
    let ?s = "s\<lparr>pg_faults := fs\<rparr>"
    obtain s2 b where i: "exec (insert_spend e) ?s = (s2, b)" by fastforce
    then show ?thesis
    proof (cases rule: exec_cases)
      case (failed err fs2)
      with finished(1) i show ?thesis by (simp add: dbind_def)
    next
      case ins: (finished fs2 n)
      note c = insert_spend_cases [OF ins(1)]
      have "s1 = s2" using finished(1) i ins(2) by (simp add: dbind_def dreturn_def)
      with c(2,3) finished(2) show ?thesis by (simp add: key_row_of_def fun_eq_iff)
    qed
  qed simp
  then show "requests s' = insert (se_RequestID e) (requests s)" "key_row_of s' = key_row_of s" by simp_all
qed

lemma RecordSpend_any:
  assumes "RecordSpend_db e start s = (s', a)" "key_row_of s k = Some r"
  shows "\<exists>r'. key_row_of s' k = Some r' \<and>
    (if isl a \<or> se_RequestID e \<in> requests s then requests s' = requests s \<and> row_spend r' = row_spend r
     else requests s' = insert (se_RequestID e) (requests s) \<and>
       row_spend r' = foldl tally (row_spend r) (amounts_of k [(e, start)]))"
proof (cases a)
  case (Inl err)
  have "atomic (RecordSpend_db e start)" unfolding RecordSpend_db_def by (rule atomic_transaction)
  then have "tables s' = tables s" using assms(1) Inl by (auto simp: atomic_def)
  with key_row_of_tables [OF this] assms(2) Inl show ?thesis by simp
next
  case (Inr x)
  show ?thesis
  proof (cases start)
    case None
    then have n: "RecordSpend_db e None s = (s', Inr x)" using assms(1) Inr by simp
    then show ?thesis using RecordSpend_unbudgeted [OF n] assms(2) None by (auto simp: Inr)
  next
    case (Some t)
    obtain spent dup where x: "x = (spent, dup)" by (cases x)
    have "RecordSpend_db e (Some t) s = (s', Inr (spent, dup))" using assms(1) Inr Some x by simp
    then show ?thesis
    proof (cases rule: RecordSpend_cases)
      case (new r0)
      with assms(2) Inr Some show ?thesis by (cases "se_KeyID e = k") (auto simp: row_spend_spent_row)
    next
      case (repeated r0)
      with key_row_of_tables [OF repeated(5)] assms(2) Inr show ?thesis by simp
    qed
  qed
qed

lemma reports_tally:
  "reports es s = (s', as) \<Longrightarrow> key_row_of s k = Some r \<Longrightarrow>
   \<exists>r'. key_row_of s' k = Some r' \<and>
     row_spend r' = foldl tally (row_spend r) (amounts_of k (counting (requests s) es as))"
proof (induction es arbitrary: s r as)
  case (Cons y es)
  obtain e start where y: "y = (e, start)" by (cases y)
  obtain s1 a where c: "RecordSpend_db e start s = (s1, a)" by fastforce
  obtain as' where rest: "reports es s1 = (s', as')" and as: "as = a # as'"
    using Cons.prems(1) c y by (auto split: prod.splits)
  from RecordSpend_any [OF c Cons.prems(2)] obtain r1 where r1: "key_row_of s1 k = Some r1"
    "if isl a \<or> se_RequestID e \<in> requests s then requests s1 = requests s \<and> row_spend r1 = row_spend r
     else requests s1 = insert (se_RequestID e) (requests s) \<and>
       row_spend r1 = foldl tally (row_spend r) (amounts_of k [(e, start)])" by blast
  from Cons.IH [OF rest r1(1)] r1(2) show ?case
    by (cases start) (auto simp: y as split: if_splits)
qed simp

lemma amounts_f64:
  "\<forall>x\<in>set es. is_f64 (se_Amount (fst x)) \<Longrightarrow> \<forall>x\<in>set (amounts_of k (counting seen es as)). is_f64 (snd x)"
  by (induction seen es as rule: counting.induct) (auto split: option.splits)

lemma spent_after_one_period:
  assumes "\<forall>x\<in>set xs. fst x = timestamptz t" "row_spend r' = spent_after (row_spend r) xs"
  shows "spent_at t r' = foldl (+) (spent_at t r) (map snd xs)"
proof (cases "xs = []")
  case True
  with assms(2) show ?thesis by (simp add: spent_after_def spent_at_def row_spend_def)
next
  case False
  then have "fst (last xs) = timestamptz t" using assms(1) by simp
  moreover have "takeWhile (\<lambda>x. fst x = timestamptz t) (rev xs) = rev xs" using assms(1) by simp
  then have "rev (takeWhile (\<lambda>x. fst x = timestamptz t) (rev xs)) = xs" by (simp only: rev_rev_ident)
  ultimately have "row_spend r' = (foldl (+) (if snd (row_spend r) = Some (timestamptz t)
      then fst (row_spend r) else 0) (map snd xs), Some (timestamptz t))"
    using assms(2) False by (simp only: spent_after_def Let_def if_False simp_thms)
  then show ?thesis by (simp add: row_spend_def spent_at_def)
qed

text \<open>
  C26. The spend of a key after any sequence of reports, about any keys, for any periods and with
  any failures: only reports that succeed count, each request id once. The row holds the sum, in
  order, of the last unbroken run of the key's amounts of one period, with that period; when all
  its reports are of one period, the spend of the period is what it was plus their amounts.
\<close>

theorem reports_total:
  assumes "reports es s = (s', as)" "\<forall>x\<in>set es. is_f64 (se_Amount (fst x))" "key_row_of s k = Some r"
  shows "\<exists>r'. key_row_of s' k = Some r' \<and>
    (let xs = amounts_of k (counting (requests s) es as) in
       (kr_spent r', kr_spent_period_start r') = spent_after (kr_spent r, kr_spent_period_start r) xs \<and>
       (\<forall>t. (\<forall>x\<in>set xs. fst x = timestamptz t) \<longrightarrow>
          spent_at t r' = foldl (+) (spent_at t r) (map snd xs)))"
proof -
  let ?xs = "amounts_of k (counting (requests s) es as)"
  obtain r' where r': "key_row_of s' k = Some r'" "row_spend r' = foldl tally (row_spend r) ?xs"
    using reports_tally [OF assms(1,3)] by blast
  then have "row_spend r' = spent_after (row_spend r) ?xs"
    using spent_after_tally [OF amounts_f64 [OF assms(2)]] by simp
  with spent_after_one_period [OF _ this] r'(1) show ?thesis by (auto simp: row_spend_def Let_def)
qed

section \<open>A new budget\<close>

text \<open>
  C27. Setting a budget changes the key's budget columns and nothing else, except that the spend
  so far is dropped when the unit changes, or when a budget is added or removed: dollars are
  never compared with credits. An unknown key is an error.
\<close>

theorem UpdateKeyBudget_effect:
  assumes "pg_faults s = []" "key_row_of s k = Some r" "schema_ok s"
    and "case b of None \<Rightarrow> True | Some b \<Rightarrow> int32_null (b_ResetDay b)"
  shows "\<exists>s'. UpdateKeyBudget k b s = (s', Inr ()) \<and>
    key_row_of s' k = Some (r\<lparr>
      kr_budget_amount := map_option b_Amount b, kr_budget_unit := map_option b_Unit b,
      kr_budget_reset_day := (case b of None \<Rightarrow> None | Some b \<Rightarrow> b_ResetDay b),
      kr_spent := (if map_option b_Unit b = kr_budget_unit r then kr_spent r else 0),
      kr_spent_period_start :=
        (if map_option b_Unit b = kr_budget_unit r then kr_spent_period_start r else None)\<rparr>)"
proof -
  obtain amount u d where c: "budgetColumns b = (amount, u, d)" by (metis prod_cases3)
  have cols: "amount = map_option b_Amount b" "u = map_option b_Unit b"
    "d = (case b of None \<Rightarrow> None | Some b \<Rightarrow> b_ResetDay b)" "int32_null d"
    using c assms(4) by (auto simp: budgetColumns_def split: option.splits)
  define g where "g = (\<lambda>r :: key_row. r\<lparr>kr_budget_amount := amount, kr_budget_unit := u,
      kr_budget_reset_day := d, kr_spent := (if kr_budget_unit r = u then kr_spent r else 0),
      kr_spent_period_start := (if kr_budget_unit r = u then kr_spent_period_start r else None)\<rparr>)"
  define s' where "s' = s\<lparr>pg_keys := map (\<lambda>r. if kr_id r = k then g r else r) (pg_keys s)\<rparr>"
  define n where "n = length (filter (\<lambda>r. kr_id r = k) (pg_keys s))"
  have ok: "\<forall>r\<in>set (pg_keys s). key_row_ok (g r)"
    using assms(3) cols(4) by (simp add: schema_defs g_def key_row_ok_def)
  then have u: "update_keys k g s = Inr (s', n)" by (auto simp: update_keys_def s'_def n_def)
  have "r \<in> set (pg_keys s) \<and> kr_id r = k"
    using assms(2) by (auto simp: key_row_of_def find_Some_iff)
  then have "n \<noteq> 0" by (auto simp: n_def filter_empty_conv)
  then have "UpdateKeyBudget k b s = (s', Inr ())"
    using u cols(4) by (simp add: UpdateKeyBudget_def c dbind_def exec_ok [OF assms(1)] g_def dreturn_def)
  moreover have "key_row_of s' k = Some (g r)"
    using update_keys_usage(3) [OF u, of "\<lambda>c. c"] assms(2) by (simp add: g_def counted_in_def)
  ultimately show ?thesis using cols by (auto simp: g_def)
qed

section \<open>Deleting a tier\<close>

text \<open>
  C31. A tier is deleted only when no key is in it: while one is, the answer is \<open>ErrTierInUse\<close>;
  a tier that does not exist is \<open>ErrTierNotFound\<close>; otherwise its row, its features and every
  scope on it are gone, and keys, consumers and all other tiers are as they were.
\<close>

theorem DeleteTier_outcome:
  assumes "pg_faults s = []"
  shows "case DeleteTier i s of (s', r) \<Rightarrow>
    if i \<notin> tier_ID ` set (pg_tiers s) then r = Inl ErrTierNotFound \<and> s' = s
    else if i \<in> kr_tier_id ` set (pg_keys s) then r = Inl ErrTierInUse \<and> s' = s
    else r = Inr () \<and> s' = s\<lparr>
      pg_tiers := filter (\<lambda>t. tier_ID t \<noteq> i) (pg_tiers s),
      pg_tier_features := filter (\<lambda>f. tf_TierID f \<noteq> i) (pg_tier_features s),
      pg_consumer_scopes := filter (\<lambda>x. snd x \<noteq> i) (pg_consumer_scopes s)\<rparr>"
proof -
  have "filter (\<lambda>t. tier_ID t = i) (pg_tiers s) \<noteq> []" if "i \<in> tier_ID ` set (pg_tiers s)"
    using that by (auto simp: filter_empty_conv)
  then show ?thesis
    by (auto simp: DeleteTier_def dbind_def dmap_err_def exec_ok [OF assms(1)] delete_tier_def
        draise_def dreturn_def)
qed

end
