(* ===== verification/Demo.thy ===== *)
theory Demo
  imports Reload Spending
begin

text \<open>
  A small pool and the database it was loaded from, at which the properties are applied: one tier
  with one feature of two draws a minute, two keys, the first with a usage limit of three.
\<close>

definition now0 :: time where "now0 = 1000 * Second"

definition search_limit :: FeatureLimit where
  "search_limit = \<lparr>fl_RateLimit = 2, fl_WindowSeconds = 60\<rparr>"

definition demo_key :: "string \<Rightarrow> int option \<Rightarrow> PoolKey" where
  "demo_key i limit = (new_PoolKey 0 None)\<lparr>pk_ID := i, pk_KeyValue := ''secret-'' @ i,
     pk_TierID := ''t1'', pk_IsActive := True, pk_UsageLimit := limit,
     pk_Features := [(''search'', search_limit)]\<rparr>"

definition plain_sealer :: Sealer where "plain_sealer = \<lparr>aead = None\<rparr>"

definition demo_pool :: Manager where
  "demo_pool = \<lparr>m_keys = [demo_key ''k1'' (Some 3), demo_key ''k2'' None], m_next = 7,
     m_usage = New_Writer, m_sealer = plain_sealer\<rparr>"

definition demo_row :: "string \<Rightarrow> int option \<Rightarrow> key_row" where
  "demo_row i limit = \<lparr>kr_id = i, kr_name = i, kr_key_value = ''secret-'' @ i,
     kr_tier_id = ''t1'', kr_is_active = True, kr_expires_at = None, kr_usage_limit = limit,
     kr_usage_count = 0, kr_usage_window_seconds = None, kr_usage_window_start = None,
     kr_exhausted_until = None, kr_metadata_json = ''{}'', kr_created_at = 0,
     kr_budget_amount = None, kr_budget_unit = None, kr_budget_reset_day = None,
     kr_spent = 0, kr_spent_period_start = None\<rparr>"

definition demo_pg :: pg where
  "demo_pg = empty_pg\<lparr>pg_tiers := [demo_tier], pg_tier_features := [demo_feature\<lparr>tf_TierID := ''t1''\<rparr>],
     pg_keys := [demo_row ''k1'' (Some 3), demo_row ''k2'' None]\<rparr>"

definition demo_new_key :: Key where
  "demo_new_key = \<lparr>key_ID = ''k3'', key_Name = ''third'', key_KeyValue = ''v3'', key_TierID = ''t1'',
     key_IsActive = True, key_ExpiresAt = None, key_UsageLimit = Some 5, key_UsageCount = 0,
     key_UsageWindowSeconds = None, key_UsageWindowStart = None, key_ExhaustedUntil = None,
     key_Budget = Some demo_budget, key_Spent = 0, key_SpentPeriodStart = None,
     key_Metadata = [], key_CreatedAt = 0\<rparr>"

definition demo_spend :: "string \<Rightarrow> string \<Rightarrow> SpendEvent" where
  "demo_spend i request = \<lparr>se_ID = i, se_KeyID = ''k1'', se_ConsumerID = ''c1'',
     se_Amount = Fin 3, se_Unit = ''usd'', se_RequestID = request, se_CreatedAt = now0\<rparr>"

lemmas demo_defs = now0_def search_limit_def demo_key_def plain_sealer_def demo_pool_def
  demo_row_def demo_pg_def demo_new_key_def demo_spend_def new_PoolKey_def empty_pg_def
  demo_tier_def demo_feature_def

lemma demo_schema_ok: "schema_ok demo_pg"
  by (simp add: demo_defs schema_defs refers_def key_row_ok_def int32_def)

lemma demo_pool_ok: "pool_ok demo_pool"
  by (simp add: demo_defs pool_ok_def key_fits_def features_fit_def counters_fit_def wf_map_def
      int32_def New_Writer_def)

end
