(* ===== verification/Witnesses.thy ===== *)
theory Witnesses
  imports Demo
begin

text \<open>Every property that has hypotheses is applied here at data that satisfies them.\<close>

section \<open>Limits of one key\<close>

theorem rate_limit_per_window_witness:
  "snd (attempts (\<lambda>t. TryRate t ''search'') [now0, now0 + Second, now0 + 59 * Second]
     (demo_key ''k1'' (Some 3))) = 2"
  using rate_limit_per_window [of "demo_key ''k1'' (Some 3)" "''search''" search_limit now0
      "[now0 + Second, now0 + 59 * Second]"]
  by (simp add: demo_defs int32_def window_def seconds_int32 Second_def rate_of_def zeroCounter_def
      zeroTime_def time_Sub_def)

theorem rate_limit_sliding_witness:
  "snd (attempts (\<lambda>t. TryRate t ''search'') [now0, now0 + Second, now0 + 59 * Second]
     (demo_key ''k1'' (Some 3))) \<le> 4"
  using rate_limit_sliding [of "demo_key ''k1'' (Some 3)" "''search''" search_limit
      "[now0, now0 + Second, now0 + 59 * Second]" now0]
  by (simp add: demo_defs int32_def window_def seconds_int32 Second_def rate_of_def zeroCounter_def)

theorem usage_lifetime_cap_witness:
  "snd (attempts try_usage [now0, now0, now0, now0 + 1000 * Second] (demo_key ''k1'' (Some 3))) = 3"
  using usage_lifetime_cap [of "demo_key ''k1'' (Some 3)" 3
      "[now0, now0, now0, now0 + 1000 * Second]"]
  by (simp add: demo_defs)

theorem usage_limit_per_window_witness:
  "snd (attempts try_usage [now0, now0, now0 + 5 * Second]
     ((demo_key ''k1'' (Some 2))\<lparr>pk_UsageCount := 2, pk_UsageWindowSeconds := Some 10,
        pk_UsageWindowStart := Some 0\<rparr>)) = 2"
  using usage_limit_per_window [of "(demo_key ''k1'' (Some 2))\<lparr>pk_UsageCount := 2,
      pk_UsageWindowSeconds := Some 10, pk_UsageWindowStart := Some 0\<rparr>" 2 10 0 now0
      "[now0, now0 + 5 * Second]"]
  by (simp add: demo_defs int32_def Second_def)

theorem budget_gate_until_reset_witness:
  "withinBudget (1792022400 * Second) ((demo_key ''k1'' None)\<lparr>pk_Budget := Some demo_budget,
     pk_Spent := f64_of 200, pk_SpentPeriodStart := Some (1789430400 * Second)\<rparr>)"
  using budget_gate_until_reset [of "(demo_key ''k1'' None)\<lparr>pk_Budget := Some demo_budget,
      pk_Spent := f64_of 200, pk_SpentPeriodStart := Some (1789430400 * Second)\<rparr>" demo_budget oct9
      "1792022400 * Second" "1792022400 * Second"] demo_budget_valid demo_reset demo_period
  by (simp add: demo_budget_def f64_of_def oct9_def Second_def)

theorem holdSpent_keeps_maximum_witness:
  "\<not> pk_Spent (fold (\<lambda>total. holdSpent total now0) [Fin 9, Fin 4]
     ((demo_key ''k1'' None)\<lparr>pk_Spent := Fin 5, pk_SpentPeriodStart := Some now0\<rparr>)) < Fin 9"
  using holdSpent_keeps_maximum [of "(demo_key ''k1'' None)\<lparr>pk_Spent := Fin 5,
      pk_SpentPeriodStart := Some now0\<rparr>" now0 "[Fin 9, Fin 4]" "Fin 9"]
  by simp

section \<open>Serving\<close>

lemma demo_serves:
  "serves now0 now0 ''search'' (demo_key ''k1'' (Some 3))" "serves now0 now0 ''search'' (demo_key ''k2'' None)"
  by code_simp+

lemma demo_available:
  "filter (\<lambda>k. in_scope None (pk_TierID k) \<and> HasFeature ''search'' k \<and> Available now0 k) (m_keys demo_pool)
    = m_keys demo_pool"
  by code_simp

theorem round_robin_witness:
  "map (\<lambda>r. case r of Inr s \<Rightarrow> sk_ID s | Inl e \<Rightarrow> []) (snd (draws 2 now0 ''search'' None demo_pool))
    = [''k2'', ''k1'']"
proof -
  have "snd (draws (length (m_keys demo_pool)) now0 ''search'' None demo_pool)
      = map (\<lambda>k. Inr (served_of k)) (rotate (unat (m_next demo_pool)) (m_keys demo_pool))"
    by (rule round_robin [OF demo_available [symmetric]])
      (use demo_serves in \<open>simp_all add: demo_pool_def\<close>)
  moreover have "length (m_keys demo_pool) = 2"
    "rotate (unat (m_next demo_pool)) (m_keys demo_pool) = [demo_key ''k2'' None, demo_key ''k1'' (Some 3)]"
    by code_simp+
  ultimately show ?thesis by (simp add: served_of_def demo_key_def)
qed

theorem draw_outcome_witness:
  "\<exists>k\<in>set (m_keys demo_pool). \<exists>s. snd (GetKeyForFeature (\<lambda>_. now0) ''search'' None demo_pool) = Inr s
     \<and> s = served_of k"
proof -
  have "\<not> isl (snd (GetKeyForFeature (\<lambda>_. now0) ''search'' None demo_pool))" by code_simp
  with draw_outcome [where clk = "\<lambda>_. now0" and f = "''search''" and al = None and m = demo_pool] show ?thesis
    by (cases "snd (GetKeyForFeature (\<lambda>_. now0) ''search'' None demo_pool)") auto
qed

theorem KeyByID_outcome_witness:
  "snd (KeyByID (\<lambda>_. now0) ''k2'' ''search'' None demo_pool) = Inr (served_of (demo_key ''k2'' None))"
proof -
  have "find_key ''k2'' demo_pool = Some 1" "HasFeature ''search'' (demo_key ''k2'' None)"
    "Available now0 (demo_key ''k2'' None)" by code_simp+
  with KeyByID_outcome [where clk = "\<lambda>_. now0" and i = "''k2''" and f = "''search''" and al = None
      and m = demo_pool] demo_serves(2) show ?thesis
    by (auto simp: demo_pool_def Let_def in_scope_def split: prod.splits)
qed

section \<open>Write-back\<close>

text \<open>
  A key is served, the flush takes the entry, the key is served again, the store call fails and
  the entry is queued below the new one.
\<close>

definition down_pg :: pg where "down_pg = demo_pg\<lparr>pg_faults := [Some ''down'']\<rparr>"

definition requeued :: Writer where
  "requeued = New_Writer\<lparr>w_usage := [(''k1'', \<lparr>u_n = 2, u_reset = None\<rparr>)]\<rparr>"

lemma demo_run:
  "wb_run pg_writer (New_Writer, Idle, down_pg)
     [LServed ''k1'', LInternal, LServed ''k1'', LInternal, LInternal] (requeued, Idle, demo_pg)"
proof -
  let ?u = "\<lparr>u_n = 1, u_reset = None\<rparr>"
  let ?w = "New_Writer\<lparr>w_usage := [(''k1'', ?u)]\<rparr>"
  have served: "Served ''k1'' New_Writer = ?w" by (simp add: Served_def New_Writer_def)
  have "wb_step pg_writer (New_Writer, Idle, down_pg) (LServed ''k1'') (?w, Idle, down_pg)"
    using wb_step.served [of pg_writer New_Writer Idle down_pg "''k1''"] by (simp add: served)
  moreover have "wb_step pg_writer (?w, Idle, down_pg) LInternal
      (New_Writer, Sending [(''k1'', ?u)] [], down_pg)"
    using wb_step.take [of "[(''k1'', ?u)]" ?w pg_writer down_pg] by (simp add: New_Writer_def)
  moreover have "wb_step pg_writer (New_Writer, Sending [(''k1'', ?u)] [], down_pg) (LServed ''k1'')
      (?w, Sending [(''k1'', ?u)] [], down_pg)"
    using wb_step.served [of pg_writer New_Writer "Sending [(''k1'', ?u)] []" down_pg "''k1''"]
    by (simp add: served)
  moreover have "send_usage pg_writer ''k1'' ?u down_pg = (demo_pg, Some (ErrOther ''down''))"
    by (simp add: send_usage_def pg_writer_def AddUsage_def ignore_rows_def dbind_def exec_def call_def
        err_of_def down_pg_def demo_defs)
  then have "wb_step pg_writer (?w, Sending [(''k1'', ?u)] [], down_pg) LInternal
      (requeueUsage ''k1'' ?u ?w, Sending [] [], demo_pg)"
    by (rule wb_step.failed)
  then have "wb_step pg_writer (?w, Sending [(''k1'', ?u)] [], down_pg) LInternal
      (requeued, Sending [] [], demo_pg)"
    by (simp add: requeueUsage_def requeued_def New_Writer_def)
  moreover have "wb_step pg_writer (requeued, Sending [] [], demo_pg) LInternal (requeued, Idle, demo_pg)"
    by (rule wb_step.finish) (simp add: flush_events_def)
  ultimately show ?thesis by (blast intro: wb_run.intros)
qed

theorem writeback_refines_ledger_witness:
  "map_option (pending requeued ''k1'') (usage_in demo_pg ''k1'') = Some (2, None)"
proof -
  have "audit_in down_pg = map stored_event []"
    by (simp add: audit_in_def down_pg_def demo_defs)
  from writeback_refines_ledger [OF demo_run this refl, of "''k1''"] show ?thesis
    by (simp add: inflight_Nil usage_in_def key_row_of_def counted_in_def down_pg_def demo_defs)
qed

lemma demo_entries_fit: "entries_fit demo_pg (w_usage requeued)"
  by (simp add: entries_fit_def requeued_def apply_usage_def counted_in_def int32_def demo_defs)

lemma wf_requeued: "wf_map (w_usage requeued)"
  by (simp add: requeued_def wf_map_def)

theorem Flush_empties_queue_witness:
  "w_usage (fst (Flush pg_writer rev requeued demo_pg)) = []
   \<and> usage_in (snd (Flush pg_writer rev requeued demo_pg)) ''k1'' = Some (2, None)"
proof -
  have "pg_faults demo_pg = []" "distinct (map ur_id (pg_usage_events demo_pg) @ map ue_ID (w_events requeued))"
    by (simp_all add: demo_defs requeued_def New_Writer_def)
  from Flush_empties_queue [OF this(1) demo_schema_ok wf_requeued demo_entries_fit this(2) mset_rev
      prod.collapse [symmetric], of "''k1''"]
  show ?thesis
    by (simp add: pending_def apply_usage_def requeued_def usage_in_def key_row_of_def counted_in_def
        demo_defs)
qed

section \<open>The database\<close>

definition budget_pg :: pg where
  "budget_pg = demo_pg\<lparr>pg_keys := [(demo_row ''k1'' None)\<lparr>kr_budget_amount := Some (Fin 10),
     kr_budget_unit := Some ''usd'', kr_spent := Fin 2, kr_spent_period_start := Some 0\<rparr>]\<rparr>"

lemma budget_pg_facts:
  "pg_faults budget_pg = []" "schema_ok budget_pg"
  "key_row_of budget_pg ''k1'' = Some ((demo_row ''k1'' None)\<lparr>kr_budget_amount := Some (Fin 10),
     kr_budget_unit := Some ''usd'', kr_spent := Fin 2, kr_spent_period_start := Some 0\<rparr>)"
  by (simp_all add: budget_pg_def demo_defs schema_defs refers_def key_row_ok_def int32_def key_row_of_def)

theorem RecordSpend_retry_witness:
  "case RecordSpend_db (demo_spend ''e1'' ''r1'') (Some 0) budget_pg of (s1, a) \<Rightarrow>
   case RecordSpend_db (demo_spend ''e2'' ''r1'') (Some 0) s1 of (s2, b) \<Rightarrow>
     a = Inr (Fin 5, False) \<and> b = Inr (Fin 5, True) \<and> tables s2 = tables s1"
proof -
  obtain s1 a where a: "RecordSpend_db (demo_spend ''e1'' ''r1'') (Some 0) budget_pg = (s1, a)" by fastforce
  obtain s2 b where b: "RecordSpend_db (demo_spend ''e2'' ''r1'') (Some 0) s1 = (s2, b)" by fastforce
  have "snd (RecordSpend_db (demo_spend ''e1'' ''r1'') (Some 0) budget_pg) = Inr (Fin 5, False)"
    "\<not> isl (snd (RecordSpend_db (demo_spend ''e2'' ''r1'') (Some 0)
        (fst (RecordSpend_db (demo_spend ''e1'' ''r1'') (Some 0) budget_pg))))"
    by code_simp+
  with a b have r: "a = Inr (Fin 5, False)" "\<not> isl b" by simp_all
  then obtain x d where x: "b = Inr (x, d)" by (cases b) auto
  from RecordSpend_retry [OF a [unfolded r(1)] _ _ b [unfolded x]] a b r x show ?thesis
    by (simp add: demo_spend_def)
qed

theorem reports_total_witness:
  "\<exists>r. key_row_of (fst (reports [(demo_spend ''e1'' ''r1'', Some 0), (demo_spend ''e2'' ''r1'', Some 0),
       (demo_spend ''e3'' ''r2'', Some Second), (demo_spend ''e4'' ''r3'', Some Second)] budget_pg)) ''k1'' = Some r
     \<and> kr_spent r = Fin 6 \<and> kr_spent_period_start r = Some Second"
proof -
  let ?es = "[(demo_spend ''e1'' ''r1'', Some 0), (demo_spend ''e2'' ''r1'', Some 0),
       (demo_spend ''e3'' ''r2'', Some Second), (demo_spend ''e4'' ''r3'', Some Second)]"
  have "list_all (\<lambda>x. is_f64 (se_Amount (fst x))) ?es"
    "spent_after (Fin 2, Some 0) (amounts_of ''k1'' (counting (requests budget_pg) ?es (snd (reports ?es budget_pg))))
       = (Fin 6, Some Second)"
    by code_simp+
  then show ?thesis
    using reports_total [OF prod.collapse [symmetric] _ budget_pg_facts(3), of ?es]
    by (auto simp: list_all_iff Let_def demo_defs)
qed

theorem UpdateKeyBudget_effect_witness:
  "\<exists>s'. UpdateKeyBudget ''k1'' (Some \<lparr>b_Amount = Fin 7, b_Unit = ''credits'', b_ResetDay = None\<rparr>) budget_pg
      = (s', Inr ()) \<and> map_option kr_spent (key_row_of s' ''k1'') = Some 0"
  using UpdateKeyBudget_effect [OF budget_pg_facts(1,3,2),
      of "Some \<lparr>b_Amount = Fin 7, b_Unit = ''credits'', b_ResetDay = None\<rparr>"]
  by auto

theorem DeleteTier_outcome_witness:
  "snd (DeleteTier ''t1'' demo_pg) = Inl ErrTierInUse \<and> fst (DeleteTier ''t1'' demo_pg) = demo_pg"
proof -
  have "pg_faults demo_pg = []" by (simp add: demo_defs)
  from DeleteTier_outcome [OF this, of "''t1''"] show ?thesis
    by (auto simp: demo_defs split: prod.splits)
qed

theorem CreateKey_roundtrip_witness:
  "as_stored 0 demo_new_key \<in> set (projr (snd (GetAllKeys demo_codec
     (fst (CreateKey demo_codec demo_new_key [\<lparr>ks_KeyID = [], ks_Name = ''user'', ks_Value = ''u''\<rparr>] demo_pg)))))"
proof -
  let ?xs = "[\<lparr>ks_KeyID = [], ks_Name = ''user'', ks_Value = ''u''\<rparr>]"
  obtain s1 a where a: "CreateKey demo_codec demo_new_key ?xs demo_pg = (s1, a)" by fastforce
  obtain s2 b where b: "GetAllKeys demo_codec s1 = (s2, b)" by fastforce
  obtain s3 c where c: "KeySecretsByKey s1 = (s3, c)" by fastforce
  have "snd (CreateKey demo_codec demo_new_key ?xs demo_pg) = Inr ()"
    "\<not> isl (snd (GetAllKeys demo_codec (fst (CreateKey demo_codec demo_new_key ?xs demo_pg))))"
    "\<not> isl (snd (KeySecretsByKey (fst (CreateKey demo_codec demo_new_key ?xs demo_pg))))"
    by code_simp+
  with a b c have r: "a = Inr ()" "\<not> isl b" "\<not> isl c" by simp_all
  then obtain ks byKey where ks: "b = Inr ks" "c = Inr byKey" by (cases b; cases c) auto
  from CreateKey_roundtrip [OF a [unfolded r(1)] _ demo_schema_ok b [unfolded ks(1)] c [unfolded ks(2)]]
  show ?thesis using a b ks by (simp add: demo_codec_def demo_new_key_def demo_pg_def empty_pg_def)
qed

section \<open>The pool over the database\<close>

theorem pool_invariant_witness:
  "\<exists>m s. NewManager (pg_pool demo_codec) plain_sealer New_Writer demo_pg = (s, Inr m)
     \<and> (case pool_run (pg_pool demo_codec)
          [ODraw (\<lambda>_. now0) ''search'' None, OReload, OExhaust ''k1'' now0] (m, s) of
          (m', s') \<Rightarrow> pool_ok m' \<and> (\<forall>k\<in>set (m_keys m'). 0 \<le> pk_UsageCount k))"
proof -
  obtain s a where a: "NewManager (pg_pool demo_codec) plain_sealer New_Writer demo_pg = (s, a)" by fastforce
  have "\<not> isl (snd (NewManager (pg_pool demo_codec) plain_sealer New_Writer demo_pg))" by code_simp
  with a obtain m where m: "a = Inr m" by (cases a) auto
  have "\<forall>r\<in>set (pg_keys demo_pg). 0 \<le> kr_usage_count r" by (simp add: demo_defs)
  with pool_invariant [OF demo_schema_ok a [unfolded m]] a m show ?thesis by (auto split: prod.split)
qed

theorem ReloadKeys_reflects_database_witness:
  "list_all2 (\<lambda>r k. mirrors demo_codec plain_sealer demo_pg r k \<and> counters_from demo_pool r k)
     [demo_row ''k1'' (Some 3), demo_row ''k2'' None]
     (m_keys (fst (ReloadKeys (pg_pool demo_codec) demo_pool demo_pg)))"
proof -
  obtain m s e where r: "ReloadKeys (pg_pool demo_codec) demo_pool demo_pg = (m, s, e)"
    by (metis prod_cases3)
  have "snd (snd (ReloadKeys (pg_pool demo_codec) demo_pool demo_pg)) = None" by code_simp
  moreover have "filter (\<lambda>r. kr_tier_id r \<in> tf_TierID ` set (pg_tier_features demo_pg))
      (sort_key kr_created_at (pg_keys demo_pg)) = [demo_row ''k1'' (Some 3), demo_row ''k2'' None]"
    "m_sealer demo_pool = plain_sealer"
    by (simp_all add: demo_defs)
  ultimately show ?thesis using ReloadKeys_reflects_database [OF demo_schema_ok demo_pool_ok r] r by simp
qed

end
