(* ===== verification/Balances.thy ===== *)
theory Balances
  imports Reload
begin

text \<open>
  \<open>internal/balance\<close>: asking the providers what a key has used of its limit, and benching the
  keys that are spent. What the network answers, the decoders of the three bodies, the clock and
  whether the context is done are fields of a \<open>syncenv\<close>, each given the number of the check
  it is read in. The interface \<open>Pool\<close> is the record \<open>BPool\<close>; what the syncer relies on is the
  locale \<open>balance_pool\<close>, discharged by the key pool over the database.
\<close>

section \<open>Providers\<close>

definition firecrawlBase :: string where "firecrawlBase = ''https://api.firecrawl.dev''"
definition firecrawlPath :: string where "firecrawlPath = ''/v1/team/credit-usage''"
definition tavilyBase :: string where "tavilyBase = ''https://api.tavily.com''"
definition tavilyPath :: string where "tavilyPath = ''/usage''"
definition apifyBase :: string where "apifyBase = ''https://api.apify.com''"
definition apifyPath :: string where "apifyPath = ''/v2/users/me/limits''"
definition bearerPrefix :: string where "bearerPrefix = ''Bearer ''"

text \<open>Every error of a check is \<open>ErrProvider\<close> with its reason.\<close>

datatype provider_reason = NotAnswered string | HTTPStatus nat | NotDecoded string
datatype providererr = ErrProvider provider_reason

record firecrawlBody =
  fc_Remaining :: f64
  fc_Plan :: f64
  fc_PeriodEnd :: "time option"

record tavilyBody =
  ty_KeyUsage :: f64
  ty_KeyLimit :: "f64 option"
  ty_AccountUsage :: f64
  ty_AccountLimit :: f64

record apifyBody =
  ap_EndAt :: "time option"
  ap_MaxUSD :: f64
  ap_UsedUSD :: f64

record syncenv =
  sy_http :: "nat \<Rightarrow> string \<Rightarrow> string \<Rightarrow> string + (nat \<times> string)"
  sy_now :: "nat \<Rightarrow> time"
  sy_done :: "nat \<Rightarrow> bool"
  sy_firecrawl :: "string \<Rightarrow> string + firecrawlBody"
  sy_tavily :: "string \<Rightarrow> string + tavilyBody"
  sy_apify :: "string \<Rightarrow> string + apifyBody"

definition getJSON :: "(string \<Rightarrow> string \<Rightarrow> string + (nat \<times> string)) \<Rightarrow> (string \<Rightarrow> string + 'b)
    \<Rightarrow> string \<Rightarrow> string \<Rightarrow> providererr + 'b" where
  "getJSON client decode url apiKey =
     (case client url (bearerPrefix @ apiKey) of
        Inl err \<Rightarrow> Inl (ErrProvider (NotAnswered err))
      | Inr (status, body) \<Rightarrow>
          (if status \<noteq> 200 then Inl (ErrProvider (HTTPStatus status))
           else case decode body of
                  Inl err \<Rightarrow> Inl (ErrProvider (NotDecoded err))
                | Inr dst \<Rightarrow> Inr dst))"

type_synonym source = "syncenv \<Rightarrow> nat \<Rightarrow> string \<Rightarrow> providererr + Balance"

definition Firecrawl_Check :: "string \<Rightarrow> source" where
  "Firecrawl_Check base W n apiKey =
     ebind (getJSON (sy_http W n) (sy_firecrawl W) (base @ firecrawlPath) apiKey) (\<lambda>d.
       Inr \<lparr>bal_Used = fmax (fc_Plan d - fc_Remaining d) 0, bal_Limit = fc_Plan d,
            bal_Unit = UnitCredits, bal_ResetsAt = fc_PeriodEnd d, bal_CheckedAt = zeroTime\<rparr>)"

definition Tavily_Check :: "string \<Rightarrow> source" where
  "Tavily_Check base W n apiKey =
     ebind (getJSON (sy_http W n) (sy_tavily W) (base @ tavilyPath) apiKey) (\<lambda>body.
       case ty_KeyLimit body of
         Some limit \<Rightarrow>
           Inr \<lparr>bal_Used = ty_KeyUsage body, bal_Limit = limit, bal_Unit = UnitCredits,
                bal_ResetsAt = None, bal_CheckedAt = zeroTime\<rparr>
       | None \<Rightarrow>
           Inr \<lparr>bal_Used = ty_AccountUsage body, bal_Limit = ty_AccountLimit body,
                bal_Unit = UnitCredits, bal_ResetsAt = None, bal_CheckedAt = zeroTime\<rparr>)"

definition Apify_Check :: "string \<Rightarrow> source" where
  "Apify_Check base W n apiKey =
     ebind (getJSON (sy_http W n) (sy_apify W) (base @ apifyPath) apiKey) (\<lambda>d.
       Inr \<lparr>bal_Used = ap_UsedUSD d, bal_Limit = ap_MaxUSD d, bal_Unit = UnitUSD,
            bal_ResetsAt = ap_EndAt d, bal_CheckedAt = zeroTime\<rparr>)"

definition Sources :: "(string, source) gomap" where
  "Sources = [(''firecrawl_scrape'', Firecrawl_Check firecrawlBase),
     (''tavily_search'', Tavily_Check tavilyBase), (''apify_actor'', Apify_Check apifyBase)]"

section \<open>The syncer\<close>

record 's BPool =
  bp_Holding :: "string \<Rightarrow> 's \<Rightarrow> Held list"
  bp_SetBalance :: "string \<Rightarrow> Balance \<Rightarrow> 's \<Rightarrow> 's"
  bp_MarkExhausted :: "string \<Rightarrow> time \<Rightarrow> 's \<Rightarrow> 's \<times> bool"

text \<open>Until when a spent key is benched.\<close>

definition bench_until :: "duration \<Rightarrow> time \<Rightarrow> Balance \<Rightarrow> time" where
  "bench_until period now b = (case bal_ResetsAt b of None \<Rightarrow> now + period | Some t \<Rightarrow> t)"

definition check :: "'s BPool \<Rightarrow> duration \<Rightarrow> syncenv \<Rightarrow> nat \<Rightarrow> source \<Rightarrow> Held \<Rightarrow> 's \<Rightarrow> 's" where
  "check bp period W n source key s =
     (case source W n (held_KeyValue key) of
        Inl err \<Rightarrow> s
      | Inr b \<Rightarrow>
          (let now = sy_now W n;
               b = b\<lparr>bal_CheckedAt := now\<rparr>;
               s = bp_SetBalance bp (held_ID key) b s
           in if \<not> Balance_Spent b then s
              else fst (bp_MarkExhausted bp (held_ID key) (bench_until period now b) s)))"

text \<open>
  The two loops of \<open>sync\<close>; the results are the number of checks made, whether the context was
  found done, and the state. The list of sources is in the order Go iterates over the map.
\<close>

fun sync_keys :: "'s BPool \<Rightarrow> duration \<Rightarrow> syncenv \<Rightarrow> source \<Rightarrow> Held list \<Rightarrow> nat \<Rightarrow> 's
    \<Rightarrow> nat \<times> bool \<times> 's" where
  "sync_keys bp period W source [] n s = (n, False, s)"
| "sync_keys bp period W source (key # keys) n s =
     (if sy_done W n then (n, True, s)
      else sync_keys bp period W source keys (Suc n) (check bp period W n source key s))"

fun sync_sources :: "'s BPool \<Rightarrow> duration \<Rightarrow> syncenv \<Rightarrow> (string \<times> source) list \<Rightarrow> nat \<Rightarrow> 's
    \<Rightarrow> nat \<times> bool \<times> 's" where
  "sync_sources bp period W [] n s = (n, False, s)"
| "sync_sources bp period W ((feature, source) # rest) n s =
     (case sync_keys bp period W source (bp_Holding bp feature s) n s of
        (n, True, s) \<Rightarrow> (n, True, s)
      | (n, False, s) \<Rightarrow> sync_sources bp period W rest n s)"

definition sync :: "'s BPool \<Rightarrow> duration \<Rightarrow> (string \<times> source) list \<Rightarrow> syncenv \<Rightarrow> 's \<Rightarrow> 's" where
  "sync bp period sources W s = snd (snd (sync_sources bp period W sources 0 s))"

text \<open>
  \<open>Run\<close>: a sync at the start and after every tick, until a \<open>select\<close> finds the context done.
  Every sync has its own readings; \<open>None\<close> is a loop that has not been stopped yet.
\<close>

fun Run_sync :: "'s BPool \<Rightarrow> duration \<Rightarrow> (string \<times> source) list \<Rightarrow> (syncenv \<times> wakeup) list \<Rightarrow> 's
    \<Rightarrow> 's option" where
  "Run_sync bp period sources [] s = None"
| "Run_sync bp period sources ((W, Tick) # rest) s =
     Run_sync bp period sources rest (sync bp period sources W s)"
| "Run_sync bp period sources ((W, Done) # rest) s = Some (sync bp period sources W s)"

section \<open>What the syncer relies on\<close>

locale balance_pool =
  fixes bp :: "'s BPool" and good :: "'s \<Rightarrow> bool" and known :: "'s \<Rightarrow> string \<Rightarrow> bool"
    and balance_in :: "'s \<Rightarrow> string \<Rightarrow> Balance option" and benched :: "'s \<Rightarrow> string \<Rightarrow> time option"
  assumes Holding_known: "good s \<Longrightarrow> key \<in> set (bp_Holding bp f s) \<Longrightarrow> known s (held_ID key)"
    and SetBalance_law: "good s \<Longrightarrow> known s i \<Longrightarrow>
      good (bp_SetBalance bp i b s) \<and> known (bp_SetBalance bp i b s) = known s
      \<and> bp_Holding bp f (bp_SetBalance bp i b s) = bp_Holding bp f s
      \<and> balance_in (bp_SetBalance bp i b s) = (balance_in s)(i := Some b)
      \<and> benched (bp_SetBalance bp i b s) = benched s"
    and MarkExhausted_law: "good s \<Longrightarrow> known s i \<Longrightarrow> bp_MarkExhausted bp i t s = (s', ok) \<Longrightarrow>
      ok \<and> good s' \<and> known s' = known s \<and> bp_Holding bp f s' = bp_Holding bp f s
      \<and> balance_in s' = balance_in s \<and> benched s' = (benched s)(i := Some t)"
begin

lemma check_law:
  assumes "good s" "known s (held_ID key)"
  shows "good (check bp p W n src key s) \<and> known (check bp p W n src key s) = known s
    \<and> bp_Holding bp f (check bp p W n src key s) = bp_Holding bp f s"
    and "balance_in (check bp p W n src key s) = (case src W n (held_KeyValue key) of
        Inl err \<Rightarrow> balance_in s
      | Inr b \<Rightarrow> (balance_in s)(held_ID key := Some (b\<lparr>bal_CheckedAt := sy_now W n\<rparr>)))"
    and "benched (check bp p W n src key s) = (case src W n (held_KeyValue key) of
        Inl err \<Rightarrow> benched s
      | Inr b \<Rightarrow> if Balance_Spent b then (benched s)(held_ID key := Some (bench_until p (sy_now W n) b))
                 else benched s)"
proof -
  have "(good (check bp p W n src key s) \<and> known (check bp p W n src key s) = known s
    \<and> bp_Holding bp f (check bp p W n src key s) = bp_Holding bp f s) \<and>
    balance_in (check bp p W n src key s) = (case src W n (held_KeyValue key) of
        Inl err \<Rightarrow> balance_in s
      | Inr b \<Rightarrow> (balance_in s)(held_ID key := Some (b\<lparr>bal_CheckedAt := sy_now W n\<rparr>))) \<and>
    benched (check bp p W n src key s) = (case src W n (held_KeyValue key) of
        Inl err \<Rightarrow> benched s
      | Inr b \<Rightarrow> if Balance_Spent b then (benched s)(held_ID key := Some (bench_until p (sy_now W n) b))
                 else benched s)"
  proof (cases "src W n (held_KeyValue key)")
    case (Inl err)
    with assms show ?thesis by (simp add: check_def)
  next
    case (Inr b)
    let ?b = "b\<lparr>bal_CheckedAt := sy_now W n\<rparr>"
    define s1 where "s1 = bp_SetBalance bp (held_ID key) ?b s"
    note l1 = SetBalance_law [OF assms, of ?b, folded s1_def]
    obtain s2 ok where m: "bp_MarkExhausted bp (held_ID key) (bench_until p (sy_now W n) ?b) s1 = (s2, ok)"
      by fastforce
    have "good s1" "known s1 (held_ID key)" using l1 assms(2) by simp_all
    note l2 = MarkExhausted_law [OF this m]
    show ?thesis
      using l1 l2 Inr m
      by (simp add: check_def Let_def s1_def Balance_Spent_def bench_until_def)
  qed
  then show "good (check bp p W n src key s) \<and> known (check bp p W n src key s) = known s
    \<and> bp_Holding bp f (check bp p W n src key s) = bp_Holding bp f s"
    "balance_in (check bp p W n src key s) = (case src W n (held_KeyValue key) of
        Inl err \<Rightarrow> balance_in s
      | Inr b \<Rightarrow> (balance_in s)(held_ID key := Some (b\<lparr>bal_CheckedAt := sy_now W n\<rparr>)))"
    "benched (check bp p W n src key s) = (case src W n (held_KeyValue key) of
        Inl err \<Rightarrow> benched s
      | Inr b \<Rightarrow> if Balance_Spent b then (benched s)(held_ID key := Some (bench_until p (sy_now W n) b))
                 else benched s)"
    by blast+
qed

text \<open>
  A key was found spent in a sync from \<open>s\<close>: one of its checks, for a feature it is held under,
  was answered with a spent balance that benches it until \<open>t\<close>.
\<close>

definition found_spent ::
  "duration \<Rightarrow> syncenv \<Rightarrow> (string \<times> source) list \<Rightarrow> 's \<Rightarrow> string \<Rightarrow> time \<Rightarrow> bool" where
  "found_spent p W sources s i t \<longleftrightarrow>
     (\<exists>f src key n b. (f, src) \<in> set sources \<and> key \<in> set (bp_Holding bp f s) \<and> held_ID key = i
        \<and> src W n (held_KeyValue key) = Inr b \<and> Balance_Spent b \<and> t = bench_until p (sy_now W n) b)"

definition benched_spent ::
  "duration \<Rightarrow> syncenv \<Rightarrow> (string \<times> source) list \<Rightarrow> 's \<Rightarrow> 's \<Rightarrow> string \<Rightarrow> bool" where
  "benched_spent p W sources s s1 i \<longleftrightarrow> (\<exists>t. benched s1 i = Some t \<and> found_spent p W sources s i t)"

text \<open>What a state in the middle of the sync still has of the first one.\<close>

definition syncing ::
  "duration \<Rightarrow> syncenv \<Rightarrow> (string \<times> source) list \<Rightarrow> 's \<Rightarrow> 's \<Rightarrow> bool" where
  "syncing p W sources s s1 \<longleftrightarrow> good s1 \<and> known s1 = known s \<and> (\<forall>f. bp_Holding bp f s1 = bp_Holding bp f s)
     \<and> (\<forall>i. benched s1 i = benched s i \<or> benched_spent p W sources s s1 i)"

lemma syncing_refl: "good s \<Longrightarrow> syncing p W sources s s"
  by (simp add: syncing_def)

lemma syncing_check:
  assumes "syncing p W sources s s1" "(f, src) \<in> set sources" "key \<in> set (bp_Holding bp f s)"
  shows "syncing p W sources s (check bp p W n src key s1)"
    and "benched_spent p W sources s s1 i \<Longrightarrow>
      benched_spent p W sources s (check bp p W n src key s1) i"
    and "src W n (held_KeyValue key) = Inr b \<Longrightarrow> Balance_Spent b \<Longrightarrow>
      benched_spent p W sources s (check bp p W n src key s1) (held_ID key)"
proof -
  have s1: "good s1" "known s1 (held_ID key)" "known s1 = known s" "bp_Holding bp g s1 = bp_Holding bp g s" for g
    using assms(1,3) Holding_known [of s1 key f] by (auto simp: syncing_def)
  note l = check_law [OF s1(1,2), of p W n src]
  have found: "found_spent p W sources s (held_ID key) (bench_until p (sy_now W n) b)"
    if "src W n (held_KeyValue key) = Inr b" "Balance_Spent b" for b
    using assms(2,3) that unfolding found_spent_def by blast
  show "syncing p W sources s (check bp p W n src key s1)"
    using assms(1) l(1) s1(3,4) found unfolding syncing_def benched_spent_def l(3)
    by (auto split: sum.split)
  show "benched_spent p W sources s (check bp p W n src key s1) i"
    if "benched_spent p W sources s s1 i"
    using that found unfolding benched_spent_def l(3) by (auto split: sum.split)
  show "benched_spent p W sources s (check bp p W n src key s1) (held_ID key)"
    if "src W n (held_KeyValue key) = Inr b" "Balance_Spent b" for b
    using that found unfolding benched_spent_def l(3) by simp
qed

lemma sync_keys_law:
  assumes "syncing p W sources s s1" "(f, src) \<in> set sources" "set keys \<subseteq> set (bp_Holding bp f s)"
    and "sync_keys bp p W src keys n s1 = (n', stopped, s2)"
  shows "syncing p W sources s s2"
    and "\<forall>i. benched_spent p W sources s s1 i \<longrightarrow> benched_spent p W sources s s2 i"
    and "(\<And>n. \<not> sy_done W n) \<Longrightarrow> \<not> stopped \<and> (\<forall>key\<in>set keys.
      (\<forall>n. \<exists>b. src W n (held_KeyValue key) = Inr b \<and> Balance_Spent b) \<longrightarrow>
      benched_spent p W sources s s2 (held_ID key))"
  using assms
proof (induction keys arbitrary: n s1)
  case (Cons key keys)
  {
    case 1
    with Cons.IH(1) syncing_check(1) [OF 1(1,2), where key = key and n = n] show ?case
      by (auto split: if_splits)
  next
    case 2
    with Cons.IH(2) syncing_check(1,2) [OF 2(1,2), where key = key and n = n] show ?case
      by (auto split: if_splits)
  next
    case 3
    let ?s = "check bp p W n src key s1"
    have go: "sync_keys bp p W src keys (Suc n) ?s = (n', stopped, s2)" using 3(1,5) by simp
    have sub: "set keys \<subseteq> set (bp_Holding bp f s)" and key: "key \<in> set (bp_Holding bp f s)"
      using 3(4) by simp_all
    note c = syncing_check [OF 3(2,3) key, where n = n]
    have first: "benched_spent p W sources s s2 (held_ID key)"
      if spent: "\<forall>n. \<exists>b. src W n (held_KeyValue key) = Inr b \<and> Balance_Spent b"
    proof -
      from spent obtain b where "src W n (held_KeyValue key) = Inr b" "Balance_Spent b" by blast
      from Cons.IH(2) [OF c(1) 3(3) sub go] c(3) [OF this] show ?thesis by blast
    qed
    with Cons.IH(3) [OF 3(1) c(1) 3(3) sub go] show ?case by auto
  }
qed simp_all

lemma sync_sources_law:
  assumes "syncing p W sources s s1" "set rest \<subseteq> set sources"
    and "sync_sources bp p W rest n s1 = (n', stopped, s2)"
  shows "syncing p W sources s s2
    \<and> (\<forall>i. benched_spent p W sources s s1 i \<longrightarrow> benched_spent p W sources s s2 i)
    \<and> ((\<forall>n. \<not> sy_done W n) \<longrightarrow> (\<forall>(f, src)\<in>set rest. \<forall>key\<in>set (bp_Holding bp f s).
      (\<forall>n. \<exists>b. src W n (held_KeyValue key) = Inr b \<and> Balance_Spent b) \<longrightarrow>
      benched_spent p W sources s s2 (held_ID key)))"
  using assms
proof (induction rest arbitrary: n s1)
  case (Cons x rest)
  obtain g src' where x: "x = (g, src')" by (cases x)
  obtain n1 st s3 where k: "sync_keys bp p W src' (bp_Holding bp g s1) n s1 = (n1, st, s3)"
    by (metis prod.collapse)
  have g: "(g, src') \<in> set sources" "bp_Holding bp g s1 = bp_Holding bp g s" "set rest \<subseteq> set sources"
    using Cons.prems(1,2) by (auto simp: x syncing_def)
  note first = sync_keys_law [OF Cons.prems(1) g(1) _ k, unfolded g(2), OF subset_refl]
  show ?case
  proof (cases st)
    case True
    with k Cons.prems(3) have "s2 = s3" by (simp add: x)
    with first True show ?thesis by auto
  next
    case False
    with k Cons.prems(3) have go: "sync_sources bp p W rest n1 s3 = (n', stopped, s2)" by (simp add: x)
    from Cons.IH [OF first(1) g(3) go] first(2,3) show ?thesis by (auto simp: x)
  qed
qed simp

text \<open>
  A sync benches only keys it found spent, and, unless it is stopped, every key whose provider
  says it is spent.
\<close>

lemma sync_law:
  assumes "good s"
  shows "good (sync bp p sources W s)" "known (sync bp p sources W s) = known s"
    and "benched (sync bp p sources W s) i = benched s i
      \<or> (\<exists>t. benched (sync bp p sources W s) i = Some t \<and> found_spent p W sources s i t)"
    and "(\<And>n. \<not> sy_done W n) \<Longrightarrow> (f, src) \<in> set sources \<Longrightarrow> key \<in> set (bp_Holding bp f s) \<Longrightarrow>
      \<forall>n. \<exists>b. src W n (held_KeyValue key) = Inr b \<and> Balance_Spent b \<Longrightarrow>
      \<exists>t. benched (sync bp p sources W s) (held_ID key) = Some t
        \<and> found_spent p W sources s (held_ID key) t"
proof -
  obtain n stopped s2 where r: "sync_sources bp p W sources 0 s = (n, stopped, s2)"
    by (metis prod.collapse)
  note l = sync_sources_law [OF syncing_refl [OF assms] subset_refl r]
  have e: "sync bp p sources W s = s2" using r by (simp add: sync_def)
  show "good (sync bp p sources W s)" "known (sync bp p sources W s) = known s"
    "benched (sync bp p sources W s) i = benched s i
      \<or> (\<exists>t. benched (sync bp p sources W s) i = Some t \<and> found_spent p W sources s i t)"
    using l by (auto simp: e syncing_def benched_spent_def)
  show "\<exists>t. benched (sync bp p sources W s) (held_ID key) = Some t
        \<and> found_spent p W sources s (held_ID key) t"
    if "\<And>n. \<not> sy_done W n" "(f, src) \<in> set sources" "key \<in> set (bp_Holding bp f s)"
      "\<forall>n. \<exists>b. src W n (held_KeyValue key) = Inr b \<and> Balance_Spent b"
    using l that by (fastforce simp: e benched_spent_def)
qed

end

section \<open>The key pool as the pool of the syncer\<close>

definition mgr_pool :: "json_codec \<Rightarrow> (Manager \<times> pg) BPool" where
  "mgr_pool codec = \<lparr>bp_Holding = (\<lambda>f x. Holding f (fst x)),
     bp_SetBalance = (\<lambda>i b x. (SetBalance i b (fst x), snd x)),
     bp_MarkExhausted = (\<lambda>i t x. case MarkExhausted (pg_pool codec) i t (fst x) (snd x) of
       (m, d, ok) \<Rightarrow> ((m, d), ok))\<rparr>"

text \<open>What the pool holds of the key with a given id.\<close>

definition key_of :: "Manager \<Rightarrow> string \<Rightarrow> PoolKey option" where
  "key_of m i = map_option (\<lambda>a. m_keys m ! a) (find_key i m)"

definition bench_of :: "Manager \<Rightarrow> string \<Rightarrow> time option" where
  "bench_of m i = Option.bind (key_of m i) pk_ExhaustedUntil"

definition balance_of :: "Manager \<Rightarrow> string \<Rightarrow> Balance option" where
  "balance_of m i = Option.bind (key_of m i) pk_Balance"

lemma find_key_cong:
  assumes "map pk_ID (m_keys m') = map pk_ID (m_keys m)"
  shows "find_key i m' = find_key i m"
proof -
  have "map pk_ID ks' = map pk_ID ks \<Longrightarrow> find_from i n ks' = find_from i n ks" for n ks ks'
  proof (induction ks arbitrary: n ks')
    case (Cons k ks)
    then obtain k' ks1 where ks': "ks' = k' # ks1" "pk_ID k' = pk_ID k" "map pk_ID ks1 = map pk_ID ks"
      by (auto simp: map_eq_Cons_conv)
    with Cons.IH [OF ks'(3), of "Suc n"] show ?case by simp
  qed simp
  from this [OF assms] show ?thesis unfolding find_key_def .
qed

lemma key_of_set_key:
  assumes "distinct (map pk_ID (m_keys m))" "find_key i m = Some a" "pk_ID k = i"
  shows "key_of (set_key a k m) = (key_of m)(i := Some k)"
proof
  fix j
  note a = find_key_Some [OF assms(2)]
  have ids: "map pk_ID (m_keys (set_key a k m)) = map pk_ID (m_keys m)"
    using map_ID_update [of k "m_keys m" a] a(2) assms(3) by simp
  have "b \<noteq> a" if "find_key j m = Some b" "j \<noteq> i" for b
    using find_key_Some(2) [OF that(1)] that(2) a(2) by auto
  then show "key_of (set_key a k m) j = ((key_of m)(i := Some k)) j"
    using assms(2) a(1) by (cases "find_key j m") (auto simp: key_of_def find_key_cong [OF ids])
qed

lemma Holding_key:
  assumes "h \<in> set (Holding f m)" "distinct (map pk_ID (m_keys m))"
  shows "find_key (held_ID h) m \<noteq> None"
  using assms(1) by (auto simp: Holding_def List.map_filter_def find_key_None split: if_splits sum.splits)

lemma Holding_set_key:
  assumes "find_key i m = Some a" "pk_ID k = i" "pk_IsActive k = pk_IsActive (m_keys m ! a)"
    "pk_Features k = pk_Features (m_keys m ! a)" "pk_KeyValue k = pk_KeyValue (m_keys m ! a)"
  shows "Holding f (set_key a k m) = Holding f m"
proof -
  have eq: "List.map_filter g (ks[a := k]) = List.map_filter g ks"
    if "g k = g (ks ! a)" for ks and g :: "PoolKey \<Rightarrow> Held option"
    using that
  proof (induction ks arbitrary: a)
    case (Cons x xs)
    then show ?case by (cases a) (auto simp: map_filter_simps split: option.split)
  qed (simp add: map_filter_simps)
  show ?thesis
    unfolding Holding_def set_key_fields
    by (rule eq) (use assms find_key_Some(2) [OF assms(1)] in \<open>simp add: HasFeature_def split: sum.split\<close>)
qed

interpretation mp: balance_pool "mgr_pool codec" "\<lambda>x. pool_ok (fst x) \<and> schema_ok (snd x)"
    "\<lambda>x i. find_key i (fst x) \<noteq> None" "\<lambda>x. balance_of (fst x)" "\<lambda>x. bench_of (fst x)" for codec
proof unfold_locales
  fix x :: "Manager \<times> pg" and i f key b t x' ok
  obtain m d where x: "x = (m, d)" by (cases x)
  assume good: "pool_ok (fst x) \<and> schema_ok (snd x)"
  then have dist: "distinct (map pk_ID (m_keys m))" by (simp add: x pool_ok_def)
  show "find_key (held_ID key) (fst x) \<noteq> None" if "key \<in> set (bp_Holding (mgr_pool codec) f x)"
    using Holding_key that dist by (simp add: mgr_pool_def x)
  assume "find_key i (fst x) \<noteq> None"
  then obtain a where a: "find_key i m = Some a" by (auto simp: x)
  note fa = find_key_Some [OF a]
  have ids: "map pk_ID (m_keys (set_key a k m)) = map pk_ID (m_keys m)" if "pk_ID k = i" for k
    using map_ID_update [of k "m_keys m" a] fa(2) that by simp
  show "(pool_ok (fst (bp_SetBalance (mgr_pool codec) i b x))
      \<and> schema_ok (snd (bp_SetBalance (mgr_pool codec) i b x)))
    \<and> (\<lambda>j. find_key j (fst (bp_SetBalance (mgr_pool codec) i b x)) \<noteq> None) = (\<lambda>j. find_key j (fst x) \<noteq> None)
    \<and> bp_Holding (mgr_pool codec) f (bp_SetBalance (mgr_pool codec) i b x) = bp_Holding (mgr_pool codec) f x
    \<and> balance_of (fst (bp_SetBalance (mgr_pool codec) i b x)) = (balance_of (fst x))(i := Some b)
    \<and> bench_of (fst (bp_SetBalance (mgr_pool codec) i b x)) = bench_of (fst x)"
  proof -
    let ?k = "(m_keys m ! a)\<lparr>pk_Balance := Some b\<rparr>"
    have s: "SetBalance i b m = set_key a ?k m" by (simp add: SetBalance_def a)
    have k: "key_of (set_key a ?k m) = (key_of m)(i := Some ?k)"
      by (rule key_of_set_key [OF dist a]) (simp add: fa)
    show ?thesis
      using good pgp.SetBalance_ok [of m i b] Holding_set_key [OF a, of ?k f] fa
      by (auto simp: x mgr_pool_def s k find_key_cong [OF ids] balance_of_def bench_of_def key_of_def a
          fun_eq_iff)
  qed
  assume e: "bp_MarkExhausted (mgr_pool codec) i t x = (x', ok)"
  show "ok \<and> (pool_ok (fst x') \<and> schema_ok (snd x'))
    \<and> (\<lambda>j. find_key j (fst x') \<noteq> None) = (\<lambda>j. find_key j (fst x) \<noteq> None)
    \<and> bp_Holding (mgr_pool codec) f x' = bp_Holding (mgr_pool codec) f x
    \<and> balance_of (fst x') = balance_of (fst x) \<and> bench_of (fst x') = (bench_of (fst x))(i := Some t)"
  proof -
    let ?k = "(m_keys m ! a)\<lparr>pk_ExhaustedUntil := Some t\<rparr>"
    obtain m' d' where x': "x' = (m', d')" by (cases x')
    have mark: "MarkExhausted (pg_pool codec) i t m d = (m', d', ok)"
      using e by (simp add: x x' mgr_pool_def split: prod.splits)
    then have s: "m' = set_key a ?k m" "ok" by (simp_all add: MarkExhausted_def a)
    have k: "key_of (set_key a ?k m) = (key_of m)(i := Some ?k)"
      by (rule key_of_set_key [OF dist a]) (simp add: fa)
    show ?thesis
      using good pgp.MarkExhausted_ok [OF _ _ mark] Holding_set_key [OF a, of ?k f] fa
      by (auto simp: x x' mgr_pool_def s k find_key_cong [OF ids] balance_of_def bench_of_def key_of_def a
          fun_eq_iff)
  qed
qed

text \<open>
  A check of a sync from the pool \<open>m\<close>, for a feature the key is held under, was answered with a
  spent balance that benches the key until \<open>t\<close>.
\<close>

definition spent_answer :: "duration \<Rightarrow> syncenv \<Rightarrow> Manager \<Rightarrow> string \<Rightarrow> time \<Rightarrow> bool" where
  "spent_answer p W m i t \<longleftrightarrow>
     (\<exists>f src key n b. (f, src) \<in> set Sources \<and> key \<in> set (Holding f m) \<and> held_ID key = i
        \<and> src W n (held_KeyValue key) = Inr b \<and> Balance_Spent b \<and> t = bench_until p (sy_now W n) b)"

text \<open>
  C18. A balance sync benches exactly the spent keys: a key whose bench changed was answered with a
  spent balance for a feature it is held under, and is benched until the provider resets it or,
  when the provider does not say, for one period; and unless the sync is stopped, every key
  whose provider says it is spent ends benched like that. No sync breaks the pool or the tables.
\<close>

theorem sync_benches_spent_keys:
  assumes "pool_ok m" "schema_ok d" "sync (mgr_pool codec) p Sources W (m, d) = (m', d')"
  shows "pool_ok m' \<and> schema_ok d' \<and>
    (\<forall>i. bench_of m' i = bench_of m i \<or> (\<exists>t. bench_of m' i = Some t \<and> spent_answer p W m i t)) \<and>
    ((\<forall>n. \<not> sy_done W n) \<longrightarrow> (\<forall>(f, src)\<in>set Sources. \<forall>key\<in>set (Holding f m).
       (\<forall>n. \<exists>b. src W n (held_KeyValue key) = Inr b \<and> Balance_Spent b) \<longrightarrow>
       (\<exists>t. bench_of m' (held_ID key) = Some t \<and> spent_answer p W m (held_ID key) t)))"
proof -
  have good: "pool_ok (fst (m, d)) \<and> schema_ok (snd (m, d))" using assms(1,2) by simp
  have h: "bp_Holding (mgr_pool codec) f (m, d) = Holding f m" for f by (simp add: mgr_pool_def)
  have found: "mp.found_spent codec p W Sources (m, d) = spent_answer p W m"
    by (simp add: mp.found_spent_def spent_answer_def h fun_eq_iff)
  note l = mp.sync_law [where codec = codec, OF good, where p = p and sources = Sources and W = W,
      unfolded assms(3) found fst_conv snd_conv h]
  show ?thesis using l(1) l(3) l(4) by fast
qed

end
