(* ===== verification/Key_Rows.thy ===== *)
theory Key_Rows
  imports Reload Balances
begin

text \<open>
  What the calls to the database do to the row of one key: which columns they leave alone, and
  that the key's tier keeps a feature, so that every reload loads the key.
\<close>

section \<open>Columns a call leaves alone\<close>

definition lasting :: "key_row \<Rightarrow> int option \<times> int option \<times> string" where
  "lasting r = (kr_usage_limit r, kr_usage_window_seconds r, kr_tier_id r)"

text \<open>The row of key \<open>k\<close> is gone or still shows \<open>X\<close>; a key without a row gets none.\<close>

definition held :: "(key_row \<Rightarrow> 'a) \<Rightarrow> string \<Rightarrow> 'a option \<Rightarrow> pg \<Rightarrow> bool" where
  "held g k X d \<longleftrightarrow> key_row_of d k = None \<or> map_option g (key_row_of d k) = X"

lemma held_now: "held g k (map_option g (key_row_of d k)) d"
  by (simp add: held_def)

lemma same_tables_key_row: "tables d' = tables d \<Longrightarrow> key_row_of d' = key_row_of d"
  using tables_fields(3) [of d' d] by (simp add: key_row_of_def fun_eq_iff)

lemma faultless_held: "faultless (held g k X)"
  by (simp add: faultless_def held_def)

lemma held_same_keys: "pg_keys d' = pg_keys d \<Longrightarrow> held g k X d \<Longrightarrow> held g k X d'"
  by (simp add: held_def key_row_of_def)

lemma held_append:
  "pg_keys d' = pg_keys d @ [r] \<Longrightarrow> kr_id r \<noteq> k \<Longrightarrow> held g k X d \<Longrightarrow> held g k X d'"
proof -
  assume a: "pg_keys d' = pg_keys d @ [r]" "kr_id r \<noteq> k" "held g k X d"
  have "find P (rs @ [r]) = find P rs" if "\<not> P r" for rs P using that by (induction rs) auto
  with a show "held g k X d'" by (simp add: held_def key_row_of_def)
qed

lemma held_filter:
  "pg_keys d' = filter (\<lambda>r. kr_id r \<noteq> i) (pg_keys d) \<Longrightarrow> held g k X d \<Longrightarrow> held g k X d'"
proof -
  assume a: "pg_keys d' = filter (\<lambda>r. kr_id r \<noteq> i) (pg_keys d)" "held g k X d"
  have "find (\<lambda>r. kr_id r = k) (filter (\<lambda>r. kr_id r \<noteq> i) rs)
      = (if k = i then None else find (\<lambda>r. kr_id r = k) rs)" for rs
    by (induction rs) auto
  from this [of "pg_keys d"] a show "held g k X d'" by (cases "k = i") (simp_all add: held_def key_row_of_def)
qed

lemma held_update:
  assumes "pg_keys d' = map (\<lambda>r. if kr_id r = i then h r else r) (pg_keys d)"
    and "\<And>r. kr_id (h r) = kr_id r" "\<And>r. g (h r) = g r" "held g k X d"
  shows "held g k X d'"
proof -
  have "key_row_of d' k = map_option (\<lambda>r. if k = i then h r else r) (key_row_of d k)"
    unfolding key_row_of_def assms(1) by (rule find_update [OF assms(2)])
  with assms(3,4) show ?thesis by (cases "key_row_of d k") (auto simp: held_def)
qed

lemma keeps_held_exec:
  "(\<And>s s' a. stmt s = Inr (s', a) \<Longrightarrow> held g k X s \<Longrightarrow> held g k X s') \<Longrightarrow> keeps (held g k X) (exec stmt)"
  by (rule keeps_exec [OF faultless_held])

lemma keeps_held_keys:
  "(\<And>s s' a. stmt s = Inr (s', a) \<Longrightarrow> pg_keys s' = pg_keys s) \<Longrightarrow> keeps (held g k X) (exec stmt)"
  by (rule keeps_held_exec) (rule held_same_keys)

lemma keeps_held_update:
  assumes "\<And>r. kr_id (h r) = kr_id r" "\<And>r. g (h r) = g r"
  shows "keeps (held g k X) (exec (update_keys i h))"
    "keeps (held g k X) (exec (\<lambda>s. if c then update_keys i h s else Inl e))"
proof -
  have "held g k X s'" if "update_keys i h s = Inr (s', a)" "held g k X s" for s s' a
  proof (rule held_update [where h = h and i = i])
    show "pg_keys s' = map (\<lambda>r. if kr_id r = i then h r else r) (pg_keys s)"
      using that(1) by (auto simp: update_keys_def split: if_splits)
  qed (use that(2) assms in simp_all)
  then show "keeps (held g k X) (exec (update_keys i h))"
    "keeps (held g k X) (exec (\<lambda>s. if c then update_keys i h s else Inl e))"
    by (auto intro!: keeps_held_exec split: if_splits)
qed

lemmas keeps_held_intros = keeps_transaction [OF faultless_held] keeps_dbind keeps_dmap_err
  keeps_each keeps_dreturn keeps_draise

lemma keeps_held_tiers:
  "keeps (held g k X) (CreateTier t fs)" "keeps (held g k X) (SetTierFeatures i fs)"
  "keeps (held g k X) (DeleteTier i)" "keeps (held g k X) (UpdateTierDescription i desc)"
  unfolding CreateTier_def SetTierFeatures_def DeleteTier_def UpdateTierDescription_def insertTierFeatures_def
  by (auto intro!: keeps_held_intros keeps_held_keys
      simp: insert_tier_def insert_tier_feature_def delete_tier_def split: if_splits)

lemma keeps_held_consumers:
  "keeps (held g k X) (CreateConsumer c)" "keeps (held g k X) (DeleteConsumer i)"
  "keeps (held g k X) (AddConsumerScope i j)" "keeps (held g k X) (RecordUsageEvents es)"
proof -
  show "keeps (held g k X) (RecordUsageEvents es)"
    unfolding RecordUsageEvents_def
    by (auto intro!: keeps_held_intros keeps_held_keys simp: copy_events_def Let_def split: if_splits)
qed (unfold CreateConsumer_def DeleteConsumer_def AddConsumerScope_def,
    auto intro!: keeps_held_intros keeps_held_keys
      simp: insert_consumer_def delete_consumer_def split: if_splits)

lemma keeps_held_CreateKey:
  assumes "key_ID key \<noteq> k"
  shows "keeps (held g k X) (CreateKey codec key xs)"
proof -
  have "kr_id (row_of_key metadata now key) = key_ID key" for metadata now
    by (simp add: row_of_key_def split: prod.split)
  then have "keeps (held g k X) (exec (insert_key metadata key))" for metadata
    by (intro keeps_held_exec)
      (use assms in \<open>auto simp: insert_key_def Let_def split: if_splits intro: held_append\<close>)
  moreover have "keeps (held g k X) (exec (insert_secret i x))" for i x
    by (rule keeps_held_keys) (auto simp: insert_secret_def split: if_splits)
  ultimately show ?thesis
    unfolding CreateKey_def by (auto split: option.split intro!: keeps_held_intros)
qed

lemma keeps_held_DeleteKey: "keeps (held g k X) (DeleteKey i)"
proof -
  have "keeps (held g k X) (exec (delete_key i))"
    by (rule keeps_held_exec, rule held_filter) (auto simp: delete_key_def)
  then show ?thesis
    unfolding DeleteKey_def by (auto intro!: keeps_held_intros keeps_held_keys)
qed

lemma keeps_held_usage:
  assumes "\<And>r n. g (r\<lparr>kr_usage_count := n\<rparr>) = g r" "\<And>r t. g (r\<lparr>kr_usage_window_start := t\<rparr>) = g r"
  shows "keeps (held g k X) (AddUsage i n)" "keeps (held g k X) (ResetUsageWindow i t n)"
  unfolding AddUsage_def ResetUsageWindow_def ignore_rows_def
  by (intro keeps_held_intros keeps_held_update; simp add: assms)+

lemma keeps_held_exhausted:
  assumes "\<And>r t. g (r\<lparr>kr_exhausted_until := t\<rparr>) = g r"
  shows "keeps (held g k X) (SetKeyExhausted i t)"
  unfolding SetKeyExhausted_def ignore_rows_def
  by (intro keeps_held_intros keeps_held_update; simp add: assms)

lemma keeps_held_money:
  assumes "\<And>r a. g (r\<lparr>kr_spent := a\<rparr>) = g r" "\<And>r t. g (r\<lparr>kr_spent_period_start := t\<rparr>) = g r"
    and "\<And>r a. g (r\<lparr>kr_budget_amount := a\<rparr>) = g r" "\<And>r a. g (r\<lparr>kr_budget_unit := a\<rparr>) = g r"
    and "\<And>r a. g (r\<lparr>kr_budget_reset_day := a\<rparr>) = g r"
  shows "keeps (held g k X) (UpdateKeyBudget i b)" "keeps (held g k X) (RecordSpend_db e start)"
proof -
  show "keeps (held g k X) (UpdateKeyBudget i b)"
    unfolding UpdateKeyBudget_def
    by (auto split: prod.split intro!: keeps_held_intros keeps_held_update simp: assms)
  have "keeps (held g k X) (exec (update_spent i t a))" for i t a
  proof (rule keeps_held_exec, rule held_update [where i = i
        and h = "\<lambda>r. r\<lparr>kr_spent := new_spent t a r, kr_spent_period_start := Some (timestamptz t)\<rparr>"])
    show "pg_keys s' = map (\<lambda>r. if kr_id r = i then r\<lparr>kr_spent := new_spent t a r,
        kr_spent_period_start := Some (timestamptz t)\<rparr> else r) (pg_keys s)"
      if "update_spent i t a s = Inr (s', x)" for s s' x
      using that by (auto simp: update_spent_def split: option.splits if_splits)
  qed (simp_all add: assms)
  moreover have "keeps (held g k X) (exec (select_spent i t))" "keeps (held g k X) (exec (insert_spend e))" for i t
    by (rule keeps_held_keys; auto simp: select_spent_def insert_spend_def split: option.splits if_splits)+
  ultimately show "keeps (held g k X) (RecordSpend_db e start)"
    unfolding RecordSpend_db_def Let_def
    by (auto split: option.split intro!: keeps_held_intros)
qed

section \<open>The key's tier keeps a feature\<close>

definition featured :: "string set \<Rightarrow> pg \<Rightarrow> bool" where
  "featured T d \<longleftrightarrow> T \<subseteq> tf_TierID ` set (pg_tier_features d)"

definition covered :: "string \<Rightarrow> pg \<Rightarrow> bool" where
  "covered k d \<longleftrightarrow> featured (set_option (map_option kr_tier_id (key_row_of d k))) d"

lemma faultless_featured: "faultless (featured T)"
  by (simp add: faultless_def featured_def)

lemma coveredI:
  assumes "held kr_tier_id k X d'" "featured (set_option X) d'"
  shows "covered k d'"
  using assms by (auto simp: covered_def held_def featured_def)

lemma keeps_featured_exec:
  "(\<And>s s' a. stmt s = Inr (s', a) \<Longrightarrow> tf_TierID ` set (pg_tier_features s) \<subseteq> tf_TierID ` set (pg_tier_features s'))
   \<Longrightarrow> keeps (featured T) (exec stmt)"
  by (rule keeps_exec [OF faultless_featured]) (fastforce simp: featured_def)

lemmas keeps_featured_intros = keeps_transaction [OF faultless_featured] keeps_dbind keeps_dmap_err
  keeps_each keeps_dreturn keeps_draise keeps_featured_exec

lemma keeps_featured_insert: "keeps (featured T) (exec (insert_tier_feature i f))"
  by (rule keeps_featured_exec) (auto simp: insert_tier_feature_def split: if_splits)

lemma keeps_featured:
  "keeps (featured T) (CreateTier tier fs)" "keeps (featured T) (UpdateTierDescription i desc)"
  "keeps (featured T) (CreateKey codec key xs)" "keeps (featured T) (DeleteKey i)"
  "keeps (featured T) (AddUsage i n)" "keeps (featured T) (ResetUsageWindow i t n)"
  "keeps (featured T) (SetKeyExhausted i t)" "keeps (featured T) (UpdateKeyBudget i b)"
  "keeps (featured T) (RecordSpend_db e start)" "keeps (featured T) (CreateConsumer c)"
  "keeps (featured T) (DeleteConsumer i)" "keeps (featured T) (AddConsumerScope i j)"
  "keeps (featured T) (RecordUsageEvents es)"
proof -
  show "keeps (featured T) (CreateTier tier fs)" "keeps (featured T) (UpdateTierDescription i desc)"
    unfolding CreateTier_def UpdateTierDescription_def insertTierFeatures_def
    by (auto intro!: keeps_featured_intros keeps_featured_insert simp: insert_tier_def split: if_splits)
  show "keeps (featured T) (CreateKey codec key xs)" "keeps (featured T) (DeleteKey i)"
    unfolding CreateKey_def DeleteKey_def
    by (auto split: option.split if_splits intro!: keeps_featured_intros
        simp: insert_key_def insert_secret_def delete_key_def Let_def)
  show "keeps (featured T) (AddUsage i n)" "keeps (featured T) (ResetUsageWindow i t n)"
    "keeps (featured T) (SetKeyExhausted i t)" "keeps (featured T) (UpdateKeyBudget i b)"
    unfolding AddUsage_def ResetUsageWindow_def SetKeyExhausted_def UpdateKeyBudget_def ignore_rows_def
    by (auto split: prod.split if_splits intro!: keeps_featured_intros simp: update_keys_def)
  show "keeps (featured T) (RecordSpend_db e start)"
    unfolding RecordSpend_db_def Let_def
    by (auto split: option.split option.splits if_splits intro!: keeps_featured_intros
        simp: insert_spend_def select_spent_def update_spent_def)
  show "keeps (featured T) (CreateConsumer c)" "keeps (featured T) (DeleteConsumer i)"
    "keeps (featured T) (AddConsumerScope i j)" "keeps (featured T) (RecordUsageEvents es)"
    unfolding CreateConsumer_def DeleteConsumer_def AddConsumerScope_def RecordUsageEvents_def
    by (auto intro!: keeps_featured_intros simp: insert_consumer_def delete_consumer_def copy_events_def
        Let_def split: if_splits)
qed

lemma featured_insert_each:
  assumes "insertTierFeatures i fs d = (d', Inr u)" "featured T d"
  shows "featured (T \<union> (if fs = [] then {} else {i})) d'"
proof (cases fs)
  case Nil
  with assms show ?thesis by (simp add: insertTierFeatures_def dreturn_def)
next
  case (Cons f fs')
  obtain d1 r1 where e: "exec (insert_tier_feature i f) d = (d1, r1)" by fastforce
  with assms(1) Cons have r1: "r1 = Inr ()" and rest: "insertTierFeatures i fs' d1 = (d', Inr u)"
    by (auto simp: insertTierFeatures_def dbind_def split: sum.splits)
  from e r1 obtain g where "pg_tier_features d1 = pg_tier_features d @ [g]" "tf_TierID g = i"
    by (auto elim!: exec_cases simp: insert_tier_feature_def split: if_splits)
  then have "featured (insert i T) d1" using assms(2) by (auto simp: featured_def)
  moreover have "keeps (featured (insert i T)) (insertTierFeatures i fs')"
    unfolding insertTierFeatures_def by (intro keeps_featured_intros keeps_featured_insert)
  ultimately have "featured (insert i T) d'" using rest by (auto simp: keeps_def)
  with Cons show ?thesis by simp
qed

lemma covered_SetTierFeatures:
  assumes "SetTierFeatures i fs d = (d', r)" "fs \<noteq> []" "covered k d"
  shows "covered k d'"
proof -
  define X where "X = map_option kr_tier_id (key_row_of d k)"
  have X: "featured (set_option X) d" "held kr_tier_id k X d" using assms(3) held_now by (simp_all add: covered_def X_def)
  have "featured (set_option X) d'"
    using assms(1) [unfolded SetTierFeatures_def]
  proof (cases rule: transaction_cases)
    case (failed err fs)
    with X(1) show ?thesis by (simp add: featured_def)
  next
    case (finished fs1 d1 u fs2)
    obtain fs3 where d0: "insertTierFeatures i fs (d\<lparr>pg_faults := fs3, pg_tier_features :=
        filter (\<lambda>f. tf_TierID f \<noteq> i) (pg_tier_features d)\<rparr>) = (d1, Inr u)"
      using finished(1) by (auto simp: dbind_def split: prod.splits sum.splits elim!: exec_cases)
    have "featured (set_option X - {i}) (d\<lparr>pg_faults := fs3, pg_tier_features :=
        filter (\<lambda>f. tf_TierID f \<noteq> i) (pg_tier_features d)\<rparr>)"
      using X(1) by (auto simp: featured_def)
    from featured_insert_each [OF d0 this] assms(2) finished(2) show ?thesis by (auto simp: featured_def)
  qed
  moreover have "held kr_tier_id k X d'"
    using keeps_held_tiers(2) [of kr_tier_id k X i fs] X(2) assms(1) by (simp add: keeps_def)
  ultimately show ?thesis by (intro coveredI)
qed

lemma covered_DeleteTier:
  assumes "DeleteTier i d = (d', r)" "covered k d"
  shows "covered k d'"
proof -
  obtain d1 r1 where e: "exec (delete_tier i) d = (d1, r1)" by fastforce
  with assms(1) have d': "d' = d1"
    by (auto simp: DeleteTier_def dbind_def dmap_err_def draise_def dreturn_def split: sum.splits if_splits)
  from e show ?thesis
  proof (cases rule: exec_cases)
    case (failed err fs)
    with assms(2) d' show ?thesis by (simp add: covered_def featured_def)
  next
    case (finished fs n)
    have "kr_tier_id x \<noteq> i \<or> i \<notin> tier_ID ` set (pg_tiers d)" if "key_row_of d k = Some x" for x
    proof -
      have "x \<in> set (pg_keys d)" using find_found [OF that [unfolded key_row_of_def]] by simp
      then have "kr_tier_id x \<in> kr_tier_id ` set (pg_keys d)" by (rule imageI)
      with finished(1) show ?thesis by (auto simp: delete_tier_def split: if_splits)
    qed
    moreover have "key_row_of d1 = key_row_of d"
      using finished(1) by (auto simp: delete_tier_def key_row_of_def fun_eq_iff split: if_splits)
    ultimately show ?thesis
      using finished(1) assms(2) d' unfolding covered_def featured_def
      by (cases "key_row_of d k") (fastforce simp: delete_tier_def split: if_splits)+
  qed
qed

text \<open>The calls of the running server: keys are created under other ids, tiers keep features.\<close>

fun harmless :: "string \<Rightarrow> dbcall \<Rightarrow> bool" where
  "harmless k (CCreateKey key xs) = (key_ID key \<noteq> k)"
| "harmless k (CSetTierFeatures i fs) = (fs \<noteq> [])"
| "harmless k (CAddUsage i n) = False"
| "harmless k (CResetUsageWindow i t n) = False"
| "harmless k (CSetKeyExhausted i t) = False"
| "harmless k _ = True"

lemma harmless_covered:
  assumes "db_do codec c d = (d', r)" "harmless k c" "covered k d"
  shows "covered k d'"
proof -
  define X where "X = map_option kr_tier_id (key_row_of d k)"
  have X: "featured (set_option X) d" "held kr_tier_id k X d"
    using assms(3) held_now by (simp_all add: covered_def X_def)
  show ?thesis
  proof (cases "\<exists>i fs. c = CSetTierFeatures i fs \<or> c = CDeleteTier i")
    case True
    with assms show ?thesis by (auto dest: covered_SetTierFeatures covered_DeleteTier)
  next
    case False
    have "keeps (held kr_tier_id k X) (db_do codec c)" "keeps (featured (set_option X)) (db_do codec c)"
      using assms(2) False
      by (cases c; auto simp: drop_result_def intro!: keeps_dbind keeps_held_tiers keeps_held_consumers
          keeps_held_CreateKey keeps_held_DeleteKey keeps_held_money keeps_featured)+
    with X assms(1) show ?thesis by (intro coveredI [of k X]) (auto simp: keeps_def)
  qed
qed

text \<open>They leave everything but budget and spend of the key's row as it is, or delete it.\<close>

definition shown :: "key_row \<Rightarrow> (int option \<times> int option \<times> string) \<times> time option \<times> counted" where
  "shown r = (lasting r, kr_exhausted_until r, counted_in r)"

lemma harmless_held:
  assumes "db_do codec c d = (d', r)" "harmless k c" "held shown k X d"
  shows "held shown k X d'"
proof -
  have "keeps (held shown k X) (db_do codec c)"
    using assms(2)
    by (cases c) (auto simp: drop_result_def shown_def lasting_def counted_in_def
        intro!: keeps_dbind keeps_held_tiers keeps_held_consumers keeps_held_CreateKey
          keeps_held_DeleteKey keeps_held_money)
  with assms(1,3) show ?thesis by (auto simp: keeps_def)
qed

end
