(* ===== verification/Api_Types.thy ===== *)
theory Api_Types
  imports Pool_Store
begin

text \<open>
  What the handlers of \<open>internal/api\<close> are given and what they return: requests, the structs of
  \<open>responses.go\<close>, the constants, the server's state and what a handler takes from outside. The
  body of a request is its bytes; the decoders of \<open>encoding/json\<close> into the request structs, the
  hash, the time layouts' parser, fresh ids and random bytes are fields of an \<open>env\<close>. A response
  is its status and the struct that is encoded as its body.
\<close>

section \<open>Constants\<close>

definition defaultWindowSeconds :: int where "defaultWindowSeconds = 60"
definition defaultUsageListLimit :: int where "defaultUsageListLimit = 100"
definition maxUsageListLimit :: int where "maxUsageListLimit = 1000"
definition exhaustedEvent :: string where "exhaustedEvent = ''exhausted''"
definition consumerTokenBytes :: nat where "consumerTokenBytes = 32"
definition pathID :: string where "pathID = ''id''"
definition pathName :: string where "pathName = ''name''"
definition featureParam :: string where "featureParam = ''feature''"
definition limitParam :: string where "limitParam = ''limit''"
definition budgetField :: string where "budgetField = ''budget''"
definition statusOK :: string where "statusOK = ''ok''"
definition adminConsumerID :: string where "adminConsumerID = ''admin''"
definition maxBodySize :: nat where "maxBodySize = 1048576"
definition bearerScheme :: string where "bearerScheme = ''Bearer''"
definition statusDeleted :: string where "statusDeleted = ''deleted''"
definition statusExhausted :: string where "statusExhausted = ''exhausted''"
definition msgInvalidJSON :: string where "msgInvalidJSON = ''invalid JSON: ''"
definition msgDatabaseError :: string where "msgDatabaseError = ''database error''"
definition msgTierNotFound :: string where "msgTierNotFound = ''tier not found: ''"

text \<open>The statuses of package \<open>net/http\<close> the handlers use.\<close>

definition StatusOK :: nat where "StatusOK = 200"
definition StatusCreated :: nat where "StatusCreated = 201"
definition StatusBadRequest :: nat where "StatusBadRequest = 400"
definition StatusUnauthorized :: nat where "StatusUnauthorized = 401"
definition StatusForbidden :: nat where "StatusForbidden = 403"
definition StatusNotFound :: nat where "StatusNotFound = 404"
definition StatusMethodNotAllowed :: nat where "StatusMethodNotAllowed = 405"
definition StatusConflict :: nat where "StatusConflict = 409"
definition StatusTooManyRequests :: nat where "StatusTooManyRequests = 429"
definition StatusInternalServerError :: nat where "StatusInternalServerError = 500"

lemmas status_defs = StatusOK_def StatusCreated_def StatusBadRequest_def StatusUnauthorized_def
  StatusForbidden_def StatusNotFound_def StatusMethodNotAllowed_def StatusConflict_def
  StatusTooManyRequests_def StatusInternalServerError_def

section \<open>Times in responses\<close>

definition digit :: "int \<Rightarrow> char" where "digit n = char_of (48 + nat (n mod 10))"

definition pad2 :: "int \<Rightarrow> string" where "pad2 n = [digit (n div 10), digit n]"

definition pad4 :: "int \<Rightarrow> string" where "pad4 n = pad2 (n div 100) @ pad2 n"

text \<open>The layout \<open>time.RFC3339\<close> in UTC, for years of four digits.\<close>

definition rfc3339 :: "time \<Rightarrow> string" where
  "rfc3339 t = pad4 (time_Year t) @ ''-'' @ pad2 (time_Month t) @ ''-'' @ pad2 (time_Day t) @ ''T''
     @ pad2 (t mod day_ns div (3600 * Second)) @ '':''
     @ pad2 (t mod (3600 * Second) div (60 * Second)) @ '':''
     @ pad2 (t mod (60 * Second) div Second) @ ''Z''"

definition rfc3339OrNil :: "time option \<Rightarrow> string option" where
  "rfc3339OrNil t = (case t of None \<Rightarrow> None | Some t \<Rightarrow> Some (rfc3339 t))"

section \<open>Request structs\<close>

record budgetBody =
  bb_Amount :: f64
  bb_Unit :: string
  bb_ResetDay :: "int option"

record addKeyBody =
  ak_Name :: string
  ak_Key :: string
  ak_Tier :: string
  ak_ExpiresAt :: "string option"
  ak_UsageLimit :: "int option"
  ak_UsageWindowSeconds :: "int option"
  ak_Metadata :: metadata
  ak_Secrets :: "(string, string) gomap"
  ak_Budget :: "budgetBody option"

record featureLimitBody =
  fb_RateLimit :: int
  fb_WindowSeconds :: int

record tierBody =
  tb_Name :: string
  tb_Description :: "string option"
  tb_Features :: "(string, featureLimitBody) gomap"

record spendBody =
  sb_Amount :: f64
  sb_Unit :: string
  sb_RequestID :: string

section \<open>Response structs\<close>

record drawnKey =
  dk_KeyID :: string
  dk_Value :: string
  dk_Metadata :: metadata
  dk_Secrets :: "(string, string) gomap"

record addedKey =
  ad_ID :: string
  ad_Name :: string
  ad_Tier :: string
  ad_ExpiresAt :: "string option"
  ad_UsageLimit :: "int option"
  ad_UsageWindowSeconds :: "int option"
  ad_Metadata :: metadata
  ad_SecretNames :: "string list"

record rateUsage =
  ru_Used :: int
  ru_Limit :: int
  ru_WindowSeconds :: int

record budgetView =
  bv_Amount :: f64
  bv_Unit :: string
  bv_ResetDay :: "int option"

record balanceView =
  lv_Used :: f64
  lv_Limit :: f64
  lv_Unit :: string
  lv_ResetsAt :: "string option"
  lv_CheckedAt :: string

record listedKey =
  lk_ID :: string
  lk_Name :: string
  lk_TierID :: string
  lk_IsActive :: bool
  lk_ExpiresAt :: "string option"
  lk_ExhaustedUntil :: "string option"
  lk_UsageLimit :: "int option"
  lk_UsageCount :: int
  lk_Budget :: "budgetView option"
  lk_Spent :: f64
  lk_Remaining :: "f64 option"
  lk_ResetsAt :: "string option"
  lk_Balance :: "balanceView option"
  lk_Metadata :: metadata
  lk_SecretNames :: "string list"
  lk_Usage :: "(string, rateUsage) gomap"

record spendRecorded =
  sr_KeyID :: string
  sr_Spent :: f64
  sr_Budget :: "budgetView option"
  sr_Remaining :: "f64 option"
  sr_ResetsAt :: "string option"
  sr_Duplicate :: bool

record listedConsumer =
  lc_ID :: string
  lc_Name :: string
  lc_Description :: string
  lc_IsActive :: bool
  lc_Scopes :: "string list"

record usageEvent =
  uv_KeyID :: string
  uv_ConsumerID :: string
  uv_Feature :: string
  uv_CreatedAt :: string

record tierView =
  tv_ID :: string
  tv_Name :: string
  tv_Description :: string
  tv_Features :: "(string, featureLimitBody) gomap"

text \<open>
  One constructor per struct of \<open>responses.go\<close>; \<open>budgetSet\<close>, \<open>exhaustedKey\<close>,
  \<open>createdConsumer\<close>, \<open>grantedScope\<close>, \<open>poolHealth\<close>, \<open>statusBody\<close> and \<open>errorBody\<close> have their
  fields as arguments. \<open>PlainText\<close> is the text the router answers with by itself.
\<close>

datatype respbody = PlainText string | ErrorBody string | StatusBody string | PoolHealth nat bool
  | DrawnKey drawnKey | AddedKey addedKey | ListedKeys "listedKey list"
  | BudgetSet string "budgetView option" | SpendRecorded spendRecorded | ExhaustedKey string string
  | CreatedConsumer string string string | ListedConsumers "listedConsumer list"
  | GrantedScope string string | UsageEvents "usageEvent list"
  | TierViewed tierView | TierViews "tierView list"

record response =
  rs_status :: nat
  rs_body :: respbody

section \<open>Requests, the server and its environment\<close>

text \<open>
  The parts of \<open>*http.Request\<close> the router and the handlers read: the method, the segments of the
  path, the wildcards the router has matched, the header \<open>Authorization\<close>, the query, where a
  missing parameter is empty, and the body.
\<close>

datatype meth = GET | HEAD | POST | PATCH | DELETE | OtherMethod

record request =
  rq_method :: meth
  rq_path :: "string list"
  rq_values :: "(string, string) gomap"
  rq_authorization :: string
  rq_query :: "string \<Rightarrow> string"
  rq_body :: string

definition PathValue :: "request \<Rightarrow> string \<Rightarrow> string" where
  "PathValue r name = (case mget (rq_values r) name of None \<Rightarrow> [] | Some v \<Rightarrow> v)"


record keyCaller =
  kc_consumerID :: string
  kc_allowedTierIDs :: scope

record authEntry =
  ae_caller :: keyCaller
  ae_expires :: time

record AuthCache =
  ac_ttl :: duration
  ac_entries :: "(string, authEntry) gomap"

text \<open>
  The pool holds the writer the server shares with it. The log is left out.
\<close>

record server =
  sv_DB :: pg
  sv_Pool :: Manager
  sv_Auth :: AuthCache
  sv_AdminToken :: string
  sv_Sealer :: Sealer

text \<open>
  The decoders read at most \<open>maxBodySize\<close> bytes and are told whether there were more; they
  return the error's message or the struct. \<open>env_decode_budget\<close> decodes the object of
  \<open>SetKeyBudget\<close> in its two steps: the members, and the value of member \<open>budget\<close>.
  \<open>env_now\<close> gives the readings of the clock, each use its own index and in no particular order,
  \<open>env_since\<close> those of a listing, per key and feature.
\<close>

record env =
  env_codec :: json_codec
  env_sha256 :: "string \<Rightarrow> string"
  env_parse_rfc3339 :: "string \<Rightarrow> time option"
  env_uuid :: "nat \<Rightarrow> string"
  env_rand :: "nat \<Rightarrow> string option"
  env_now :: "nat \<Rightarrow> time"
  env_since :: "string \<Rightarrow> string \<Rightarrow> time"
  env_decode_addKey :: "string \<Rightarrow> bool \<Rightarrow> string + addKeyBody"
  env_decode_tier :: "string \<Rightarrow> bool \<Rightarrow> string + tierBody"
  env_decode_until :: "string \<Rightarrow> bool \<Rightarrow> string + string"
  env_decode_spend :: "string \<Rightarrow> bool \<Rightarrow> string + spendBody"
  env_decode_members :: "string \<Rightarrow> bool \<Rightarrow> string + (string, string) gomap"
  env_decode_budget :: "string \<Rightarrow> string + budgetBody option"
  env_decode_consumer :: "string \<Rightarrow> bool \<Rightarrow> string + (string \<times> string)"
  env_decode_scope :: "string \<Rightarrow> bool \<Rightarrow> string + string"

definition writeJSON :: "nat \<Rightarrow> respbody \<Rightarrow> response" where
  "writeJSON status data = \<lparr>rs_status = status, rs_body = data\<rparr>"

definition writeError :: "nat \<Rightarrow> string \<Rightarrow> response" where
  "writeError status message = writeJSON status (ErrorBody message)"

definition decodeBody :: "(string \<Rightarrow> bool \<Rightarrow> string + 'b) \<Rightarrow> request \<Rightarrow> response + 'b" where
  "decodeBody decoder r =
     (case decoder (take maxBodySize (rq_body r)) (maxBodySize < length (rq_body r)) of
        Inl err \<Rightarrow> Inl (writeError StatusBadRequest (msgInvalidJSON @ err))
      | Inr body \<Rightarrow> Inr body)"

text \<open>For evaluation: a short body is decoded without counting to \<open>maxBodySize\<close> in unary.\<close>

lemma decodeBody_code [code]:
  "decodeBody decoder r =
     (let n = int (length (rq_body r)) in
      case decoder (if n \<le> 1048576 then rq_body r else take maxBodySize (rq_body r)) (1048576 < n) of
        Inl err \<Rightarrow> Inl (writeError StatusBadRequest (msgInvalidJSON @ err))
      | Inr body \<Rightarrow> Inr body)"
  by (simp add: decodeBody_def maxBodySize_def Let_def)

definition parseLimit :: "string \<Rightarrow> int \<Rightarrow> int \<Rightarrow> int" where
  "parseLimit raw def maximum =
     (case Atoi raw of
        None \<Rightarrow> def
      | Some n \<Rightarrow> (if n \<le> 0 then def else min n maximum))"

definition budgetViewOf :: "Budget option \<Rightarrow> budgetView option" where
  "budgetViewOf b = (case b of None \<Rightarrow> None
     | Some b \<Rightarrow> Some \<lparr>bv_Amount = b_Amount b, bv_Unit = b_Unit b, bv_ResetDay = b_ResetDay b\<rparr>)"

definition balanceViewOf :: "Balance option \<Rightarrow> balanceView option" where
  "balanceViewOf b = (case b of None \<Rightarrow> None
     | Some b \<Rightarrow> Some \<lparr>lv_Used = bal_Used b, lv_Limit = bal_Limit b, lv_Unit = bal_Unit b,
         lv_ResetsAt = rfc3339OrNil (bal_ResetsAt b), lv_CheckedAt = rfc3339 (bal_CheckedAt b)\<rparr>)"

end
