(* ===== verification/Auth.thy ===== *)
theory Auth
  imports Api_Types
begin

text \<open>
  \<open>internal/api/middleware.go\<close> and \<open>authcache.go\<close>: who calls. An admin presents the admin
  token; a consumer's token is looked up by its hash, in the cache or in the database, and gives
  the tiers the consumer may draw from.
\<close>

section \<open>The cache\<close>

definition NewAuthCache :: "duration \<Rightarrow> AuthCache" where
  "NewAuthCache ttl = \<lparr>ac_ttl = ttl, ac_entries = []\<rparr>"

definition cache_get :: "time \<Rightarrow> string \<Rightarrow> AuthCache \<Rightarrow> keyCaller option" where
  "cache_get now tokenHash c =
     (case mget (ac_entries c) tokenHash of
        None \<Rightarrow> None
      | Some e \<Rightarrow> (if ae_expires e < now then None else Some (ae_caller e)))"

definition cache_put :: "time \<Rightarrow> string \<Rightarrow> keyCaller \<Rightarrow> AuthCache \<Rightarrow> AuthCache" where
  "cache_put now tokenHash caller c =
     c\<lparr>ac_entries := mput tokenHash \<lparr>ae_caller = caller, ae_expires = now + ac_ttl c\<rparr> (ac_entries c)\<rparr>"

definition cache_clear :: "AuthCache \<Rightarrow> AuthCache" where
  "cache_clear c = c\<lparr>ac_entries := []\<rparr>"

section \<open>Tokens\<close>

text \<open>\<open>strings.EqualFold\<close> against an ASCII word without \<open>k\<close> or \<open>s\<close>, which only ASCII letters fold to.\<close>

definition lower :: "char \<Rightarrow> char" where
  "lower c = (let n = (of_char c :: nat) in if 65 \<le> n \<and> n \<le> 90 then char_of (n + 32) else c)"

definition EqualFold :: "string \<Rightarrow> string \<Rightarrow> bool" where
  "EqualFold a b \<longleftrightarrow> map lower a = map lower b"

definition bearerToken :: "request \<Rightarrow> string option" where
  "bearerToken r =
     (case cutAt CHR '' '' (rq_authorization r) of
        (scheme, token, ok) \<Rightarrow>
          (if \<not> ok \<or> \<not> EqualFold scheme bearerScheme then None else Some token))"

definition hashToken :: "env \<Rightarrow> string \<Rightarrow> string" where
  "hashToken E token = EncodeToString (env_sha256 E token)"

section \<open>Callers\<close>

definition msg_missing :: string where "msg_missing = ''missing or malformed authorization header''"

text \<open>
  The lookup behind the cache, with its two clock readings. A consumer that is not found is
  \<open>None\<close>; the result is stored under the hash.
\<close>

definition allowed_of :: "string list \<Rightarrow> (string, bool) gomap" where
  "allowed_of scopeIDs = fold (\<lambda>i. mput i True) scopeIDs []"

definition consumer_lookup :: "string \<Rightarrow> keyCaller option dbop" where
  "consumer_lookup tokenHash =
     dbind (GetConsumerByTokenHash tokenHash)
       (\<lambda>consumer. case consumer of
          None \<Rightarrow> dreturn None
        | Some c \<Rightarrow>
            (if c_TokenHash c \<noteq> tokenHash then dreturn None
             else dbind (GetConsumerScopes (c_ID c))
               (\<lambda>scopeIDs. dreturn (Some \<lparr>kc_consumerID = c_ID c,
                  kc_allowedTierIDs = Some (allowed_of scopeIDs)\<rparr>))))"

definition consumerCaller :: "time \<Rightarrow> time \<Rightarrow> string \<Rightarrow> server \<Rightarrow> server \<times> (dberr + keyCaller option)" where
  "consumerCaller now1 now2 tokenHash s =
     (case cache_get now1 tokenHash (sv_Auth s) of
        Some caller \<Rightarrow> (s, Inr (Some caller))
      | None \<Rightarrow>
          (case consumer_lookup tokenHash (sv_DB s) of
             (d, Inl err) \<Rightarrow> (s\<lparr>sv_DB := d\<rparr>, Inl err)
           | (d, Inr None) \<Rightarrow> (s\<lparr>sv_DB := d\<rparr>, Inr None)
           | (d, Inr (Some caller)) \<Rightarrow>
               (s\<lparr>sv_DB := d, sv_Auth := cache_put now2 tokenHash caller (sv_Auth s)\<rparr>,
                Inr (Some caller))))"

definition resolveKeyCaller :: "env \<Rightarrow> request \<Rightarrow> server \<Rightarrow> server \<times> (response + keyCaller)" where
  "resolveKeyCaller E r s =
     (case bearerToken r of
        None \<Rightarrow> (s, Inl (writeError StatusUnauthorized msg_missing))
      | Some token \<Rightarrow>
          (if token = sv_AdminToken s
           then (s, Inr \<lparr>kc_consumerID = adminConsumerID, kc_allowedTierIDs = None\<rparr>)
           else case consumerCaller (env_now E 0) (env_now E 1) (hashToken E token) s of
                  (s', Inl err) \<Rightarrow> (s', Inl (writeError StatusInternalServerError ''auth lookup failed''))
                | (s', Inr None) \<Rightarrow> (s', Inl (writeError StatusUnauthorized ''invalid token''))
                | (s', Inr (Some caller)) \<Rightarrow> (s', Inr caller)))"

text \<open>\<open>AdminAuth\<close> in front of a handler, and the cache cleared after a handler that may write.\<close>

type_synonym handler = "env \<Rightarrow> request \<Rightarrow> server \<Rightarrow> server \<times> response"

definition AdminAuth :: "handler \<Rightarrow> handler" where
  "AdminAuth h E r s =
     (case bearerToken r of
        None \<Rightarrow> (s, writeError StatusUnauthorized msg_missing)
      | Some presented \<Rightarrow>
          (if presented \<noteq> sv_AdminToken s
           then (s, writeError StatusUnauthorized ''invalid admin token'') else h E r s))"

definition clearAfterWrite :: "handler \<Rightarrow> handler" where
  "clearAfterWrite h E r s =
     (case h E r s of
        (s', resp) \<Rightarrow>
          ((if rq_method r \<noteq> GET \<and> rq_method r \<noteq> HEAD
            then s'\<lparr>sv_Auth := cache_clear (sv_Auth s')\<rparr> else s'), resp))"

end
