(* ===== verification/Key_Handlers.thy ===== *)
theory Key_Handlers
  imports Auth
begin

text \<open>
  \<open>internal/api/keys.go\<close> and \<open>budget.go\<close>: drawing a key, reporting on one, and the administration
  of keys and budgets. A handler maps a server and a request to the server after it and the
  response; it is the whole handler, with its early returns in the order of the code.
\<close>

section \<open>Errors as texts\<close>

text \<open>The text of an error of the database is never shown to a caller.\<close>

fun poolerr_Error :: "poolerr \<Rightarrow> string" where
  "poolerr_Error ErrOutOfScope = ''no key in scope serves the feature''"
| "poolerr_Error ErrExhausted = ''no key available for feature''"
| "poolerr_Error ErrNotFound = ''no key by that id''"
| "poolerr_Error ErrUnknownKey = ''key not found''"
| "poolerr_Error ErrUnitMismatch = ''unit does not match the key's budget''"
| "poolerr_Error (ErrBadBudget why) = ''invalid budget: '' @ why"
| "poolerr_Error (ErrBadSpend why) = ''invalid spend: '' @ why"
| "poolerr_Error (ErrStore err) = []"

definition msg_feature :: string where "msg_feature = ''feature query param required''"

section \<open>Drawing a key\<close>

text \<open>
  What both ways of drawing do with a key the pool has served: open it, queue the audit event,
  answer.
\<close>

definition queue_event :: "UsageEvent \<Rightarrow> server \<Rightarrow> server" where
  "queue_event e s = s\<lparr>sv_Pool := (sv_Pool s)\<lparr>m_usage := Event e (m_usage (sv_Pool s))\<rparr>\<rparr>"

definition answer_key :: "env \<Rightarrow> keyCaller \<Rightarrow> string \<Rightarrow> ServedKey \<Rightarrow> server \<Rightarrow> server \<times> response" where
  "answer_key E caller feature key s =
     (case Open (sv_Sealer s) (sk_KeyValue key) of
        Inl err \<Rightarrow> (s, writeError StatusInternalServerError ''failed to read key'')
      | Inr v \<Rightarrow>
          (queue_event (NewUsageEvent (env_uuid E 0) (env_now E 2) (sk_ID key) (kc_consumerID caller)
             feature) s,
           writeJSON StatusOK (DrawnKey \<lparr>dk_KeyID = sk_ID key, dk_Value = v,
             dk_Metadata = sk_Metadata key, dk_Secrets = sk_Secrets key\<rparr>)))"

definition GetKey :: handler where
  "GetKey E r s =
     (case resolveKeyCaller E r s of
        (s, Inl resp) \<Rightarrow> (s, resp)
      | (s, Inr caller) \<Rightarrow>
          (let feature = rq_query r featureParam in
           if feature = [] then (s, writeError StatusBadRequest msg_feature)
           else case GetKeyForFeature (\<lambda>n. env_now E (n + 3)) feature (kc_allowedTierIDs caller) (sv_Pool s) of
                  (m, Inl err) \<Rightarrow>
                    (s\<lparr>sv_Pool := m\<rparr>,
                     if err = ErrOutOfScope \<and> kc_allowedTierIDs caller \<noteq> None
                     then writeError StatusForbidden (poolerr_Error err)
                     else writeError StatusTooManyRequests (poolerr_Error ErrExhausted))
                | (m, Inr key) \<Rightarrow> answer_key E caller feature key (s\<lparr>sv_Pool := m\<rparr>)))"

definition GetKeyByID :: handler where
  "GetKeyByID E r s =
     (case resolveKeyCaller E r s of
        (s, Inl resp) \<Rightarrow> (s, resp)
      | (s, Inr caller) \<Rightarrow>
          (let feature = rq_query r featureParam in
           if feature = [] then (s, writeError StatusBadRequest msg_feature)
           else case KeyByID (\<lambda>n. env_now E (n + 3)) (PathValue r pathID) feature
                       (kc_allowedTierIDs caller) (sv_Pool s) of
                  (m, Inl err) \<Rightarrow>
                    (s\<lparr>sv_Pool := m\<rparr>,
                     if err = ErrNotFound then writeError StatusNotFound (poolerr_Error err)
                     else if err = ErrOutOfScope then writeError StatusForbidden (poolerr_Error err)
                     else writeError StatusTooManyRequests (poolerr_Error ErrExhausted))
                | (m, Inr key) \<Rightarrow> answer_key E caller feature key (s\<lparr>sv_Pool := m\<rparr>)))"

section \<open>Adding, listing and deleting keys\<close>

record newKey =
  nk_body :: addKeyBody
  nk_expiresAt :: "time option"
  nk_budget :: "Budget option"

definition budgetBody_budget :: "budgetBody option \<Rightarrow> poolerr + Budget option" where
  "budgetBody_budget b =
     (case b of
        None \<Rightarrow> Inr None
      | Some b \<Rightarrow>
          (let budget = \<lparr>b_Amount = bb_Amount b, b_Unit = bb_Unit b, b_ResetDay = bb_ResetDay b\<rparr>
           in case ValidateBudget budget of Some err \<Rightarrow> Inl err | None \<Rightarrow> Inr (Some budget)))"

definition decodeAddKey :: "env \<Rightarrow> request \<Rightarrow> response + newKey" where
  "decodeAddKey E r =
     ebind (decodeBody (env_decode_addKey E) r) (\<lambda>body.
       if ak_Name body = [] \<or> ak_Key body = [] \<or> ak_Tier body = []
       then Inl (writeError StatusBadRequest ''name, key, and tier are required'')
       else case budgetBody_budget (ak_Budget body) of
              Inl err \<Rightarrow> Inl (writeError StatusBadRequest (poolerr_Error err))
            | Inr budget \<Rightarrow>
                (if ak_ExpiresAt body = None \<or> ak_ExpiresAt body = Some []
                 then Inr \<lparr>nk_body = body, nk_expiresAt = None, nk_budget = budget\<rparr>
                 else case env_parse_rfc3339 E (the (ak_ExpiresAt body)) of
                        None \<Rightarrow> Inl (writeError StatusBadRequest ''expires_at must be RFC3339'')
                      | Some t \<Rightarrow> Inr \<lparr>nk_body = body, nk_expiresAt = Some t, nk_budget = budget\<rparr>))"

text \<open>The secrets are sealed one after the other, each with fresh random bytes.\<close>

fun seal_secrets :: "env \<Rightarrow> Sealer \<Rightarrow> string \<Rightarrow> nat \<Rightarrow> (string \<times> string) list
    \<Rightarrow> sealerr + KeySecret list" where
  "seal_secrets E sealer keyID n [] = Inr []"
| "seal_secrets E sealer keyID n ((name, value) # rest) =
     ebind (Seal sealer (env_rand E n) value) (\<lambda>sealed.
       ebind (seal_secrets E sealer keyID (Suc n) rest) (\<lambda>xs.
         Inr (\<lparr>ks_KeyID = keyID, ks_Name = name, ks_Value = sealed\<rparr> # xs)))"

text \<open>The columns of usage and spend that the handler leaves at their zero values are written out.\<close>

definition sealedRows :: "env \<Rightarrow> Sealer \<Rightarrow> newKey \<Rightarrow> string \<Rightarrow> sealerr + (Key \<times> KeySecret list)" where
  "sealedRows E sealer k tierID =
     (let body = nk_body k in
      ebind (Seal sealer (env_rand E 0) (ak_Key body)) (\<lambda>sealedKey.
        let key = \<lparr>key_ID = env_uuid E 0, key_Name = ak_Name body, key_KeyValue = sealedKey,
                   key_TierID = tierID, key_IsActive = True, key_ExpiresAt = nk_expiresAt k,
                   key_UsageLimit = ak_UsageLimit body, key_UsageCount = 0,
                   key_UsageWindowSeconds = ak_UsageWindowSeconds body,
                   key_UsageWindowStart = None, key_ExhaustedUntil = None,
                   key_Budget = nk_budget k, key_Spent = 0, key_SpentPeriodStart = None,
                   key_Metadata = ak_Metadata body, key_CreatedAt = zeroTime\<rparr>
        in ebind (seal_secrets E sealer (key_ID key) 1 (ak_Secrets body)) (\<lambda>secrets.
             Inr (key, secrets))))"

text \<open>\<open>reload\<close>: an error is logged and otherwise ignored.\<close>

definition reload :: "env \<Rightarrow> server \<Rightarrow> server" where
  "reload E s =
     (case ReloadKeys (pg_pool (env_codec E)) (sv_Pool s) (sv_DB s) of
        (m, d, err) \<Rightarrow> s\<lparr>sv_Pool := m, sv_DB := d\<rparr>)"

definition tierNamed :: "string \<Rightarrow> server \<Rightarrow> server \<times> (response + Tier)" where
  "tierNamed name s =
     (case GetTierByName name (sv_DB s) of
        (d, Inl err) \<Rightarrow> (s\<lparr>sv_DB := d\<rparr>, Inl (writeError StatusInternalServerError msgDatabaseError))
      | (d, Inr None) \<Rightarrow> (s\<lparr>sv_DB := d\<rparr>, Inl (writeError StatusNotFound (msgTierNotFound @ name)))
      | (d, Inr (Some tier)) \<Rightarrow> (s\<lparr>sv_DB := d\<rparr>, Inr tier))"

definition AddKey :: handler where
  "AddKey E r s =
     (case decodeAddKey E r of
        Inl resp \<Rightarrow> (s, resp)
      | Inr k \<Rightarrow>
          (case tierNamed (ak_Tier (nk_body k)) s of
             (s, Inl resp) \<Rightarrow> (s, resp)
           | (s, Inr tier) \<Rightarrow>
               (case sealedRows E (sv_Sealer s) k (tier_ID tier) of
                  Inl err \<Rightarrow> (s, writeError StatusInternalServerError ''failed to seal key'')
                | Inr (key, secrets) \<Rightarrow>
                    (case CreateKey (env_codec E) key secrets (sv_DB s) of
                       (d, Inl err) \<Rightarrow>
                         (s\<lparr>sv_DB := d\<rparr>, writeError StatusInternalServerError ''failed to create key'')
                     | (d, Inr _) \<Rightarrow>
                         (reload E (s\<lparr>sv_DB := d\<rparr>),
                          writeJSON StatusCreated (AddedKey
                            \<lparr>ad_ID = key_ID key, ad_Name = key_Name key, ad_Tier = ak_Tier (nk_body k),
                             ad_ExpiresAt = ak_ExpiresAt (nk_body k),
                             ad_UsageLimit = ak_UsageLimit (nk_body k),
                             ad_UsageWindowSeconds = ak_UsageWindowSeconds (nk_body k),
                             ad_Metadata = key_Metadata key,
                             ad_SecretNames = map ks_Name secrets\<rparr>))))))"

definition listed_key :: "KeyHealth \<Rightarrow> listedKey" where
  "listed_key ks =
     \<lparr>lk_ID = kh_ID ks, lk_Name = kh_Name ks, lk_TierID = kh_TierID ks,
      lk_IsActive = kh_IsActive ks, lk_ExpiresAt = rfc3339OrNil (kh_ExpiresAt ks),
      lk_ExhaustedUntil = rfc3339OrNil (kh_ExhaustedUntil ks), lk_UsageLimit = kh_UsageLimit ks,
      lk_UsageCount = kh_UsageCount ks, lk_Budget = budgetViewOf (kh_Budget ks),
      lk_Spent = kh_Spent ks, lk_Remaining = Remaining (kh_Budget ks) (kh_Spent ks),
      lk_ResetsAt = rfc3339OrNil (kh_ResetsAt ks), lk_Balance = balanceViewOf (kh_Balance ks),
      lk_Metadata = kh_Metadata ks, lk_SecretNames = kh_SecretNames ks,
      lk_Usage = map (\<lambda>(feature, info). (feature, \<lparr>ru_Used = ri_Used info, ru_Limit = ri_Limit info,
        ru_WindowSeconds = ri_WindowSeconds info\<rparr>)) (kh_Usage ks)\<rparr>"

definition ListKeys :: handler where
  "ListKeys E r s =
     (s, writeJSON StatusOK (ListedKeys
        (map listed_key (GetHealthStatus (env_now E 2) (env_since E) (sv_Pool s)))))"

definition DeleteKey_h :: handler where
  "DeleteKey_h E r s =
     (case DeleteKey (PathValue r pathID) (sv_DB s) of
        (d, Inl err) \<Rightarrow> (s\<lparr>sv_DB := d\<rparr>, writeError StatusInternalServerError ''failed to delete key'')
      | (d, Inr _) \<Rightarrow> (reload E (s\<lparr>sv_DB := d\<rparr>), writeJSON StatusOK (StatusBody statusDeleted)))"

section \<open>Reports\<close>

definition keyInScope :: "keyCaller \<Rightarrow> string \<Rightarrow> server \<Rightarrow> response option" where
  "keyInScope caller i s =
     (case TierOf i (sv_Pool s) of
        (tierID, found) \<Rightarrow>
          (if \<not> found then Some (writeError StatusNotFound (poolerr_Error ErrUnknownKey))
           else if \<not> in_scope (kc_allowedTierIDs caller) tierID
             then Some (writeError StatusForbidden ''key is outside your scope'')
           else None))"

definition ExhaustKey :: handler where
  "ExhaustKey E r s =
     (case resolveKeyCaller E r s of
        (s, Inl resp) \<Rightarrow> (s, resp)
      | (s, Inr caller) \<Rightarrow>
          (let i = PathValue r pathID in
           case decodeBody (env_decode_until E) r of
             Inl resp \<Rightarrow> (s, resp)
           | Inr body \<Rightarrow>
               (case env_parse_rfc3339 E body of
                  None \<Rightarrow> (s, writeError StatusBadRequest ''until must be RFC3339'')
                | Some until \<Rightarrow>
                    (case keyInScope caller i s of
                       Some resp \<Rightarrow> (s, resp)
                     | None \<Rightarrow>
                         (case MarkExhausted (pg_pool (env_codec E)) i until (sv_Pool s) (sv_DB s) of
                            (m, d, _) \<Rightarrow>
                              (queue_event (NewUsageEvent (env_uuid E 0) (env_now E 2) i
                                 (kc_consumerID caller) exhaustedEvent) (s\<lparr>sv_Pool := m, sv_DB := d\<rparr>),
                               writeJSON StatusOK (ExhaustedKey statusExhausted (rfc3339 until))))))))"

definition ReportSpend :: handler where
  "ReportSpend E r s =
     (case resolveKeyCaller E r s of
        (s, Inl resp) \<Rightarrow> (s, resp)
      | (s, Inr caller) \<Rightarrow>
          (case decodeBody (env_decode_spend E) r of
             Inl resp \<Rightarrow> (s, resp)
           | Inr body \<Rightarrow>
               (case ValidateSpend (sb_Amount body) (sb_Unit body) (sb_RequestID body) of
                  Some err \<Rightarrow> (s, writeError StatusBadRequest (poolerr_Error err))
                | None \<Rightarrow>
                    (let i = PathValue r pathID in
                     case keyInScope caller i s of
                       Some resp \<Rightarrow> (s, resp)
                     | None \<Rightarrow>
                         (case RecordSpend (pg_pool (env_codec E)) (env_now E 3)
                            \<lparr>se_ID = env_uuid E 0, se_KeyID = i, se_ConsumerID = kc_consumerID caller,
                             se_Amount = sb_Amount body, se_Unit = sb_Unit body,
                             se_RequestID = sb_RequestID body, se_CreatedAt = env_now E 2\<rparr>
                            (sv_Pool s) (sv_DB s) of
                            (m, d, Inl err) \<Rightarrow>
                              (s\<lparr>sv_Pool := m, sv_DB := d\<rparr>,
                               if err = ErrUnknownKey then writeError StatusNotFound (poolerr_Error err)
                               else if err = ErrUnitMismatch
                                 then writeError StatusConflict (poolerr_Error err)
                               else writeError StatusInternalServerError ''failed to record spend'')
                          | (m, d, Inr spend) \<Rightarrow>
                              (s\<lparr>sv_Pool := m, sv_DB := d\<rparr>,
                               writeJSON StatusOK (SpendRecorded
                                 \<lparr>sr_KeyID = sp_KeyID spend, sr_Spent = sp_Spent spend,
                                  sr_Budget = budgetViewOf (sp_Budget spend),
                                  sr_Remaining = Remaining (sp_Budget spend) (sp_Spent spend),
                                  sr_ResetsAt = rfc3339OrNil (sp_ResetsAt spend),
                                  sr_Duplicate = sp_Duplicate spend\<rparr>)))))))"

section \<open>Budgets\<close>

text \<open>The message of \<open>db.ErrKeyNotFound\<close>.\<close>

definition msg_key_not_found :: string where "msg_key_not_found = ''key not found''"

definition SetKeyBudget :: handler where
  "SetKeyBudget E r s =
     (case decodeBody (env_decode_members E) r of
        Inl resp \<Rightarrow> (s, resp)
      | Inr body \<Rightarrow>
          (case mget body budgetField of
             None \<Rightarrow> (s, writeError StatusBadRequest ''budget is required; send null to clear it'')
           | Some raw \<Rightarrow>
               (case env_decode_budget E raw of
                  Inl err \<Rightarrow> (s, writeError StatusBadRequest (''invalid budget: '' @ err))
                | Inr requested \<Rightarrow>
                    (case budgetBody_budget requested of
                       Inl err \<Rightarrow> (s, writeError StatusBadRequest (poolerr_Error err))
                     | Inr budget \<Rightarrow>
                         (case UpdateKeyBudget (PathValue r pathID) budget (sv_DB s) of
                            (d, Inl err) \<Rightarrow>
                              (s\<lparr>sv_DB := d\<rparr>,
                               if err = ErrKeyNotFound then writeError StatusNotFound msg_key_not_found
                               else writeError StatusInternalServerError ''failed to set budget'')
                          | (d, Inr _) \<Rightarrow>
                              (reload E (s\<lparr>sv_DB := d\<rparr>),
                               writeJSON StatusOK (BudgetSet (PathValue r pathID) (budgetViewOf budget))))))))"

end
