(* ===== verification/Admin_Handlers.thy ===== *)
theory Admin_Handlers
  imports Key_Handlers
begin

text \<open>
  \<open>internal/api/tiers.go\<close>, \<open>consumers.go\<close> and \<open>handlers.go\<close>: the administration of tiers and
  consumers, the audit log and the health checks.
\<close>

section \<open>Tiers\<close>

definition tierFeatures :: "string \<Rightarrow> (string, featureLimitBody) gomap
    \<Rightarrow> TierFeature list \<times> (string, featureLimitBody) gomap" where
  "tierFeatures tierID requested =
     (let limits = map (\<lambda>(feature, limit). (feature,
            if fb_WindowSeconds limit \<le> 0 then limit\<lparr>fb_WindowSeconds := defaultWindowSeconds\<rparr>
            else limit)) requested
      in (map (\<lambda>(feature, limit). \<lparr>tf_TierID = tierID, tf_Feature = feature,
            tf_RateLimit = fb_RateLimit limit, tf_WindowSeconds = fb_WindowSeconds limit\<rparr>) limits,
          limits))"

definition tierResponse :: "Tier \<Rightarrow> (string, featureLimitBody) gomap \<Rightarrow> tierView" where
  "tierResponse tier features =
     \<lparr>tv_ID = tier_ID tier, tv_Name = tier_Name tier, tv_Description = tier_Description tier,
      tv_Features = features\<rparr>"

definition decodeTierBody :: "env \<Rightarrow> request \<Rightarrow> response + tierBody" where
  "decodeTierBody E r =
     ebind (decodeBody (env_decode_tier E) r) (\<lambda>body.
       if tb_Name body = [] \<or> length (tb_Features body) = 0
       then Inl (writeError StatusBadRequest ''name and features are required'') else Inr body)"

definition CreateTier_h :: handler where
  "CreateTier_h E r s =
     (case decodeTierBody E r of
        Inl resp \<Rightarrow> (s, resp)
      | Inr body \<Rightarrow>
          (let tier = \<lparr>tier_ID = env_uuid E 0, tier_Name = tb_Name body,
                 tier_Description = (case tb_Description body of None \<Rightarrow> [] | Some d \<Rightarrow> d),
                 tier_CreatedAt = zeroTime\<rparr>
           in case tierFeatures (tier_ID tier) (tb_Features body) of
                (stored, echoed) \<Rightarrow>
                  (case CreateTier tier stored (sv_DB s) of
                     (d, Inl err) \<Rightarrow>
                       (s\<lparr>sv_DB := d\<rparr>,
                        if err = ErrDuplicate
                        then writeError StatusConflict (''tier already exists: '' @ tb_Name body)
                        else writeError StatusInternalServerError ''failed to create tier'')
                   | (d, Inr _) \<Rightarrow>
                       (s\<lparr>sv_DB := d\<rparr>, writeJSON StatusCreated (TierViewed (tierResponse tier echoed))))))"

definition UpdateTierFeatures :: handler where
  "UpdateTierFeatures E r s =
     (case decodeTierBody E r of
        Inl resp \<Rightarrow> (s, resp)
      | Inr body \<Rightarrow>
          (case tierNamed (tb_Name body) s of
             (s, Inl resp) \<Rightarrow> (s, resp)
           | (s, Inr tier) \<Rightarrow>
               (case (case tb_Description body of
                        None \<Rightarrow> (sv_DB s, Inr tier)
                      | Some description \<Rightarrow>
                          (case UpdateTierDescription (tier_ID tier) description (sv_DB s) of
                             (d, Inl err) \<Rightarrow> (d, Inl err)
                           | (d, Inr _) \<Rightarrow> (d, Inr (tier\<lparr>tier_Description := description\<rparr>)))) of
                  (d, Inl err) \<Rightarrow>
                    (s\<lparr>sv_DB := d\<rparr>, writeError StatusInternalServerError ''failed to update description'')
                | (d, Inr tier) \<Rightarrow>
                    (case tierFeatures (tier_ID tier) (tb_Features body) of
                       (stored, echoed) \<Rightarrow>
                         (case SetTierFeatures (tier_ID tier) stored d of
                            (d, Inl err) \<Rightarrow>
                              (s\<lparr>sv_DB := d\<rparr>, writeError StatusInternalServerError ''failed to set features'')
                          | (d, Inr _) \<Rightarrow>
                              (reload E (s\<lparr>sv_DB := d\<rparr>),
                               writeJSON StatusOK (TierViewed (tierResponse tier echoed))))))))"

definition DeleteTier_h :: handler where
  "DeleteTier_h E r s =
     (let name = PathValue r pathName in
      case tierNamed name s of
        (s, Inl resp) \<Rightarrow> (s, resp)
      | (s, Inr tier) \<Rightarrow>
          (case DeleteTier (tier_ID tier) (sv_DB s) of
             (d, Inl err) \<Rightarrow>
               (s\<lparr>sv_DB := d\<rparr>,
                if err = ErrTierInUse
                then writeError StatusConflict ''tier still has keys; delete them first''
                else if err = ErrTierNotFound
                then writeError StatusNotFound (msgTierNotFound @ name)
                else writeError StatusInternalServerError ''failed to delete tier'')
           | (d, Inr _) \<Rightarrow> (reload E (s\<lparr>sv_DB := d\<rparr>), writeJSON StatusOK (StatusBody statusDeleted))))"

definition ListTiers :: handler where
  "ListTiers E r s =
     (case GetAllTiers (sv_DB s) of
        (d, Inl err) \<Rightarrow> (s\<lparr>sv_DB := d\<rparr>, writeError StatusInternalServerError msgDatabaseError)
      | (d, Inr tiers) \<Rightarrow>
          (case TierFeaturesByTier d of
             (d, Inl err) \<Rightarrow> (s\<lparr>sv_DB := d\<rparr>, writeError StatusInternalServerError msgDatabaseError)
           | (d, Inr byTier) \<Rightarrow>
               (s\<lparr>sv_DB := d\<rparr>,
                writeJSON StatusOK (TierViews (map (\<lambda>t. tierResponse t
                  (fold (\<lambda>f. mput (tf_Feature f) \<lparr>fb_RateLimit = tf_RateLimit f,
                     fb_WindowSeconds = tf_WindowSeconds f\<rparr>) (rows_of byTier (tier_ID t)) [])) tiers)))))"

section \<open>Consumers\<close>

text \<open>The token is the hexadecimal form of 32 random bytes; only its hash is stored.\<close>

definition CreateConsumer_h :: handler where
  "CreateConsumer_h E r s =
     (case decodeBody (env_decode_consumer E) r of
        Inl resp \<Rightarrow> (s, resp)
      | Inr (name, description) \<Rightarrow>
          (if name = [] then (s, writeError StatusBadRequest ''name is required'')
           else case env_rand E 0 of
                  None \<Rightarrow> (s, writeError StatusInternalServerError ''failed to generate token'')
                | Some bytes \<Rightarrow>
                    (let token = EncodeToString (take consumerTokenBytes bytes);
                         consumer = \<lparr>c_ID = env_uuid E 0, c_Name = name, c_TokenHash = hashToken E token,
                           c_Description = description, c_IsActive = True, c_CreatedAt = zeroTime\<rparr>
                     in case CreateConsumer consumer (sv_DB s) of
                          (d, Inl err) \<Rightarrow>
                            (s\<lparr>sv_DB := d\<rparr>,
                             if err = ErrDuplicate
                             then writeError StatusConflict (''consumer already exists: '' @ name)
                             else writeError StatusInternalServerError ''failed to create consumer'')
                        | (d, Inr _) \<Rightarrow>
                            (s\<lparr>sv_DB := d\<rparr>, writeJSON StatusCreated
                               (CreatedConsumer (c_ID consumer) (c_Name consumer) token)))))"

definition ListConsumers :: handler where
  "ListConsumers E r s =
     (case GetAllConsumers (sv_DB s) of
        (d, Inl err) \<Rightarrow> (s\<lparr>sv_DB := d\<rparr>, writeError StatusInternalServerError msgDatabaseError)
      | (d, Inr consumers) \<Rightarrow>
          (case GetAllTiers d of
             (d, Inl err) \<Rightarrow> (s\<lparr>sv_DB := d\<rparr>, writeError StatusInternalServerError msgDatabaseError)
           | (d, Inr tiers) \<Rightarrow>
               (case ConsumerScopesByConsumer d of
                  (d, Inl err) \<Rightarrow> (s\<lparr>sv_DB := d\<rparr>, writeError StatusInternalServerError msgDatabaseError)
                | (d, Inr byConsumer) \<Rightarrow>
                    (let tierName = fold (\<lambda>t. mput (tier_ID t) (tier_Name t)) tiers [] in
                     (s\<lparr>sv_DB := d\<rparr>,
                      writeJSON StatusOK (ListedConsumers (map (\<lambda>c.
                        \<lparr>lc_ID = c_ID c, lc_Name = c_Name c, lc_Description = c_Description c,
                         lc_IsActive = c_IsActive c,
                         lc_Scopes = List.map_filter (mget tierName) (rows_of byConsumer (c_ID c))\<rparr>)
                        consumers)))))))"

definition DeleteConsumer_h :: handler where
  "DeleteConsumer_h E r s =
     (case DeleteConsumer (PathValue r pathID) (sv_DB s) of
        (d, Inl err) \<Rightarrow>
          (s\<lparr>sv_DB := d\<rparr>, writeError StatusInternalServerError ''failed to delete consumer'')
      | (d, Inr _) \<Rightarrow> (s\<lparr>sv_DB := d\<rparr>, writeJSON StatusOK (StatusBody statusDeleted)))"

definition AddConsumerScope_h :: handler where
  "AddConsumerScope_h E r s =
     (let i = PathValue r pathID in
      case decodeBody (env_decode_scope E) r of
        Inl resp \<Rightarrow> (s, resp)
      | Inr tierName \<Rightarrow>
          (if tierName = [] then (s, writeError StatusBadRequest ''tier is required'')
           else case tierNamed tierName s of
                  (s, Inl resp) \<Rightarrow> (s, resp)
                | (s, Inr tier) \<Rightarrow>
                    (case AddConsumerScope i (tier_ID tier) (sv_DB s) of
                       (d, Inl err) \<Rightarrow>
                         (s\<lparr>sv_DB := d\<rparr>, writeError StatusInternalServerError ''failed to add scope'')
                     | (d, Inr _) \<Rightarrow>
                         (s\<lparr>sv_DB := d\<rparr>, writeJSON StatusCreated (GrantedScope i (tier_Name tier))))))"

section \<open>The audit log and the health checks\<close>

definition ListUsageEvents_h :: handler where
  "ListUsageEvents_h E r s =
     (case ListUsageEvents (parseLimit (rq_query r limitParam) defaultUsageListLimit maxUsageListLimit)
             (sv_DB s) of
        (d, Inl err) \<Rightarrow> (s\<lparr>sv_DB := d\<rparr>, writeError StatusInternalServerError msgDatabaseError)
      | (d, Inr events) \<Rightarrow>
          (s\<lparr>sv_DB := d\<rparr>,
           writeJSON StatusOK (UsageEvents (map (\<lambda>e. \<lparr>uv_KeyID = ue_KeyID e,
             uv_ConsumerID = ue_ConsumerID e, uv_Feature = ue_Feature e,
             uv_CreatedAt = rfc3339 (ue_CreatedAt e)\<rparr>) events))))"

definition HealthCheck :: handler where
  "HealthCheck E r s = (s, writeJSON StatusOK (StatusBody statusOK))"

definition Health :: handler where
  "Health E r s =
     (s, writeJSON StatusOK (PoolHealth (PoolSize (sv_Pool s)) (Enabled (sv_Sealer s))))"

end
