(* ===== verification/Router.thy ===== *)
theory Router
  imports Admin_Handlers
begin

text \<open>
  \<open>internal/api/router.go\<close>: the routes, and what \<open>http.ServeMux\<close> does with them: the pattern that
  matches the method and the path, with its wildcards bound; a GET pattern also takes HEAD; a path
  that only another method matches is answered 405, any other 404. Paths come cleaned and split
  at the slashes; no two of the patterns overlap, so the order of the table does not matter.
\<close>

datatype segment = Lit string | Wild string

record route =
  rt_method :: meth
  rt_path :: "segment list"
  rt_handler :: handler

text \<open>The wildcards of a pattern bound to the segments of a path; no wildcard matches nothing.\<close>

fun match_path :: "segment list \<Rightarrow> string list \<Rightarrow> (string, string) gomap option" where
  "match_path [] [] = Some []"
| "match_path (Lit l # ps) (x # xs) = (if l = x then match_path ps xs else None)"
| "match_path (Wild n # ps) (x # xs) =
     (if x = [] then None else map_option (mput n x) (match_path ps xs))"
| "match_path _ _ = None"

definition method_matches :: "meth \<Rightarrow> meth \<Rightarrow> bool" where
  "method_matches pattern m \<longleftrightarrow> m = pattern \<or> pattern = GET \<and> m = HEAD"

definition admin :: "handler \<Rightarrow> handler" where
  "admin h = AdminAuth (clearAfterWrite h)"

definition open_route :: "meth \<Rightarrow> segment list \<Rightarrow> handler \<Rightarrow> route" where
  "open_route m path h = \<lparr>rt_method = m, rt_path = path, rt_handler = h\<rparr>"

definition admin_route :: "meth \<Rightarrow> segment list \<Rightarrow> handler \<Rightarrow> route" where
  "admin_route m path h = \<lparr>rt_method = m, rt_path = Lit ''admin'' # path, rt_handler = admin h\<rparr>"

definition NewRouter :: "route list" where
  "NewRouter =
     [open_route GET [Lit ''health''] HealthCheck,
      open_route GET [Lit ''key''] GetKey,
      open_route GET [Lit ''key'', Wild ''id''] GetKeyByID,
      open_route POST [Lit ''key'', Wild ''id'', Lit ''exhausted''] ExhaustKey,
      open_route POST [Lit ''key'', Wild ''id'', Lit ''spend''] ReportSpend,
      admin_route GET [Lit ''tiers''] ListTiers,
      admin_route POST [Lit ''tiers''] CreateTier_h,
      admin_route PATCH [Lit ''tiers''] UpdateTierFeatures,
      admin_route DELETE [Lit ''tiers'', Wild ''name''] DeleteTier_h,
      admin_route GET [Lit ''keys''] ListKeys,
      admin_route POST [Lit ''keys''] AddKey,
      admin_route PATCH [Lit ''keys'', Wild ''id''] SetKeyBudget,
      admin_route DELETE [Lit ''keys'', Wild ''id''] DeleteKey_h,
      admin_route GET [Lit ''health''] Health,
      admin_route GET [Lit ''consumers''] ListConsumers,
      admin_route POST [Lit ''consumers''] CreateConsumer_h,
      admin_route DELETE [Lit ''consumers'', Wild ''id''] DeleteConsumer_h,
      admin_route POST [Lit ''consumers'', Wild ''id'', Lit ''scopes''] AddConsumerScope_h,
      admin_route GET [Lit ''usage''] ListUsageEvents_h]"

definition find_route :: "request \<Rightarrow> (route \<times> (string, string) gomap) option" where
  "find_route r =
     (case List.map_filter (\<lambda>t. if method_matches (rt_method t) (rq_method r)
             then map_option (Pair t) (match_path (rt_path t) (rq_path r)) else None) NewRouter of
        [] \<Rightarrow> None
      | x # _ \<Rightarrow> Some x)"

definition ServeHTTP :: handler where
  "ServeHTTP E r s =
     (case find_route r of
        Some (t, values) \<Rightarrow> rt_handler t E (r\<lparr>rq_values := values\<rparr>) s
      | None \<Rightarrow>
          (if \<exists>t\<in>set NewRouter. match_path (rt_path t) (rq_path r) \<noteq> None
           then (s, writeJSON StatusMethodNotAllowed (PlainText ''Method Not Allowed''))
           else (s, writeJSON StatusNotFound (PlainText ''404 page not found''))))"

end
