(* ===== verification/Access.thy ===== *)
theory Access
  imports Router Reload
begin

text \<open>
  Who may do what. The permissions of a caller as the tables give them, \<open>authorized\<close>, are the
  specification of \<open>resolveKeyCaller\<close> with its cache; a cache is \<open>coherent\<close> when it holds nothing
  the tables do not say.
\<close>

section \<open>The cache and the tables\<close>

definition db_caller :: "string \<Rightarrow> pg \<Rightarrow> keyCaller option" where
  "db_caller h d =
     (case find (\<lambda>c. c_TokenHash c = h \<and> c_IsActive c) (pg_consumers d) of
        None \<Rightarrow> None
      | Some c \<Rightarrow> Some \<lparr>kc_consumerID = c_ID c, kc_allowedTierIDs =
          Some (allowed_of (map snd (filter (\<lambda>x. fst x = c_ID c) (pg_consumer_scopes d))))\<rparr>)"

lemma db_caller_cong:
  "pg_consumers d' = pg_consumers d \<Longrightarrow> pg_consumer_scopes d' = pg_consumer_scopes d \<Longrightarrow>
   db_caller h d' = db_caller h d"
  by (simp add: db_caller_def split: option.split)

lemma consumer_lookup_cases:
  assumes "consumer_lookup h d = (d', r)"
  shows "tables d' = tables d" "r = Inr x \<Longrightarrow> x = db_caller h d"
proof -
  obtain d1 r1 where c: "GetConsumerByTokenHash h d = (d1, r1)" by fastforce
  have t1: "tables d1 = tables d \<and> (\<forall>x. r1 = Inr x \<longrightarrow>
      x = find (\<lambda>c. c_TokenHash c = h \<and> c_IsActive c) (pg_consumers d))"
    using c unfolding GetConsumerByTokenHash_def by (auto elim: exec_cases)
  have scopes: "tables d2 = tables d1 \<and> (\<forall>x. r2 = Inr x \<longrightarrow>
      x = map snd (filter (\<lambda>x. fst x = i) (pg_consumer_scopes d1)))"
    if "GetConsumerScopes i d1 = (d2, r2)" for i d2 r2
    using that unfolding GetConsumerScopes_def by (auto elim: exec_cases)
  have "tables d' = tables d \<and> (\<forall>x. r = Inr x \<longrightarrow> x = db_caller h d)"
  proof (cases r1)
    case (Inl e)
    with assms c t1 show ?thesis by (auto simp: consumer_lookup_def dbind_def)
  next
    case (Inr found)
    show ?thesis
    proof (cases found)
      case None
      with assms c t1 Inr show ?thesis
        by (auto simp: consumer_lookup_def dbind_def dreturn_def db_caller_def)
    next
      case (Some u)
      with t1 Inr have u: "find (\<lambda>c. c_TokenHash c = h \<and> c_IsActive c) (pg_consumers d) = Some u" by simp
      then have "c_TokenHash u = h" using find_found [OF u] by simp
      obtain d2 r2 where s: "GetConsumerScopes (c_ID u) d1 = (d2, r2)" by fastforce
      show ?thesis
        using assms c t1 Inr Some s scopes [OF s] u \<open>c_TokenHash u = h\<close> tables_fields(6) [of d1 d]
        by (cases r2) (auto simp: consumer_lookup_def dbind_def dreturn_def db_caller_def)
    qed
  qed
  then show "tables d' = tables d" "r = Inr x \<Longrightarrow> x = db_caller h d" by simp_all
qed

definition coherent :: "server \<Rightarrow> bool" where
  "coherent s \<longleftrightarrow> (\<forall>h e. mget (ac_entries (sv_Auth s)) h = Some e \<longrightarrow>
     db_caller h (sv_DB s) = Some (ae_caller e))"

lemma coherent_cong:
  "sv_Auth s' = sv_Auth s \<Longrightarrow> pg_consumers (sv_DB s') = pg_consumers (sv_DB s) \<Longrightarrow>
   pg_consumer_scopes (sv_DB s') = pg_consumer_scopes (sv_DB s) \<Longrightarrow> coherent s' = coherent s"
  by (simp add: coherent_def db_caller_cong [of "sv_DB s'" "sv_DB s"])

lemma coherent_clear [simp]: "coherent (s\<lparr>sv_Auth := cache_clear c\<rparr>)"
  by (simp add: coherent_def cache_clear_def)

section \<open>Resolving a caller\<close>

definition authorized :: "env \<Rightarrow> request \<Rightarrow> server \<Rightarrow> keyCaller option" where
  "authorized E r s =
     (case bearerToken r of
        None \<Rightarrow> None
      | Some token \<Rightarrow>
          (if token = sv_AdminToken s
           then Some \<lparr>kc_consumerID = adminConsumerID, kc_allowedTierIDs = None\<rparr>
           else db_caller (hashToken E token) (sv_DB s)))"

text \<open>What a lookup may change: the cache, and nothing else but the calls to come.\<close>

definition same_state :: "server \<Rightarrow> server \<Rightarrow> bool" where
  "same_state s' s \<longleftrightarrow> tables (sv_DB s') = tables (sv_DB s) \<and> sv_Pool s' = sv_Pool s
     \<and> sv_AdminToken s' = sv_AdminToken s \<and> sv_Sealer s' = sv_Sealer s"

lemma consumerCaller_cases:
  assumes "consumerCaller now1 now2 h s = (s', res)"
  shows "same_state s' s" "coherent s \<Longrightarrow> coherent s'"
    "coherent s \<Longrightarrow> res = Inr x \<Longrightarrow> x = db_caller h (sv_DB s)"
proof -
  have "same_state s' s \<and> (coherent s \<longrightarrow> coherent s' \<and> (\<forall>x. res = Inr x \<longrightarrow> x = db_caller h (sv_DB s)))"
  proof (cases "cache_get now1 h (sv_Auth s)")
    case (Some caller)
    then have "coherent s \<Longrightarrow> db_caller h (sv_DB s) = Some caller"
      by (auto simp: cache_get_def coherent_def split: option.splits if_splits)
    with assms Some show ?thesis by (auto simp: consumerCaller_def same_state_def)
  next
    case None
    obtain d r where c: "consumer_lookup h (sv_DB s) = (d, r)" by fastforce
    note l = consumer_lookup_cases [OF c]
    have same: "db_caller h' d = db_caller h' (sv_DB s)" for h'
      using tables_fields(5,6) [OF l(1)] by (rule db_caller_cong)
    show ?thesis
      using assms None c l same
      by (auto simp: consumerCaller_def same_state_def coherent_def cache_put_def
          split: sum.splits option.splits if_splits)
  qed
  then show "same_state s' s" "coherent s \<Longrightarrow> coherent s'"
    "coherent s \<Longrightarrow> res = Inr x \<Longrightarrow> x = db_caller h (sv_DB s)" by blast+
qed

lemma resolveKeyCaller_cases:
  assumes "resolveKeyCaller E r s = (s', res)"
  shows "same_state s' s" "coherent s \<Longrightarrow> coherent s'"
    "coherent s \<Longrightarrow> res = Inr caller \<Longrightarrow> authorized E r s = Some caller"
    "coherent s \<Longrightarrow> res = Inl resp \<Longrightarrow> rs_status resp = StatusInternalServerError
       \<or> rs_status resp = StatusUnauthorized \<and> authorized E r s = None"
proof -
  have "same_state s' s \<and> (coherent s \<longrightarrow> coherent s'
    \<and> (\<forall>caller. res = Inr caller \<longrightarrow> authorized E r s = Some caller)
    \<and> (\<forall>resp. res = Inl resp \<longrightarrow> rs_status resp = StatusInternalServerError
       \<or> rs_status resp = StatusUnauthorized \<and> authorized E r s = None))"
  proof (cases "bearerToken r")
    case None
    with assms show ?thesis
      by (auto simp: resolveKeyCaller_def authorized_def same_state_def writeError_def writeJSON_def)
  next
    case (Some token)
    show ?thesis
    proof (cases "token = sv_AdminToken s")
      case True
      with assms Some show ?thesis by (auto simp: resolveKeyCaller_def authorized_def same_state_def)
    next
      case False
      obtain s1 found where c: "consumerCaller (env_now E 0) (env_now E 1) (hashToken E token) s = (s1, found)"
        by fastforce
      note l = consumerCaller_cases [OF c]
      show ?thesis
        using assms Some False c l
        by (auto simp: resolveKeyCaller_def authorized_def writeError_def writeJSON_def
            split: sum.splits option.splits)
    qed
  qed
  then show "same_state s' s" "coherent s \<Longrightarrow> coherent s'"
    "coherent s \<Longrightarrow> res = Inr caller \<Longrightarrow> authorized E r s = Some caller"
    "coherent s \<Longrightarrow> res = Inl resp \<Longrightarrow> rs_status resp = StatusInternalServerError
       \<or> rs_status resp = StatusUnauthorized \<and> authorized E r s = None"
    by blast+
qed

section \<open>What the handlers keep\<close>

text \<open>
  The state the server must be in: the constraints of the schema and the invariant of the pool.
  The tables who may do what is read from are left alone by every call but those on consumers,
  scopes and tiers.
\<close>

definition sane :: "server \<Rightarrow> bool" where
  "sane s \<longleftrightarrow> schema_ok (sv_DB s) \<and> pool_ok (sv_Pool s)"

definition permits :: "pg \<Rightarrow> Consumer list \<times> (string \<times> string) list" where
  "permits d = (pg_consumers d, pg_consumer_scopes d)"

lemma sane_same_state: "same_state s' s \<Longrightarrow> sane s' = sane s"
  using schema_ok_tables [of "sv_DB s'" "sv_DB s"] by (auto simp: same_state_def sane_def)

lemma coherent_permits:
  "sv_Auth s' = sv_Auth s \<Longrightarrow> permits (sv_DB s') = permits (sv_DB s) \<Longrightarrow> coherent s' = coherent s"
  by (rule coherent_cong) (simp_all add: permits_def)

lemma permits_tables: "tables d' = tables d \<Longrightarrow> permits d' = permits d"
  using tables_fields(5,6) [of d' d] by (simp add: permits_def)

lemma keeps_permits_exec:
  "(\<And>s s' a. stmt s = Inr (s', a) \<Longrightarrow> permits s' = permits s) \<Longrightarrow>
   keeps (\<lambda>d. permits d = p) (exec stmt)"
  by (rule keeps_exec) (auto simp: faultless_def permits_def)

lemma keeps_permits_transaction:
  "keeps (\<lambda>d. permits d = p) body \<Longrightarrow> keeps (\<lambda>d. permits d = p) (transaction body)"
  by (rule keeps_transaction) (simp_all add: faultless_def permits_def)

lemma keepsD: "keeps P op \<Longrightarrow> P s \<Longrightarrow> op s = (s', r) \<Longrightarrow> P s'"
  by (auto simp: keeps_def)

text \<open>The statements on keys and on the logs.\<close>

lemma permits_stmts:
  "update_keys i g d = Inr (d', n) \<Longrightarrow> permits d' = permits d"
  "copy_events es d = Inr (d', u) \<Longrightarrow> permits d' = permits d"
  "insert_spend e d = Inr (d', n) \<Longrightarrow> permits d' = permits d"
  "select_spent i t d = Inr (d', x) \<Longrightarrow> permits d' = permits d"
  "update_spent i t a d = Inr (d', x) \<Longrightarrow> permits d' = permits d"
  by (auto simp: update_keys_def copy_events_def insert_spend_def select_spent_def update_spent_def
      permits_def Let_def split: if_splits option.splits)

lemma permits_key_calls:
  "keeps (\<lambda>d. permits d = p) (SetKeyExhausted i until)"
  "keeps (\<lambda>d. permits d = p) (AddUsage i n)" "keeps (\<lambda>d. permits d = p) (ResetUsageWindow i t n)"
  "keeps (\<lambda>d. permits d = p) (RecordUsageEvents es)"
  unfolding SetKeyExhausted_def AddUsage_def ResetUsageWindow_def RecordUsageEvents_def ignore_rows_def
  by (auto intro!: keeps_dbind keeps_permits_exec dest: permits_stmts split: if_splits)

lemma permits_RecordSpend: "keeps (\<lambda>d. permits d = p) (RecordSpend_db e start)"
  unfolding RecordSpend_db_def Let_def
  by (auto intro!: keeps_permits_transaction keeps_dbind keeps_permits_exec dest: permits_stmts
      split: option.split)

text \<open>
  A handler keeps the state sane; one that is also quiet leaves the cache coherent. \<open>leaves\<close> is
  both at one request.
\<close>

definition leaves :: "server \<Rightarrow> server \<Rightarrow> bool" where
  "leaves s s' \<longleftrightarrow> (sane s \<longrightarrow> sane s') \<and> (sane s \<longrightarrow> coherent s \<longrightarrow> coherent s')"

definition sound :: "handler \<Rightarrow> bool" where
  "sound h \<longleftrightarrow> (\<forall>E r s. sane s \<longrightarrow> sane (fst (h E r s)))"

definition quiet :: "handler \<Rightarrow> bool" where
  "quiet h \<longleftrightarrow> (\<forall>E r s. leaves s (fst (h E r s)))"

lemma leaves_refl [simp]: "leaves s s"
  by (simp add: leaves_def)

lemma leaves_trans [trans]: "leaves s s1 \<Longrightarrow> leaves s1 s' \<Longrightarrow> leaves s s'"
  by (auto simp: leaves_def)

lemma leavesI:
  "(sane s \<Longrightarrow> sane s') \<Longrightarrow> sv_Auth s' = sv_Auth s \<Longrightarrow> (sane s \<Longrightarrow> permits (sv_DB s') = permits (sv_DB s)) \<Longrightarrow>
   leaves s s'"
  using coherent_permits [of s' s] by (auto simp: leaves_def)

lemma sane_queue_event [simp]: "sane (queue_event e s) = sane s"
  by (simp add: queue_event_def sane_def pool_ok_def)

lemma queue_event_fields [simp]:
  "sv_Auth (queue_event e s) = sv_Auth s" "sv_DB (queue_event e s) = sv_DB s"
  "sv_Sealer (queue_event e s) = sv_Sealer s" "sv_AdminToken (queue_event e s) = sv_AdminToken s"
  by (simp_all add: queue_event_def)

lemma answer_key_keeps:
  assumes "answer_key E caller f key s = (s', resp)"
  shows "sane s' = sane s" "sv_Auth s' = sv_Auth s" "sv_DB s' = sv_DB s"
  using assms by (auto simp: answer_key_def split: sum.splits)

lemma sane_pool: "sane s \<Longrightarrow> pool_ok m \<Longrightarrow> sane (s\<lparr>sv_Pool := m\<rparr>)"
  by (simp add: sane_def)

lemma sane_db: "sane s \<Longrightarrow> keeps schema_ok op \<Longrightarrow> op (sv_DB s) = (d, r) \<Longrightarrow> sane (s\<lparr>sv_DB := d\<rparr>)"
  by (auto simp: sane_def keeps_def)

lemma reload_keeps:
  assumes "sane s"
  shows "sane (reload E s)" "sv_Auth (reload E s) = sv_Auth s"
    "tables (sv_DB (reload E s)) = tables (sv_DB s)"
proof -
  obtain m d err where r: "ReloadKeys (pg_pool (env_codec E)) (sv_Pool s) (sv_DB s) = (m, d, err)"
    by (cases "ReloadKeys (pg_pool (env_codec E)) (sv_Pool s) (sv_DB s)") auto
  then have e: "reload E s = s\<lparr>sv_Pool := m, sv_DB := d\<rparr>" by (simp add: reload_def)
  have ok: "pool_ok (sv_Pool s)" "schema_ok (sv_DB s)" using assms by (simp_all add: sane_def)
  then show "sane (reload E s)" using pgp.ReloadKeys_ok [OF ok r] by (simp add: e sane_def)
  show "sv_Auth (reload E s) = sv_Auth s" by (simp add: e)
  have "distinct (map pk_ID (m_keys (sv_Pool s)))" using ok by (simp add: pool_ok_def)
  with r have "tables d = tables (sv_DB s)" by (cases rule: ReloadKeys_cases) simp_all
  then show "tables (sv_DB (reload E s)) = tables (sv_DB s)" by (simp add: e)
qed

lemma leaves_resolve: "resolveKeyCaller E r s = (s', res) \<Longrightarrow> leaves s s'"
  using resolveKeyCaller_cases [of E r s s' res] sane_same_state by (auto simp: leaves_def)

lemma leaves_pool: "(pool_ok (sv_Pool s) \<Longrightarrow> pool_ok m) \<Longrightarrow> leaves s (s\<lparr>sv_Pool := m\<rparr>)"
  by (rule leavesI) (auto simp: sane_def)

lemma leaves_db:
  assumes "keeps schema_ok op" "keeps (\<lambda>d. permits d = permits (sv_DB s)) op" "op (sv_DB s) = (d, r)"
  shows "leaves s (s\<lparr>sv_DB := d\<rparr>)"
proof (rule leavesI)
  show "sane (s\<lparr>sv_DB := d\<rparr>)" if "sane s" using sane_db [OF that assms(1,3)] .
  show "permits (sv_DB (s\<lparr>sv_DB := d\<rparr>)) = permits (sv_DB s)"
    using keepsD [OF assms(2) refl assms(3)] by simp
qed simp

lemma leaves_reload: "leaves s (reload E s)"
proof (rule leavesI)
  show "sv_Auth (reload E s) = sv_Auth s" by (simp add: reload_def split: prod.split)
  show "sane s \<Longrightarrow> sane (reload E s)" by (rule reload_keeps)
  show "sane s \<Longrightarrow> permits (sv_DB (reload E s)) = permits (sv_DB s)"
    by (rule permits_tables) (rule reload_keeps)
qed

lemma leaves_answer: "leaves s (fst (answer_key E caller f key s))"
proof -
  obtain s' resp where a: "answer_key E caller f key s = (s', resp)" by fastforce
  note k = answer_key_keeps [OF a]
  have "leaves s s'" by (rule leavesI) (simp_all add: k)
  with a show ?thesis by simp
qed

text \<open>The routes of the callers.\<close>

lemma quiet_GetKey: "quiet GetKey"
  unfolding quiet_def
proof (intro allI)
  fix E r and s :: server
  obtain s1 res where c: "resolveKeyCaller E r s = (s1, res)" by fastforce
  have "leaves s1 (fst (GetKey E r s))"
  proof (cases res)
    case (Inr caller)
    obtain m out where g: "GetKeyForFeature (\<lambda>n. env_now E (n + 3)) (rq_query r featureParam)
        (kc_allowedTierIDs caller) (sv_Pool s1) = (m, out)" by fastforce
    have m: "leaves s1 (s1\<lparr>sv_Pool := m\<rparr>)"
      by (rule leaves_pool) (use pool_ok_draws(1) g in \<open>metis fst_conv\<close>)
    with leaves_answer [of "s1\<lparr>sv_Pool := m\<rparr>"] show ?thesis
      using c Inr g by (auto simp: GetKey_def Let_def split: sum.split intro: leaves_trans)
  qed (use c in \<open>simp add: GetKey_def\<close>)
  with leaves_resolve [OF c] show "leaves s (fst (GetKey E r s))" by (rule leaves_trans)
qed

lemma quiet_GetKeyByID: "quiet GetKeyByID"
  unfolding quiet_def
proof (intro allI)
  fix E r and s :: server
  obtain s1 res where c: "resolveKeyCaller E r s = (s1, res)" by fastforce
  have "leaves s1 (fst (GetKeyByID E r s))"
  proof (cases res)
    case (Inr caller)
    obtain m out where g: "KeyByID (\<lambda>n. env_now E (n + 3)) (PathValue r pathID) (rq_query r featureParam)
        (kc_allowedTierIDs caller) (sv_Pool s1) = (m, out)" by fastforce
    have m: "leaves s1 (s1\<lparr>sv_Pool := m\<rparr>)"
      by (rule leaves_pool) (use pool_ok_draws(2) g in \<open>metis fst_conv\<close>)
    with leaves_answer [of "s1\<lparr>sv_Pool := m\<rparr>"] show ?thesis
      using c Inr g by (auto simp: GetKeyByID_def Let_def split: sum.split intro: leaves_trans)
  qed (use c in \<open>simp add: GetKeyByID_def\<close>)
  with leaves_resolve [OF c] show "leaves s (fst (GetKeyByID E r s))" by (rule leaves_trans)
qed

lemma quiet_ExhaustKey: "quiet ExhaustKey"
  unfolding quiet_def
proof (intro allI)
  fix E r and s :: server
  obtain s1 res where c: "resolveKeyCaller E r s = (s1, res)" by fastforce
  let ?i = "PathValue r pathID"
  have mark: "leaves s1 (queue_event e (s1\<lparr>sv_Pool := m, sv_DB := d\<rparr>))"
    if x: "MarkExhausted (pg_pool (env_codec E)) ?i until (sv_Pool s1) (sv_DB s1) = (m, d, b)"
    for until m d b e
  proof (rule leavesI)
    show "sane (queue_event e (s1\<lparr>sv_Pool := m, sv_DB := d\<rparr>))" if "sane s1"
      using pgp.MarkExhausted_ok [OF _ _ x] that by (simp add: sane_def queue_event_def pool_ok_def)
    have "permits (fst (SetKeyExhausted ?i until (sv_DB s1))) = permits (sv_DB s1)"
      using permits_key_calls(1) [of "permits (sv_DB s1)" ?i until] unfolding keeps_def
      by (metis prod.collapse)
    then show "permits (sv_DB (queue_event e (s1\<lparr>sv_Pool := m, sv_DB := d\<rparr>))) = permits (sv_DB s1)"
      using x by (auto simp: MarkExhausted_def pg_pool_def err_of_def split: option.splits)
  qed simp
  have "leaves s1 (fst (ExhaustKey E r s))"
    using c mark by (auto simp: ExhaustKey_def Let_def split: sum.split option.split prod.split)
  with leaves_resolve [OF c] show "leaves s (fst (ExhaustKey E r s))" by (rule leaves_trans)
qed

lemma permits_spend:
  assumes "RecordSpend (pg_pool codec) t e m d = (m', d', out)"
  shows "permits d' = permits d"
proof -
  have "permits (fst (RecordSpend_db e start d)) = permits d" for start
    using permits_RecordSpend [of "permits d" e start] unfolding keeps_def by (metis prod.collapse)
  then show ?thesis
    using assms by (auto simp: RecordSpend_def pg_pool_def split: sum.splits prod.splits dberr.splits)
      (metis fst_conv)+
qed

lemma quiet_ReportSpend: "quiet ReportSpend"
  unfolding quiet_def
proof (intro allI)
  fix E r and s :: server
  obtain s1 res where c: "resolveKeyCaller E r s = (s1, res)" by fastforce
  have spend: "leaves s1 (s1\<lparr>sv_Pool := m, sv_DB := d\<rparr>)"
    if x: "RecordSpend (pg_pool (env_codec E)) t e (sv_Pool s1) (sv_DB s1) = (m, d, out)" for t e m d out
  proof (rule leavesI)
    show "sane (s1\<lparr>sv_Pool := m, sv_DB := d\<rparr>)" if "sane s1"
      using pgp.RecordSpend_ok [OF _ _ x] that by (simp add: sane_def)
    show "permits (sv_DB (s1\<lparr>sv_Pool := m, sv_DB := d\<rparr>)) = permits (sv_DB s1)"
      using permits_spend [OF x] by simp
  qed simp
  have "leaves s1 (fst (ReportSpend E r s))"
    using c spend by (auto simp: ReportSpend_def Let_def split: sum.split option.split prod.split)
  with leaves_resolve [OF c] show "leaves s (fst (ReportSpend E r s))" by (rule leaves_trans)
qed

text \<open>Calls that only read.\<close>

definition reads :: "'a dbop \<Rightarrow> bool" where
  "reads op \<longleftrightarrow> (\<forall>d d' r. op d = (d', r) \<longrightarrow> tables d' = tables d)"

lemma reads_exec: "(\<And>s s' a. stmt s = Inr (s', a) \<Longrightarrow> s' = s) \<Longrightarrow> reads (exec stmt)"
  unfolding reads_def by (metis exec_cases tables_faults)

lemma reads_calls:
  "reads (GetTierByName n)" "reads GetAllTiers" "reads TierFeaturesByTier" "reads GetAllConsumers"
  "reads ConsumerScopesByConsumer" "reads (ListUsageEvents l)"
  unfolding GetTierByName_def GetAllTiers_def TierFeaturesByTier_def GetAllConsumers_def
    ConsumerScopesByConsumer_def ListUsageEvents_def
  by (rule reads_exec, simp split: if_splits)+

lemma leaves_reads:
  assumes "reads op" "op (sv_DB s) = (d, r)"
  shows "leaves s (s\<lparr>sv_DB := d\<rparr>)"
proof (rule leavesI)
  have t: "tables d = tables (sv_DB s)" using assms by (simp add: reads_def)
  show "sane (s\<lparr>sv_DB := d\<rparr>)" if "sane s" using that schema_ok_tables [OF t] by (simp add: sane_def)
  show "permits (sv_DB (s\<lparr>sv_DB := d\<rparr>)) = permits (sv_DB s)" using permits_tables [OF t] by simp
qed simp

lemma leaves_tierNamed: "tierNamed n s = (s', res) \<Longrightarrow> leaves s s'"
  using leaves_reads [OF reads_calls(1)]
  by (auto simp: tierNamed_def split: prod.splits sum.splits option.splits)

lemma quiet_listings: "quiet HealthCheck" "quiet Health" "quiet ListKeys"
  by (simp_all add: quiet_def HealthCheck_def Health_def ListKeys_def)

lemma quiet_ListUsageEvents: "quiet ListUsageEvents_h"
  using leaves_reads [OF reads_calls(6)]
  by (auto simp: quiet_def ListUsageEvents_h_def split: prod.splits sum.splits)

lemma quiet_ListTiers: "quiet ListTiers"
  unfolding quiet_def
proof (intro allI)
  fix E r and s :: server
  obtain d1 r1 where c1: "GetAllTiers (sv_DB s) = (d1, r1)" by fastforce
  obtain d2 r2 where c2: "TierFeaturesByTier d1 = (d2, r2)" by fastforce
  have "leaves s (s\<lparr>sv_DB := d1\<rparr>)" using leaves_reads [OF reads_calls(2) c1] .
  moreover have "leaves (s\<lparr>sv_DB := d1\<rparr>) (s\<lparr>sv_DB := d2\<rparr>)"
    using leaves_reads [OF reads_calls(3), of "s\<lparr>sv_DB := d1\<rparr>"] c2 by simp
  ultimately show "leaves s (fst (ListTiers E r s))"
    using c1 c2 by (auto simp: ListTiers_def split: sum.splits intro: leaves_trans)
qed

lemma quiet_ListConsumers: "quiet ListConsumers"
  unfolding quiet_def
proof (intro allI)
  fix E r and s :: server
  obtain d1 r1 where c1: "GetAllConsumers (sv_DB s) = (d1, r1)" by fastforce
  obtain d2 r2 where c2: "GetAllTiers d1 = (d2, r2)" by fastforce
  obtain d3 r3 where c3: "ConsumerScopesByConsumer d2 = (d3, r3)" by fastforce
  have l1: "leaves s (s\<lparr>sv_DB := d1\<rparr>)" using leaves_reads [OF reads_calls(4) c1] .
  have l2: "leaves s (s\<lparr>sv_DB := d2\<rparr>)"
    using leaves_reads [OF reads_calls(2), of "s\<lparr>sv_DB := d1\<rparr>"] c2 l1 by (auto intro: leaves_trans)
  have l3: "leaves s (s\<lparr>sv_DB := d3\<rparr>)"
    using leaves_reads [OF reads_calls(5), of "s\<lparr>sv_DB := d2\<rparr>"] c3 l2 by (auto intro: leaves_trans)
  show "leaves s (fst (ListConsumers E r s))"
    using c1 c2 c3 l1 l2 l3 by (auto simp: ListConsumers_def Let_def split: sum.splits)
qed

text \<open>The writes of the administrator.\<close>

lemma soundI: "(\<And>E r s s' resp. sane s \<Longrightarrow> h E r s = (s', resp) \<Longrightarrow> sane s') \<Longrightarrow> sound h"
  unfolding sound_def by (metis prod.collapse)

lemma sane_reload: "sane s \<Longrightarrow> sane (reload E s)"
  by (rule reload_keeps)

lemma sane_tierNamed: "tierNamed n s = (s', res) \<Longrightarrow> sane s \<Longrightarrow> sane s'"
  using leaves_tierNamed by (auto simp: leaves_def)

lemma sound_AddKey: "sound AddKey"
proof (rule soundI)
  fix E r and s s' :: server and resp
  assume s: "sane s" "AddKey E r s = (s', resp)"
  have create: "sane (s1\<lparr>sv_DB := d\<rparr>)" if "sane s1" "CreateKey c k xs (sv_DB s1) = (d, x)" for s1 c k xs d x
    using sane_db [OF that(1) schema_key_rows(1) that(2)] .
  show "sane s'"
    using s by (auto simp: AddKey_def dest: sane_tierNamed create
        split: sum.splits prod.splits intro!: sane_reload)
qed

lemma sound_DeleteKey: "sound DeleteKey_h"
proof (rule soundI)
  fix E r and s s' :: server and resp
  assume s: "sane s" "DeleteKey_h E r s = (s', resp)"
  then show "sane s'"
    using sane_db [OF s(1) schema_key_rows(2) [of "PathValue r pathID"]]
    by (auto simp: DeleteKey_h_def split: sum.splits prod.splits intro!: sane_reload)
qed

lemma sound_SetKeyBudget: "sound SetKeyBudget"
proof (rule soundI)
  fix E r and s s' :: server and resp
  assume s: "sane s" "SetKeyBudget E r s = (s', resp)"
  then show "sane s'"
    using sane_db [OF s(1) schema_keys(4)]
    by (auto simp: SetKeyBudget_def split: sum.splits prod.splits option.splits intro!: sane_reload)
qed

lemma sound_CreateTier: "sound CreateTier_h"
proof (rule soundI)
  fix E r and s s' :: server and resp
  assume s: "sane s" "CreateTier_h E r s = (s', resp)"
  then show "sane s'"
    using sane_db [OF s(1) schema_tiers(1)]
    by (auto simp: CreateTier_h_def Let_def split: sum.splits prod.splits)
qed

lemma sound_UpdateTierFeatures: "sound UpdateTierFeatures"
proof (rule soundI)
  fix E r and s s' :: server and resp
  assume s: "sane s" "UpdateTierFeatures E r s = (s', resp)"
  have description: "sane (s1\<lparr>sv_DB := d\<rparr>)"
    if "sane s1" "UpdateTierDescription i x (sv_DB s1) = (d, y)" for s1 i x d y
    using sane_db [OF that(1) schema_tiers(4) that(2)] .
  have features: "sane (s1\<lparr>sv_DB := d'\<rparr>)"
    if "sane s1" "UpdateTierDescription i x (sv_DB s1) = (d, y)" "SetTierFeatures j z d = (d', v)"
    for s1 i x d y j z d' v
    using sane_db [OF description [OF that(1,2)] schema_tiers(2)] that(3) by simp
  have features0: "sane (s1\<lparr>sv_DB := d'\<rparr>)"
    if "sane s1" "SetTierFeatures i x (sv_DB s1) = (d', y)" for s1 i x d' y
    using sane_db [OF that(1) schema_tiers(2) that(2)] .
  show "sane s'"
    using s by (auto simp: UpdateTierFeatures_def split: sum.splits prod.splits option.splits
        dest: sane_tierNamed description features features0 intro!: sane_reload)
qed

lemma sound_DeleteTier: "sound DeleteTier_h"
proof (rule soundI)
  fix E r and s s' :: server and resp
  assume s: "sane s" "DeleteTier_h E r s = (s', resp)"
  have delete: "sane (s1\<lparr>sv_DB := d\<rparr>)" if "sane s1" "DeleteTier i (sv_DB s1) = (d, x)" for s1 i d x
    using sane_db [OF that(1) schema_tiers(3) that(2)] .
  show "sane s'"
    using s by (auto simp: DeleteTier_h_def Let_def dest: sane_tierNamed delete
        split: sum.splits prod.splits intro!: sane_reload)
qed

lemma sound_consumers: "sound CreateConsumer_h" "sound DeleteConsumer_h" "sound AddConsumerScope_h"
proof -
  have create: "sane (s1\<lparr>sv_DB := d\<rparr>)" if "sane s1" "CreateConsumer c (sv_DB s1) = (d, x)" for s1 c d x
    using sane_db [OF that(1) schema_consumers(1) that(2)] .
  show "sound CreateConsumer_h"
    by (rule soundI) (auto simp: CreateConsumer_h_def Let_def dest: create
        split: sum.splits prod.splits option.splits if_splits)
  have delete: "sane (s1\<lparr>sv_DB := d\<rparr>)" if "sane s1" "DeleteConsumer i (sv_DB s1) = (d, x)" for s1 i d x
    using sane_db [OF that(1) schema_consumers(2) that(2)] .
  show "sound DeleteConsumer_h"
    by (rule soundI) (auto simp: DeleteConsumer_h_def dest: delete split: sum.splits prod.splits)
  have scope: "sane (s1\<lparr>sv_DB := d\<rparr>)"
    if "sane s1" "AddConsumerScope i t (sv_DB s1) = (d, x)" for s1 i t d x
    using sane_db [OF that(1) schema_consumers(3) that(2)] .
  show "sound AddConsumerScope_h"
    by (rule soundI) (auto simp: AddConsumerScope_h_def Let_def dest: sane_tierNamed scope
        split: sum.splits prod.splits if_splits)
qed

section \<open>The routes\<close>

lemma leaves_AdminAuth: "leaves s (fst (h E r s)) \<Longrightarrow> leaves s (fst (AdminAuth h E r s))"
  by (simp add: AdminAuth_def split: option.split)

lemma leaves_clear:
  assumes "quiet h \<or> sound h \<and> rq_method r \<noteq> GET \<and> rq_method r \<noteq> HEAD"
  shows "leaves s (fst (clearAfterWrite h E r s))"
proof (cases "rq_method r \<noteq> GET \<and> rq_method r \<noteq> HEAD")
  case True
  have "sane (fst (h E r s))" if "sane s"
    using assms that by (auto simp: quiet_def sound_def leaves_def)
  moreover have "fst (clearAfterWrite h E r s)
      = (fst (h E r s))\<lparr>sv_Auth := cache_clear (sv_Auth (fst (h E r s)))\<rparr>"
    using True by (simp add: clearAfterWrite_def split: prod.split)
  ultimately show ?thesis by (simp add: leaves_def sane_def)
next
  case False
  then have "fst (clearAfterWrite h E r s) = fst (h E r s)"
    by (auto simp: clearAfterWrite_def split: prod.split)
  moreover have "quiet h" using False assms by blast
  ultimately show ?thesis by (simp add: quiet_def)
qed

definition quiet_route :: "route \<Rightarrow> bool" where
  "quiet_route t \<longleftrightarrow> (\<forall>E r s. method_matches (rt_method t) (rq_method r) \<longrightarrow>
     leaves s (fst (rt_handler t E r s)))"

lemma quiet_open_route: "quiet h \<Longrightarrow> quiet_route (open_route m path h)"
  by (simp add: quiet_route_def quiet_def open_route_def)

lemma quiet_admin_route:
  "quiet h \<or> sound h \<and> m \<noteq> GET \<and> m \<noteq> HEAD \<Longrightarrow> quiet_route (admin_route m path h)"
  by (auto simp: quiet_route_def admin_route_def admin_def method_matches_def
      intro!: leaves_AdminAuth leaves_clear)

lemmas quiet_handlers = quiet_listings quiet_ListUsageEvents quiet_ListTiers quiet_ListConsumers
  quiet_GetKey quiet_GetKeyByID quiet_ExhaustKey quiet_ReportSpend

lemmas sound_handlers = sound_AddKey sound_DeleteKey sound_SetKeyBudget sound_CreateTier
  sound_UpdateTierFeatures sound_DeleteTier sound_consumers

lemma quiet_routes: "list_all quiet_route NewRouter"
  by (simp add: NewRouter_def quiet_open_route quiet_admin_route quiet_handlers sound_handlers)

lemma map_filter_mem: "x \<in> set (List.map_filter f xs) \<Longrightarrow> \<exists>y\<in>set xs. f y = Some x"
  by (auto simp: List.map_filter_def)

lemma find_route_some:
  assumes "find_route r = Some (t, vals)"
  shows "t \<in> set NewRouter" "method_matches (rt_method t) (rq_method r)"
    "match_path (rt_path t) (rq_path r) = Some vals"
proof -
  let ?f = "\<lambda>t. if method_matches (rt_method t) (rq_method r)
      then map_option (Pair t) (match_path (rt_path t) (rq_path r)) else None"
  have "(t, vals) \<in> set (List.map_filter ?f NewRouter)"
    using assms by (auto simp: find_route_def split: list.splits)
  from map_filter_mem [OF this] obtain u where u: "u \<in> set NewRouter" "?f u = Some (t, vals)"
    by (rule bexE)
  from u(2) have "u = t \<and> method_matches (rt_method u) (rq_method r)
      \<and> match_path (rt_path u) (rq_path r) = Some vals"
    by (auto split: if_split_asm)
  with u(1) show "t \<in> set NewRouter" "method_matches (rt_method t) (rq_method r)"
    "match_path (rt_path t) (rq_path r) = Some vals" by auto
qed

lemma leaves_ServeHTTP: "leaves s (fst (ServeHTTP E r s))"
proof (cases "find_route r")
  case (Some tv)
  obtain t vals where tv: "tv = (t, vals)" by (cases tv)
  have "quiet_route t" using find_route_some(1) Some tv quiet_routes by (auto simp: list_all_iff)
  moreover have "method_matches (rt_method t) (rq_method (r\<lparr>rq_values := vals\<rparr>))"
    using find_route_some(2) Some tv by simp
  ultimately have "leaves s (fst (rt_handler t E (r\<lparr>rq_values := vals\<rparr>) s))"
    unfolding quiet_route_def by blast
  with Some tv show ?thesis by (simp add: ServeHTTP_def)
qed (simp add: ServeHTTP_def)

end
