(* ===== verification/Config.thy ===== *)
theory Config
  imports GoTime
begin

text \<open>
  \<open>internal/config/config.go\<close>: the configuration read from the environment, which is a function
  from names to values; a variable that is not set reads as the empty string.
\<close>

definition envAdminToken :: string where "envAdminToken = ''ADMIN_TOKEN''"
definition envDatabaseURL :: string where "envDatabaseURL = ''DATABASE_URL''"
definition envEncryptionKey :: string where "envEncryptionKey = ''ENCRYPTION_KEY''"
definition postgresSchemes :: "string list" where
  "postgresSchemes = [''postgres://'', ''postgresql://'']"

datatype configerr = ErrNoAdminToken | ErrDatabaseURL

record Config =
  cfg_DatabaseURL :: string
  cfg_EncryptionKey :: string
  cfg_AdminToken :: string

fun hasAnyPrefix :: "string \<Rightarrow> string list \<Rightarrow> bool" where
  "hasAnyPrefix s [] = False"
| "hasAnyPrefix s (p # prefixes) = (if hasPrefix s p then True else hasAnyPrefix s prefixes)"

definition Load :: "(string \<Rightarrow> string) \<Rightarrow> configerr + Config" where
  "Load getenv =
     (let cfg = \<lparr>cfg_DatabaseURL = getenv envDatabaseURL, cfg_EncryptionKey = getenv envEncryptionKey,
                cfg_AdminToken = getenv envAdminToken\<rparr>
      in if cfg_AdminToken cfg = [] then Inl ErrNoAdminToken
         else if \<not> hasAnyPrefix (cfg_DatabaseURL cfg) postgresSchemes then Inl ErrDatabaseURL
         else Inr cfg)"

lemma hasAnyPrefix_iff: "hasAnyPrefix s ps \<longleftrightarrow> (\<exists>p\<in>set ps. \<exists>r. s = p @ r)"
  by (induction ps) (simp_all add: hasPrefix_iff)

lemma Load_admin_token: "Load getenv = Inr cfg \<Longrightarrow> cfg_AdminToken cfg \<noteq> []"
  by (auto simp: Load_def Let_def split: if_splits)

end
