(* ===== verification/Server.thy ===== *)
theory Server
  imports Access Balances Config
begin

text \<open>
  The program as a whole: \<open>main\<close> composes the parts, and then requests, flushes and balance syncs
  follow one another in any order while the database comes and goes. Here a request is one step;
  what overlapping requests can do to the cache is stated separately.
\<close>

section \<open>Starting\<close>

definition writebackPeriod :: duration where "writebackPeriod = Second"
definition balancePeriod :: duration where "balancePeriod = 15 * Minute"
definition authCacheTTL :: duration where "authCacheTTL = Minute"

text \<open>
  \<open>main\<close> after the migrations, up to the start of the listener; \<open>None\<close> is an exit. \<open>newGCM\<close> and
  the codec are those of the sealer and of the adapter.
\<close>

definition start_server :: "(string \<Rightarrow> string) \<Rightarrow> (string \<Rightarrow> AEAD option) \<Rightarrow> json_codec \<Rightarrow> pg \<Rightarrow> server option" where
  "start_server getenv newGCM codec d =
     (case Load getenv of
        Inl err \<Rightarrow> None
      | Inr cfg \<Rightarrow>
          (case NewSealer newGCM (cfg_EncryptionKey cfg) of
             Inl err \<Rightarrow> None
           | Inr sealer \<Rightarrow>
               (case NewManager (pg_pool codec) sealer New_Writer d of
                  (d, Inl err) \<Rightarrow> None
                | (d, Inr pool) \<Rightarrow>
                    Some \<lparr>sv_DB = d, sv_Pool = pool, sv_Auth = NewAuthCache authCacheTTL,
                          sv_AdminToken = cfg_AdminToken cfg, sv_Sealer = sealer\<rparr>)))"

section \<open>Running\<close>

datatype action = Request env request
  | FlushTick "(string \<times> usage) list \<Rightarrow> (string \<times> usage) list"
  | SyncTick json_codec syncenv
  | World time "string option list"

fun server_do :: "action \<Rightarrow> server \<Rightarrow> server" where
  "server_do (Request E r) s = fst (ServeHTTP E r s)"
| "server_do (FlushTick order) s =
     (case Flush pg_writer order (m_usage (sv_Pool s)) (sv_DB s) of
        (w, d) \<Rightarrow> s\<lparr>sv_Pool := (sv_Pool s)\<lparr>m_usage := w\<rparr>, sv_DB := d\<rparr>)"
| "server_do (SyncTick codec W) s =
     (case sync (mgr_pool codec) balancePeriod Sources W (sv_Pool s, sv_DB s) of
        (m, d) \<Rightarrow> s\<lparr>sv_Pool := m, sv_DB := d\<rparr>)"
| "server_do (World now faults) s = s\<lparr>sv_DB := (sv_DB s)\<lparr>pg_now := now, pg_faults := faults\<rparr>\<rparr>"

definition server_run :: "action list \<Rightarrow> server \<Rightarrow> server" where
  "server_run as s = fold server_do as s"

text \<open>The two background loops leave consumers and scopes alone.\<close>

lemma keeps_err_of: "keeps P op \<Longrightarrow> P s \<Longrightarrow> P (fst (err_of (op s)))"
  unfolding keeps_def err_of_def by (metis fst_conv prod.collapse)

lemma keeps_send_usage:
  assumes "\<And>i n. keeps P (AddUsage i n)" "\<And>i t n. keeps P (ResetUsageWindow i t n)" "P s"
  shows "P (fst (send_usage pg_writer k u s))"
  using assms by (auto simp: send_usage_def pg_writer_def split: option.split intro: keeps_err_of)

lemma keeps_flush_usage:
  assumes "\<And>i n. keeps P (AddUsage i n)" "\<And>i t n. keeps P (ResetUsageWindow i t n)" "P s"
    "wf_map (w_usage w)" "flush_usage pg_writer es w s = (w', s')"
  shows "P s' \<and> wf_map (w_usage w')"
  using assms(3-)
proof (induction pg_writer es w s rule: flush_usage.induct)
  case (2 k u rest w s)
  obtain s1 e where x: "send_usage pg_writer k u s = (s1, e)" by fastforce
  then have "P s1" using keeps_send_usage [OF assms(1,2) 2(3), of k u] by simp
  with 2 x show ?case by (cases e) (auto intro: wf_usage)
qed simp

lemma keeps_Flush:
  assumes "\<And>i n. keeps P (AddUsage i n)" "\<And>i t n. keeps P (ResetUsageWindow i t n)"
    "\<And>es. keeps P (RecordUsageEvents es)" "P s" "Flush pg_writer order w s = (w', s')"
  shows "P s' \<and> wf_map (w_usage w')"
proof -
  obtain w2 s2 where f: "flush_usage pg_writer (order (w_usage w)) (w\<lparr>w_usage := [], w_events := []\<rparr>) s = (w2, s2)"
    by fastforce
  have k: "P s2 \<and> wf_map (w_usage w2)"
    by (rule keeps_flush_usage [OF assms(1,2,4) _ f]) simp
  moreover have "P (fst (ws_RecordUsageEvents pg_writer es s2))" for es
    using keeps_err_of [OF assms(3) [of es]] k by (simp add: pg_writer_def)
  ultimately show ?thesis
    using assms(5) f by (auto simp: Flush_def Let_def flush_events_def split: if_splits prod.splits option.splits)
      (metis fst_conv)+
qed

lemma leaves_flush:
  assumes "Flush pg_writer order (m_usage (sv_Pool s)) (sv_DB s) = (w, d)"
  shows "leaves s (s\<lparr>sv_Pool := (sv_Pool s)\<lparr>m_usage := w\<rparr>, sv_DB := d\<rparr>)"
proof (rule leavesI)
  show "sane (s\<lparr>sv_Pool := (sv_Pool s)\<lparr>m_usage := w\<rparr>, sv_DB := d\<rparr>)" if "sane s"
    using keeps_Flush [OF schema_keys(1,2) schema_consumers(4) _ assms] that
    by (simp add: sane_def pool_ok_def)
  show "permits (sv_DB (s\<lparr>sv_Pool := (sv_Pool s)\<lparr>m_usage := w\<rparr>, sv_DB := d\<rparr>)) = permits (sv_DB s)"
    using keeps_Flush [OF permits_key_calls(2-4) refl assms] by simp
qed simp

text \<open>For the syncer the database is what \<open>MarkExhausted\<close> leaves of it.\<close>

lemma permits_MarkExhausted:
  "permits (fst (snd (MarkExhausted (pg_pool codec) i t m d))) = permits d"
proof -
  have "permits (fst (err_of (SetKeyExhausted i t d))) = permits d"
    using keeps_err_of [OF permits_key_calls(1) refl] .
  then show ?thesis by (simp add: MarkExhausted_def pg_pool_def split: option.split)
qed

lemma permits_check: "permits (snd (check (mgr_pool codec) p W n src key x)) = permits (snd x)"
  using permits_MarkExhausted
  by (auto simp: check_def mgr_pool_def Let_def split: sum.split prod.split) (metis fst_conv snd_conv)

lemma permits_sync_keys:
  "sync_keys (mgr_pool codec) p W src keys n x = (n', st, x') \<Longrightarrow> permits (snd x') = permits (snd x)"
  by (induction keys arbitrary: n x) (auto simp: permits_check split: if_splits)

lemma permits_sync_sources:
  "sync_sources (mgr_pool codec) p W srcs n x = (n', st, x') \<Longrightarrow> permits (snd x') = permits (snd x)"
proof (induction srcs arbitrary: n x)
  case (Cons y srcs)
  obtain f src where y: "y = (f, src)" by (cases y)
  obtain n1 st1 x1 where k: "sync_keys (mgr_pool codec) p W src (bp_Holding (mgr_pool codec) f x) n x = (n1, st1, x1)"
    by (metis prod.collapse)
  with Cons permits_sync_keys [OF k] show ?case by (cases st1) (auto simp: y)
qed simp

lemma leaves_sync:
  assumes "sync (mgr_pool codec) p Sources W (sv_Pool s, sv_DB s) = (m, d)"
  shows "leaves s (s\<lparr>sv_Pool := m, sv_DB := d\<rparr>)"
proof (rule leavesI)
  show "sane (s\<lparr>sv_Pool := m, sv_DB := d\<rparr>)" if "sane s"
    using mp.sync_law(1) [of "(sv_Pool s, sv_DB s)" codec p Sources W] assms that by (simp add: sane_def)
  obtain n st x where "sync_sources (mgr_pool codec) p W Sources 0 (sv_Pool s, sv_DB s) = (n, st, x)"
    by (metis prod.collapse)
  with permits_sync_sources [OF this] assms
  show "permits (sv_DB (s\<lparr>sv_Pool := m, sv_DB := d\<rparr>)) = permits (sv_DB s)" by (simp add: sync_def)
qed simp

lemma leaves_server_do: "leaves s (server_do a s)"
proof (cases a)
  case (FlushTick order)
  then show ?thesis by (simp add: leaves_flush split: prod.split)
next
  case (SyncTick codec W)
  then show ?thesis by (simp add: leaves_sync split: prod.split)
next
  case (World now faults)
  have "schema_ok (sv_DB s) \<Longrightarrow> schema_ok ((sv_DB s)\<lparr>pg_now := now, pg_faults := faults\<rparr>)"
    by (simp add: schema_defs)
  with World show ?thesis by (intro leavesI) (simp_all add: sane_def permits_def)
qed (simp add: leaves_ServeHTTP)

lemma leaves_server_run: "leaves s (server_run as s)"
  unfolding server_run_def
proof (induction as arbitrary: s)
  case (Cons a as)
  show ?case using leaves_trans [OF leaves_server_do Cons.IH] by simp
qed simp

lemma start_ok:
  assumes "start_server getenv newGCM codec d = Some s" "schema_ok d"
  shows "sane s" "coherent s" "sv_AdminToken s \<noteq> []"
proof -
  obtain cfg sealer d' pool where p: "Load getenv = Inr cfg"
    "NewManager (pg_pool codec) sealer New_Writer d = (d', Inr pool)"
    "s = \<lparr>sv_DB = d', sv_Pool = pool, sv_Auth = NewAuthCache authCacheTTL,
       sv_AdminToken = cfg_AdminToken cfg, sv_Sealer = sealer\<rparr>"
    using assms(1) by (auto simp: start_server_def split: sum.splits prod.splits)
  show "sane s" using pgp.NewManager_ok [OF assms(2) _ p(2)] p(3) by (simp add: sane_def New_Writer_def)
  show "coherent s" by (simp add: p(3) coherent_def NewAuthCache_def)
  show "sv_AdminToken s \<noteq> []" using Load_admin_token [OF p(1)] p(3) by simp
qed

text \<open>
  C14. The invariant of the running program: after a start on tables that satisfy their constraints,
  and any requests of any callers, flushes, balance syncs and failing database calls, the tables
  satisfy every constraint, the pool satisfies its invariant, and the authorization cache holds
  nothing that the tables of consumers and scopes do not say.
\<close>

theorem server_invariant:
  assumes "start_server getenv newGCM codec d = Some s" "schema_ok d"
  shows "schema_ok (sv_DB (server_run as s)) \<and> pool_ok (sv_Pool (server_run as s))
    \<and> coherent (server_run as s)"
  using start_ok [OF assms] leaves_server_run [of s as] by (auto simp: leaves_def sane_def)

end
