(* ===== verification/Key_Steps.thy ===== *)
theory Key_Steps
  imports Key_Rows Server
begin

text \<open>
  The life of one key. A step of the program on pool and database is one of \<open>mstep\<close>; seen from
  one key \<open>k\<close> it is one of \<open>kstep\<close> on the key in the pool, its row, and what the write-back queue
  will do to the stored usage. What holds for a key over whole runs is proved over \<open>kstep\<close>.
\<close>

section \<open>Steps of the program\<close>

datatype label = Attempt "nat \<Rightarrow> time" "poolerr + ServedKey" | Bench string time "time option"
  | Write dbcall | Quiet

text \<open>
  A bench carries what it has left in the row, \<open>None\<close> when the database has not taken it.
\<close>

inductive mstep :: "Manager \<times> pg \<Rightarrow> label \<Rightarrow> Manager \<times> pg \<Rightarrow> bool" where
  draw: "GetKeyForFeature clk f al m = (m', r) \<Longrightarrow> mstep (m, d) (Attempt clk r) (m', d)"
| by_id: "KeyByID clk i f al m = (m', r) \<Longrightarrow> mstep (m, d) (Attempt clk r) (m', d)"
| event: "mstep (m, d) Quiet (m\<lparr>m_usage := Event e (m_usage m)\<rparr>, d)"
| reload: "ReloadKeys (pg_pool codec) m d = (m', d', err) \<Longrightarrow> mstep (m, d) Quiet (m', d')"
| bench: "MarkExhausted (pg_pool codec) i t m d = (m', d', True) \<Longrightarrow>
    mstep (m, d) (Bench i t (if snd (SetKeyExhausted i t d) = Inr () then Some (timestamptz t) else None)) (m', d')"
| spend: "RecordSpend (pg_pool codec) now e m d = (m', d', r) \<Longrightarrow> mstep (m, d) Quiet (m', d')"
| balance: "mstep (m, d) Quiet (SetBalance i b m, d)"
| flush: "Flush pg_writer order (m_usage m) d = (w', d') \<Longrightarrow> (\<And>xs. mset (order xs) = mset xs) \<Longrightarrow>
    mstep (m, d) Quiet (m\<lparr>m_usage := w'\<rparr>, d')"
| db_call: "db_do codec c d = (d', r) \<Longrightarrow> mstep (m, d) (Write c) (m, d')"
| weather: "tables d' = tables d\<lparr>pg_now := now\<rparr> \<Longrightarrow> mstep (m, d) Quiet (m, d')"

inductive msteps :: "Manager \<times> pg \<Rightarrow> label list \<Rightarrow> Manager \<times> pg \<Rightarrow> bool" where
  none: "msteps x [] x"
| more: "mstep x l y \<Longrightarrow> msteps y ls z \<Longrightarrow> msteps x (l # ls) z"

inductive_cases mstep_cases: "mstep (m, d) l (m', d')"
lemmas mstep_elim = mstep_cases [consumes 1, case_names draw by_id event reload bench spend balance flush
    db_call weather]

inductive_cases msteps_none: "msteps x [] y"
inductive_cases msteps_more: "msteps x (l # ls) y"

lemma msteps_one: "mstep x l y \<Longrightarrow> msteps x [l] y"
  by (auto intro: msteps.intros)

lemma msteps_append: "msteps x ls y \<Longrightarrow> msteps y ls' z \<Longrightarrow> msteps x (ls @ ls') z"
  by (induction rule: msteps.induct) (auto intro: msteps.intros)

definition step_ok :: "Manager \<times> pg \<Rightarrow> bool" where
  "step_ok x \<longleftrightarrow> pool_ok (fst x) \<and> schema_ok (snd x)"

definition fine :: "string \<Rightarrow> Manager \<times> pg \<Rightarrow> bool" where
  "fine k x \<longleftrightarrow> step_ok x \<and> covered k (snd x)"

definition allowed :: "string \<Rightarrow> label \<Rightarrow> bool" where
  "allowed k l = (case l of Write c \<Rightarrow> harmless k c | _ \<Rightarrow> True)"

section \<open>Steps of a key\<close>

type_synonym kview = "PoolKey option \<times> key_row option \<times> (counted \<Rightarrow> counted)"

datatype klabel = KServed "nat \<Rightarrow> time" | KBench time "time option" | KQuiet

definition view :: "string \<Rightarrow> Manager \<times> pg \<Rightarrow> kview" where
  "view k x = (key_of (fst x) k, key_row_of (snd x) k, pending (m_usage (fst x)) k)"

text \<open>What a serve adds to the queue, as a function on the stored usage.\<close>

definition counts :: "time \<Rightarrow> PoolKey \<Rightarrow> (counted \<Rightarrow> counted) \<Rightarrow> counted \<Rightarrow> counted" where
  "counts t key p c =
     (case TryConsumeUsage t key of (_, _, didReset, start) \<Rightarrow>
        if pk_UsageLimit key = None then p c
        else if didReset then (1, Some (timestamptz start)) else (fst (p c) + 1, snd (p c)))"

definition same_usage :: "PoolKey \<Rightarrow> PoolKey \<Rightarrow> bool" where
  "same_usage key' key \<longleftrightarrow> pk_UsageLimit key' = pk_UsageLimit key
     \<and> pk_UsageWindowSeconds key' = pk_UsageWindowSeconds key
     \<and> pk_ExhaustedUntil key' = pk_ExhaustedUntil key \<and> pk_UsageCount key' = pk_UsageCount key
     \<and> pk_UsageWindowStart key' = pk_UsageWindowStart key"

definition loaded_from :: "key_row \<Rightarrow> PoolKey option \<Rightarrow> PoolKey \<Rightarrow> bool" where
  "loaded_from r ko key \<longleftrightarrow> pk_UsageLimit key = kr_usage_limit r
     \<and> pk_UsageWindowSeconds key = kr_usage_window_seconds r \<and> pk_ExhaustedUntil key = kr_exhausted_until r
     \<and> (pk_UsageCount key, pk_UsageWindowStart key) =
         (case ko of None \<Rightarrow> counted_in r | Some old \<Rightarrow> (pk_UsageCount old, pk_UsageWindowStart old))"

inductive kstep :: "kview \<Rightarrow> klabel \<Rightarrow> kview \<Rightarrow> bool" where
  served: "serves t1 t2 f key \<Longrightarrow> Available (clk j) key \<Longrightarrow>
    kstep (Some key, row, p) (KServed clk)
      (Some (gated t1 t2 f key), row, counts t2 (fst (TryRate t1 f key)) p)"
| refused: "\<not> serves t1 t2 f key \<Longrightarrow> kstep (Some key, row, p) KQuiet (Some (gated t1 t2 f key), row, p)"
| touched: "same_usage key' key \<Longrightarrow> kstep (Some key, row, p) KQuiet (Some key', row, p)"
| unloaded: "kstep (ko, None, p) KQuiet (None, None, p)"
| loaded: "loaded_from r ko key \<Longrightarrow> kstep (ko, Some r, p) KQuiet (Some key, Some r, p)"
| benched: "kstep (Some key, row, p) (KBench t taken) (Some (key\<lparr>pk_ExhaustedUntil := Some t\<rparr>), row', p)"
    if "map_option (\<lambda>r. (lasting r, counted_in r)) row' = map_option (\<lambda>r. (lasting r, counted_in r)) row"
       "\<And>r r'. row = Some r \<Longrightarrow> row' = Some r' \<Longrightarrow>
          kr_exhausted_until r' = (case taken of None \<Rightarrow> kr_exhausted_until r | Some u \<Rightarrow> Some u)"
| stored: "kstep (ko, row, p) KQuiet (ko, row', p')"
    if "map_option (\<lambda>r. (lasting r, kr_exhausted_until r, p' (counted_in r))) row'
      = map_option (\<lambda>r. (lasting r, kr_exhausted_until r, p (counted_in r))) row"
| gone: "kstep (ko, row, p) KQuiet (ko, None, p)"

text \<open>How a label looks from one key.\<close>

definition klab :: "string \<Rightarrow> label \<Rightarrow> klabel" where
  "klab k l = (case l of
      Attempt clk (Inr s) \<Rightarrow> (if sk_ID s = k then KServed clk else KQuiet)
    | Bench i t taken \<Rightarrow> (if i = k then KBench t taken else KQuiet)
    | _ \<Rightarrow> KQuiet)"

section \<open>A step seen from a key\<close>

lemma kstep_idle: "kstep v KQuiet v"
proof -
  obtain ko row p where "v = (ko, row, p)" by (cases v) auto
  then show ?thesis by (auto intro: kstep.stored)
qed

lemma pending_queued:
  "pending (queued t key w) k = (if k = pk_ID key then counts t key (pending w k) else pending w k)"
  by (auto simp: queued_def counts_def pending_Served pending_WindowReset fun_eq_iff split: prod.split)

lemma TryRate_ID [simp]: "pk_ID (fst (TryRate t f key)) = pk_ID key"
  by (rule core_fields(1)) (rule core_TryRate)

lemma gated_ID [simp]: "pk_ID (gated t1 t2 f key) = pk_ID key"
  by (rule core_fields(1)) (rule core_gated)

lemma served_of_ID [simp]: "sk_ID (served_of key) = pk_ID key"
  by (simp add: served_of_def)

lemma core_ids: "map core ks' = map core ks \<Longrightarrow> map pk_ID ks' = map pk_ID ks"
proof (induction ks arbitrary: ks')
  case (Cons key ks)
  then obtain key' ks1 where "ks' = key' # ks1" "core key' = core key" "map core ks1 = map core ks"
    by (auto simp: map_eq_Cons_conv)
  with Cons.IH [of ks1] core_fields(1) [of key' key] show ?case by simp
qed simp

lemma key_of_at:
  assumes "find_key k m = Some a" "map core (m_keys m') = map core (m_keys m)"
  shows "key_of m k = Some (m_keys m ! a)" "key_of m' k = Some (m_keys m' ! a)"
  using assms(1) find_key_cong [OF core_ids [OF assms(2)], of k] by (simp_all add: key_of_def)

lemma find_key_at:
  assumes "pool_ok m" "find_key k m = Some a" "b < length (m_keys m)" "pk_ID (m_keys m ! b) = k"
  shows "b = a"
  using find_key_nth [of m b] assms by (simp add: pool_ok_def)

lemma passed_over_step:
  assumes "passed_over clk f av (m_keys m) (m_keys m') a" "find_key k m = Some a"
    and "map core (m_keys m') = map core (m_keys m)" "pending (m_usage m') k = pending (m_usage m) k"
  shows "kstep (view k (m, d)) KQuiet (view k (m', d))"
proof -
  note keys = key_of_at [OF assms(2,3)]
  from assms(1) show ?thesis
    unfolding passed_over_def
  proof (elim disjE conjE exE)
    assume "m_keys m' ! a = m_keys m ! a"
    then show ?thesis using keys assms(4) kstep_idle by (simp add: view_def)
  next
    fix i
    assume "\<not> serves (clk i) (clk (Suc i)) f (m_keys m ! a)"
      "m_keys m' ! a = gated (clk i) (clk (Suc i)) f (m_keys m ! a)"
    then show ?thesis using keys assms(4) by (auto simp: view_def intro: kstep.refused)
  qed
qed

lemma absent_step:
  assumes "find_key k m = None" "map core (m_keys m') = map core (m_keys m)"
    "pending (m_usage m') k = pending (m_usage m) k"
  shows "kstep (view k (m, d)) KQuiet (view k (m', d))"
  using assms find_key_cong [OF core_ids [OF assms(2)], of k] kstep_idle
  by (simp add: view_def key_of_def)

lemma view_draw:
  assumes "GetKeyForFeature clk f al m = (m', r)" "pool_ok m"
  shows "kstep (view k (m, d)) (klab k (Attempt clk r)) (view k (m', d))"
  using assms(1)
proof (cases rule: draw_cases)
  case (1 av)
  show ?thesis
  proof (cases r)
    case (Inl e)
    with 1(4) have post: "map core (m_keys m') = map core (m_keys m)" "m_usage m' = m_usage m"
      "\<And>b. passed_over clk f av (m_keys m) (m_keys m') b" by (simp_all add: loop_post_def)
    then show ?thesis
      using passed_over_step [OF post(3) _ post(1), of k] absent_step [OF _ post(1), of k] Inl
      by (cases "find_key k m") (auto simp: klab_def)
  next
    case (Inr s)
    with 1(4) obtain b where b: "b \<in> set av" "served_at clk f m m' b s"
      "\<And>c. c \<noteq> b \<Longrightarrow> passed_over clk f av (m_keys m) (m_keys m') c"
      and core: "map core (m_keys m') = map core (m_keys m)"
      by (auto simp: loop_post_def)
    have len: "b < length (m_keys m)" using 1(2) b(1) by simp
    have s: "sk_ID s = pk_ID (m_keys m ! b)" using b(2) by (simp add: served_at_def)
    show ?thesis
    proof (cases "pk_ID (m_keys m ! b) = k")
      case True
      have a: "find_key k m = Some b" using find_key_nth [OF _ len] True assms(2) by (simp add: pool_ok_def)
      obtain j where j: "Available (clk j) (m_keys m ! b)" using 1(2) b(1) by blast
      obtain i where i: "serves (clk i) (clk (Suc i)) f (m_keys m ! b)"
        "m_keys m' ! b = gated (clk i) (clk (Suc i)) f (m_keys m ! b)"
        "m_usage m' = queued (clk (Suc i)) (fst (TryRate (clk i) f (m_keys m ! b))) (m_usage m)"
        using b(2) by (auto simp: served_at_def)
      from kstep.served [OF i(1), of clk j, OF j] Inr s True i show ?thesis
        by (simp add: klab_def view_def key_of_at [OF a core] pending_queued)
    next
      case False
      then have p: "pending (m_usage m') k = pending (m_usage m) k"
        using b(2) by (auto simp: served_at_def pending_queued)
      have "kstep (view k (m, d)) KQuiet (view k (m', d))"
      proof (cases "find_key k m")
        case None
        then show ?thesis using core p by (rule absent_step)
      next
        case (Some a)
        then have "a \<noteq> b" using find_key_Some(2) [OF Some] False by auto
        then show ?thesis using passed_over_step [OF b(3) Some core p] by blast
      qed
      with Inr s False show ?thesis by (simp add: klab_def)
    qed
  qed
qed

lemma view_try:
  assumes "try_key t1 t2 f a m = (m', r)" "find_key i m = Some a" "Available (clk j) (m_keys m ! a)" "pool_ok m"
  shows "kstep (view k (m, d)) (if r \<noteq> None \<and> i = k then KServed clk else KQuiet) (view k (m', d))"
    "r \<noteq> None \<Longrightarrow> map_option sk_ID r = Some i"
proof -
  note a = find_key_Some [OF assms(2)]
  have core: "map core (m_keys m') = map core (m_keys m)"
    using try_key_fields(1) [of t1 t2 f a m] assms(1) by (simp add: map_core_update core_gated)
  have key: "m_keys m' ! a = gated t1 t2 f (m_keys m ! a)"
    using try_key_fields(1) [of t1 t2 f a m] assms(1) a(1) by simp
  have r: "r = (if serves t1 t2 f (m_keys m ! a) then Some (served_of (m_keys m ! a)) else None)"
    using try_key_fields(4) [of t1 t2 f a m] assms(1) by simp
  show "r \<noteq> None \<Longrightarrow> map_option sk_ID r = Some i" using r a(2) by (auto split: if_splits)
  have usage: "m_usage m' = (if serves t1 t2 f (m_keys m ! a)
      then queued t2 (fst (TryRate t1 f (m_keys m ! a))) (m_usage m) else m_usage m)"
    using assms(1) by (auto simp: try_key_eq split: if_splits)
  show "kstep (view k (m, d)) (if r \<noteq> None \<and> i = k then KServed clk else KQuiet) (view k (m', d))"
  proof (cases "i = k")
    case True
    note keys = key_of_at [OF assms(2) [unfolded True] core]
    show ?thesis
    proof (cases "serves t1 t2 f (m_keys m ! a)")
      case s: True
      from kstep.served [OF s, of clk j, OF assms(3)] show ?thesis
        using True s r usage key a(2) by (simp add: view_def keys pending_queued)
    next
      case False
      from kstep.refused [OF False] show ?thesis using False r usage key by (simp add: view_def keys)
    qed
  next
    case False
    have p: "pending (m_usage m') k = pending (m_usage m) k" using usage False a(2) by (simp add: pending_queued)
    have "kstep (view k (m, d)) KQuiet (view k (m', d))"
    proof (cases "find_key k m")
      case None
      then show ?thesis using core p by (rule absent_step)
    next
      case (Some b)
      then have "b \<noteq> a" using find_key_Some(2) [OF Some] False a(2) by auto
      then have "m_keys m' ! b = m_keys m ! b"
        using try_key_fields(1) [of t1 t2 f a m] assms(1) by simp
      then have "passed_over clk f [] (m_keys m) (m_keys m') b" by (simp add: passed_over_def)
      then show ?thesis using Some core p by (rule passed_over_step)
    qed
    with False show ?thesis by simp
  qed
qed

lemma view_by_id:
  assumes "KeyByID clk i f al m = (m', r)" "pool_ok m"
  shows "kstep (view k (m, d)) (klab k (Attempt clk r)) (view k (m', d))"
proof (cases "\<exists>a m2 x. find_key i m = Some a \<and> Available (clk 0) (m_keys m ! a) \<and> try_key (clk 1) (clk 2) f a m = (m2, x)
    \<and> m' = m2 \<and> r = (case x of None \<Rightarrow> Inl ErrExhausted | Some s \<Rightarrow> Inr s)")
  case True
  then obtain a x where a: "find_key i m = Some a" "Available (clk 0) (m_keys m ! a)"
    "try_key (clk 1) (clk 2) f a m = (m', x)" "r = (case x of None \<Rightarrow> Inl ErrExhausted | Some s \<Rightarrow> Inr s)"
    by blast
  from view_try(1) [OF a(3,1), of clk 0, OF a(2) assms(2), of k d]
    view_try(2) [OF a(3,1), of clk 0, OF a(2) assms(2)] a(4) show ?thesis
    by (cases x) (auto simp: klab_def split: if_splits)
next
  case False
  with assms(1) have "m' = m" "\<exists>e. r = Inl e"
    by (auto simp: KeyByID_def split: option.splits if_splits prod.splits)
  then show ?thesis using kstep_idle [of "view k (m, d)"] by (auto simp: klab_def)
qed

text \<open>A change of one pooled key, by someone who found it by id.\<close>

lemma view_set_key:
  assumes "pool_ok m" "find_key i m = Some a" "pk_ID key' = i"
  shows "view k (set_key a key' m, d) =
    (if i = k then (Some key', key_row_of d k, pending (m_usage m) k) else view k (m, d))"
  using key_of_set_key [OF _ assms(2,3)] assms(1) by (simp add: view_def pool_ok_def)

lemma touched_step:
  assumes "pool_ok m" "find_key i m = Some a" "pk_ID key' = i" "same_usage key' (m_keys m ! a)"
  shows "kstep (view k (m, d)) KQuiet (view k (set_key a key' m, d))"
  using assms(2) kstep.touched [OF assms(4)] kstep_idle [of "view k (m, d)"]
  unfolding view_set_key [OF assms(1-3)] by (auto simp: view_def key_of_def)

lemma view_balance:
  assumes "pool_ok m"
  shows "kstep (view k (m, d)) KQuiet (view k (SetBalance i b m, d))"
proof (cases "find_key i m")
  case None
  then show ?thesis using kstep_idle by (simp add: SetBalance_def)
next
  case (Some a)
  from touched_step [OF assms Some, of "(m_keys m ! a)\<lparr>pk_Balance := Some b\<rparr>"] find_key_Some(2) [OF Some] Some
  show ?thesis by (simp add: SetBalance_def same_usage_def)
qed

lemma view_event: "view k (m\<lparr>m_usage := Event e (m_usage m)\<rparr>, d) = view k (m, d)"
  by (simp add: view_def key_of_def find_key_def)

text \<open>Rows that show the same are the same step for the key.\<close>

lemma stored_step:
  assumes "held shown k (map_option shown (key_row_of d k)) d'"
  shows "kstep (view k (m, d)) KQuiet (view k (m, d'))"
proof (cases "key_row_of d' k")
  case None
  then show ?thesis by (auto simp: view_def intro: kstep.gone)
next
  case (Some r')
  with assms obtain r where "key_row_of d k = Some r" "shown r' = shown r"
    by (cases "key_row_of d k") (auto simp: held_def)
  with Some show ?thesis by (auto simp: view_def shown_def intro!: kstep.stored)
qed

lemma view_call:
  assumes "db_do codec c d = (d', r)" "harmless k c"
  shows "kstep (view k (m, d)) KQuiet (view k (m, d'))"
  by (rule stored_step) (rule harmless_held [OF assms held_now])

lemma view_flush:
  assumes "Flush pg_writer order (m_usage m) d = (w', d')" "\<And>xs. mset (order xs) = mset xs" "pool_ok m"
  shows "kstep (view k (m, d)) KQuiet (view k (m\<lparr>m_usage := w'\<rparr>, d'))"
proof -
  let ?g = "\<lambda>r. (lasting r, kr_exhausted_until r)"
  have wf: "wf_map (w_usage (m_usage m))" using assms(3) by (simp add: pool_ok_def)
  have conserved: "map_option (pending w' k) (usage_in d' k) = map_option (pending (m_usage m) k) (usage_in d k)"
    using wf assms(2,1) by (rule pg.Flush_conserves)
  have "held ?g k (map_option ?g (key_row_of d k)) d'"
    by (rule keeps_Flush [OF _ _ _ held_now assms(1), THEN conjunct1])
      (auto intro!: keeps_held_usage keeps_held_consumers simp: lasting_def)
  then show ?thesis
    using conserved
    by (cases "key_row_of d k"; cases "key_row_of d' k")
      (auto simp: view_def key_of_def find_key_def usage_in_def held_def intro!: kstep.stored kstep_idle)
qed

lemma SetKeyExhausted_row:
  assumes "SetKeyExhausted i t d = (d', r)" "r = Inr ()"
  shows "key_row_of d' i = map_option (\<lambda>r. r\<lparr>kr_exhausted_until := Some (timestamptz t)\<rparr>) (key_row_of d i)"
proof -
  obtain s1 b where b: "exec (update_keys i (\<lambda>r. r\<lparr>kr_exhausted_until := Some (timestamptz t)\<rparr>)) d = (s1, b)"
    by fastforce
  with assms have d': "d' = s1" "isl b = False"
    by (auto simp: SetKeyExhausted_def ignore_rows_def dbind_def dreturn_def split: sum.splits)
  from b show ?thesis
  proof (cases rule: exec_cases)
    case (failed err fs)
    with d'(2) show ?thesis by simp
  next
    case (finished fs n)
    from update_keys_usage(3) [OF finished(1), of id] d'(1) show ?thesis by (simp add: counted_in_def)
  qed
qed

lemma atomic_SetKeyExhausted: "SetKeyExhausted i t d = (d', Inl e) \<Longrightarrow> key_row_of d' = key_row_of d"
  using atomic_db_do [of undefined "CSetKeyExhausted i t"] same_tables_key_row [of d' d]
  by (auto simp: atomic_def)

lemma view_bench:
  assumes "MarkExhausted (pg_pool codec) i t m d = (m', d', True)" "pool_ok m"
  shows "kstep (view k (m, d))
    (klab k (Bench i t (if snd (SetKeyExhausted i t d) = Inr () then Some (timestamptz t) else None)))
    (view k (m', d'))"
proof (cases "find_key i m")
  case None
  with assms(1) show ?thesis by (simp add: MarkExhausted_def)
next
  case (Some a)
  obtain d1 r where c: "SetKeyExhausted i t d = (d1, r)" by fastforce
  let ?key = "(m_keys m ! a)\<lparr>pk_ExhaustedUntil := Some t\<rparr>"
  note a = find_key_Some [OF Some]
  have m': "m' = set_key a ?key m" "d' = d1"
    using assms(1) Some c by (auto simp: MarkExhausted_def pg_pool_def err_of_def)
  have v: "view k (set_key a ?key m, d) = (if i = k then (Some ?key, key_row_of d k, pending (m_usage m) k)
      else view k (m, d))"
    using view_set_key [OF assms(2) Some, of ?key k d] a(2) by simp
  let ?g = "\<lambda>r. (lasting r, counted_in r)"
  show ?thesis
  proof (cases "i = k")
    case True
    have rows: "map_option ?g (key_row_of d1 k) = map_option ?g (key_row_of d k)
      \<and> (\<forall>r0 r1. key_row_of d k = Some r0 \<longrightarrow> key_row_of d1 k = Some r1 \<longrightarrow>
          kr_exhausted_until r1 = (if r = Inr () then Some (timestamptz t) else kr_exhausted_until r0))"
    proof (cases r)
      case (Inl e)
      with atomic_SetKeyExhausted c show ?thesis by simp
    next
      case (Inr u)
      with SetKeyExhausted_row [OF c] True show ?thesis
        by (cases "key_row_of d k") (auto simp: lasting_def counted_in_def)
    qed
    have "kstep (Some (m_keys m ! a), key_row_of d k, pending (m_usage m) k)
        (KBench t (if r = Inr () then Some (timestamptz t) else None)) (Some ?key, key_row_of d1 k, pending (m_usage m) k)"
      by (rule kstep.benched) (use rows in auto)
    moreover have "view k (m', d') = (Some ?key, key_row_of d1 k, pending (m_usage m) k)"
      using v True m' by (simp add: view_def)
    moreover have "view k (m, d) = (Some (m_keys m ! a), key_row_of d k, pending (m_usage m) k)"
      using Some True by (simp add: view_def key_of_def)
    ultimately show ?thesis using True c by (simp add: klab_def)
  next
    case False
    have "held shown k (map_option shown (key_row_of d k)) d1"
    proof (cases r)
      case (Inl e)
      with atomic_SetKeyExhausted c show ?thesis by (simp add: held_def)
    next
      case (Inr u)
      obtain s1 b where b: "exec (update_keys i (\<lambda>r. r\<lparr>kr_exhausted_until := Some (timestamptz t)\<rparr>)) d = (s1, b)"
        by fastforce
      with c have s1: "s1 = d1"
        by (auto simp: SetKeyExhausted_def ignore_rows_def dbind_def dreturn_def split: sum.splits)
      from b have "key_row_of d1 k = key_row_of d k"
      proof (cases rule: exec_cases)
        case (failed err fs)
        with s1 show ?thesis by auto
      next
        case (finished fs n)
        from update_keys_usage(4) [OF finished(1), of id k] False s1 show ?thesis by (simp add: counted_in_def)
      qed
      then show ?thesis by (simp add: held_def)
    qed
    from stored_step [OF this, of m] False c m' v show ?thesis by (simp add: klab_def view_def)
  qed
qed

lemma view_spend:
  assumes "RecordSpend (pg_pool codec) now e m d = (m', d', r)" "pool_ok m"
  shows "\<exists>y. kstep (view k (m, d)) KQuiet y \<and> kstep y KQuiet (view k (m', d'))"
proof (cases "spend_begin now e m")
  case (Inl err)
  with assms(1) have "m' = m \<and> d' = d" by (simp add: RecordSpend_def)
  then show ?thesis using kstep_idle by blast
next
  case (Inr begun)
  obtain a budget start where begun: "begun = (a, budget, start)" by (metis prod_cases3)
  have a: "find_key (se_KeyID e) m = Some a"
    using Inr begun by (auto simp: spend_begin_def split: option.splits if_splits)
  obtain d1 c where c: "RecordSpend_db e start d = (d1, c)" by fastforce
  have d': "d' = d1" and m': "m' = m \<or> (\<exists>s t. m' = set_key a (holdSpent s t (m_keys m ! a)) m)"
    using assms(1) Inr begun c
    by (auto simp: RecordSpend_def pg_pool_def spend_finish_def split: sum.splits dberr.splits prod.splits option.splits)
  have "held shown k (map_option shown (key_row_of d k)) d1"
    using keeps_held_money(2) [of shown k "map_option shown (key_row_of d k)" e start] c held_now
    by (auto simp: keeps_def shown_def lasting_def counted_in_def)
  from stored_step [OF this, of m] have one: "kstep (view k (m, d)) KQuiet (view k (m, d1))" .
  have "kstep (view k (m, d1)) KQuiet (view k (m', d1))"
    using m'
  proof (elim disjE exE)
    fix s t
    assume "m' = set_key a (holdSpent s t (m_keys m ! a)) m"
    moreover have "kstep (view k (m, d1)) KQuiet (view k (set_key a (holdSpent s t (m_keys m ! a)) m, d1))"
      by (rule touched_step [OF assms(2) a])
        (simp_all add: holdSpent_def same_usage_def find_key_Some(2) [OF a])
    ultimately show ?thesis by simp
  qed (simp add: kstep_idle)
  with one d' show ?thesis by blast
qed

lemma view_tables:
  assumes "tables d' = (tables d)\<lparr>pg_now := now\<rparr>"
  shows "view k (m, d') = view k (m, d)"
proof -
  have "pg_keys d' = pg_keys d"
    using assms by (cases d; cases d') (simp add: tables_def)
  then show ?thesis by (simp add: view_def key_row_of_def)
qed

lemma key_of_member:
  assumes "pool_ok m" "key \<in> set (m_keys m)"
  shows "key_of m (pk_ID key) = Some key"
proof -
  obtain a where "a < length (m_keys m)" "m_keys m ! a = key" using assms(2) by (auto simp: in_set_conv_nth)
  with find_key_nth [of m a] assms(1) show ?thesis by (auto simp: key_of_def pool_ok_def)
qed

lemma key_of_absent: "key_of m k = None \<longleftrightarrow> k \<notin> pk_ID ` set (m_keys m)"
  by (simp add: key_of_def find_key_None)

lemma row_member: "schema_ok d \<Longrightarrow> r \<in> set (pg_keys d) \<Longrightarrow> key_row_of d (kr_id r) = Some r"
proof -
  assume a: "schema_ok d" "r \<in> set (pg_keys d)"
  then obtain y where y: "find (\<lambda>x. kr_id x = kr_id r) (pg_keys d) = Some y"
    using find_exists [OF a(2), of "\<lambda>x. kr_id x = kr_id r"] by auto
  have "inj_on kr_id (set (pg_keys d))" using a(1) by (simp add: schema_defs distinct_map)
  with a(2) find_found [OF y] have "y = r" by (blast dest: inj_onD)
  with y show ?thesis by (simp add: key_row_of_def)
qed

lemma key_of_row_exhausted: "key_of_row codec r = Inr k \<Longrightarrow> key_ExhaustedUntil k = kr_exhausted_until r"
  by (auto simp: key_of_row_def Let_def split: option.splits)

lemma reload_loaded:
  assumes "ReloadKeys (pg_pool codec) m d = (m', d', None)" "pool_ok m" "schema_ok d"
    and "covered k d" "key_row_of d k = Some r"
  obtains key where "key_of m' k = Some key" "loaded_from r (key_of m k) key"
proof -
  have dist: "distinct (map pk_ID (m_keys m))" using assms(2) by (simp add: pool_ok_def)
  from assms(1) dist show ?thesis
  proof (cases rule: ReloadKeys_cases)
    case (loaded rows byTier byKey)
    have ok: "pool_ok m'" using pgp.ReloadKeys_ok [OF assms(2,3,1)] by simp
    have some: "rows_of byTier t \<noteq> [] \<longleftrightarrow> t \<in> tf_TierID ` set (pg_tier_features d)" for t
      using loaded(4) [of t] by (auto simp: set_empty [symmetric] simp del: set_empty)
    note r = find_found [OF assms(5) [unfolded key_row_of_def]]
    have "r \<in> set (sort_key kr_created_at (pg_keys d))" using r by simp
    then obtain row where row: "row \<in> set rows" "key_of_row codec r = Inr row"
      using keys_of_rows_mem [OF loaded(3)] by blast
    have tier: "rows_of byTier (key_TierID row) \<noteq> []"
      using assms(4,5) key_of_row_fields(2) [OF row(2)] some by (simp add: covered_def featured_def)
    define key where "key = load row (featureLimits (rows_of byTier (key_TierID row)))
       (openSecrets (m_sealer m) (rows_of byKey (key_ID row))) (kept_or_new m row)"
    have "key \<in> set (m_keys m')" using row(1) tier by (auto simp: loaded(6) key_def)
    moreover have "pk_ID key = k" using key_of_row_fields(1) [OF row(2)] r by (simp add: key_def load_def)
    ultimately have "key_of m' k = Some key" using key_of_member [OF ok] by blast
    moreover have "loaded_from r (key_of m k) key"
      using key_of_row_fields [OF row(2)] key_of_row_exhausted [OF row(2)] r
      by (auto simp: loaded_from_def key_def load_def kept_or_new_def key_of_def counted_in_def
          new_PoolKey_def split: option.splits)
    ultimately show ?thesis by (rule that)
  qed simp
qed

lemma reload_unloaded:
  assumes "ReloadKeys (pg_pool codec) m d = (m', d', None)" "pool_ok m" "schema_ok d" "key_row_of d k = None"
  shows "key_of m' k = None"
proof -
  have dist: "distinct (map pk_ID (m_keys m))" using assms(2) by (simp add: pool_ok_def)
  from assms(1) dist show ?thesis
  proof (cases rule: ReloadKeys_cases)
    case (loaded rows byTier byKey)
    have "k \<notin> pk_ID ` set (m_keys m')"
    proof
      assume "k \<in> pk_ID ` set (m_keys m')"
      then obtain row where "row \<in> set rows" "key_ID row = k" by (auto simp: loaded(6) load_def)
      then obtain r where "r \<in> set (pg_keys d)" "kr_id r = k"
        using keys_of_rows_origin [OF loaded(3)] key_of_row_fields(1) by fastforce
      with row_member [OF assms(3)] assms(4) show False by auto
    qed
    then show ?thesis by (simp add: key_of_absent)
  qed simp
qed

lemma reload_frame:
  assumes "ReloadKeys (pg_pool codec) m d = (m', d', err)" "pool_ok m"
  shows "m_usage m' = m_usage m" "tables d' = tables d" "err \<noteq> None \<Longrightarrow> m' = m"
proof -
  have "distinct (map pk_ID (m_keys m))" using assms(2) by (simp add: pool_ok_def)
  with assms(1) show "m_usage m' = m_usage m" "tables d' = tables d" "err \<noteq> None \<Longrightarrow> m' = m"
    by (auto elim!: ReloadKeys_cases)
qed

lemma view_reload:
  assumes "ReloadKeys (pg_pool codec) m d = (m', d', err)" "pool_ok m" "schema_ok d" "covered k d"
  shows "kstep (view k (m, d)) KQuiet (view k (m', d'))"
proof -
  note frame = reload_frame [OF assms(1,2)]
  note rows = same_tables_key_row [OF frame(2)]
  show ?thesis
  proof (cases err)
    case (Some e)
    with frame(3) rows kstep_idle [of "view k (m, d)"] show ?thesis by (simp add: view_def)
  next
    case None
    note load = assms(1) [unfolded None]
    show ?thesis
    proof (cases "key_row_of d k")
      case None
      from reload_unloaded [OF load assms(2,3) None] rows frame(1) None show ?thesis
        by (simp add: view_def kstep.unloaded)
    next
      case (Some r)
      obtain key where "key_of m' k = Some key" "loaded_from r (key_of m k) key"
        using reload_loaded [OF load assms(2-4) Some] .
      with rows frame(1) Some show ?thesis by (simp add: view_def kstep.loaded)
    qed
  qed
qed

section \<open>Runs seen from a key\<close>

text \<open>A key's runs show the labels that are not quiet.\<close>

inductive ksteps :: "kview \<Rightarrow> klabel list \<Rightarrow> kview \<Rightarrow> bool" where
  none: "ksteps v [] v"
| more: "kstep u l v \<Longrightarrow> ksteps v ls w \<Longrightarrow> ksteps u (if l = KQuiet then ls else l # ls) w"

inductive_cases ksteps_none: "ksteps u [] v"

lemma ksteps_append: "ksteps u ls v \<Longrightarrow> ksteps v ls' w \<Longrightarrow> ksteps u (ls @ ls') w"
proof (induction rule: ksteps.induct)
  case (more u l v ls w')
  from ksteps.more [OF more.hyps(1) more.IH [OF more.prems]] show ?case by (cases "l = KQuiet") simp_all
qed simp

lemma ksteps_one: "kstep u l v \<Longrightarrow> ksteps u (if l = KQuiet then [] else [l]) v"
  by (rule ksteps.more [OF _ ksteps.none])

lemma step_fine:
  assumes "mstep x l y" "fine k x" "allowed k l"
  shows "fine k y"
proof -
  obtain m d m' d' where xy: "x = (m, d)" "y = (m', d')" by (cases x; cases y)
  have ok: "pool_ok m" "schema_ok d" "covered k d" using assms(2) by (simp_all add: fine_def step_ok_def xy)
  have cov: "covered k d'" if "tables d' = tables d"
    using that ok(3) tables_fields(2,3) [OF that] by (simp add: covered_def featured_def key_row_of_def)
  have keep: "covered k d'" if "\<And>X. held kr_tier_id k X d \<Longrightarrow> held kr_tier_id k X d'"
    "\<And>T. featured T d \<Longrightarrow> featured T d'"
    by (rule coveredI) (rule that(1) [OF held_now], rule that(2) [OF ok(3) [unfolded covered_def]])
  from assms(1) [unfolded xy] have "pool_ok m' \<and> schema_ok d' \<and> covered k d'"
  proof (cases rule: mstep_elim)
    case (draw clk f al r)
    then show ?thesis using ok pool_ok_draws(1) [OF ok(1), of clk f al] by simp
  next
    case (by_id clk i f al r)
    then show ?thesis using ok pool_ok_draws(2) [OF ok(1), of clk i f al] by simp
  next
    case (event e)
    then show ?thesis using ok by (simp add: pool_ok_def)
  next
    case (reload codec err)
    have "tables d' = tables d"
      using reload(2) ok(1) by (auto elim!: ReloadKeys_cases simp: pool_ok_def)
    then show ?thesis using pgp.ReloadKeys_ok [OF ok(1,2) reload(2)] cov by simp
  next
    case (bench codec i t)
    then have "d' = d \<or> d' = fst (SetKeyExhausted i t d)"
      by (auto simp: MarkExhausted_def pg_pool_def err_of_def split: option.splits)
    then have "covered k d'"
    proof
      assume d': "d' = fst (SetKeyExhausted i t d)"
      obtain d1 r where c: "SetKeyExhausted i t d = (d1, r)" by fastforce
      show ?thesis
        by (rule keep) (use c d' keeps_held_exhausted [of kr_tier_id k _ i t] keeps_featured(7) [of _ i t]
          in \<open>auto simp: keeps_def\<close>)
    qed (simp add: ok(3))
    then show ?thesis using pgp.MarkExhausted_ok [OF ok(1,2) bench(2)] by simp
  next
    case (spend codec now e r)
    have "d' = d \<or> (\<exists>start. d' = fst (RecordSpend_db e start d))"
      using spend(2) by (auto simp: RecordSpend_def pg_pool_def split: sum.splits dberr.splits prod.splits)
        (metis fst_conv)+
    then have "covered k d'"
    proof (elim disjE exE)
      fix start assume d': "d' = fst (RecordSpend_db e start d)"
      obtain d1 r where c: "RecordSpend_db e start d = (d1, r)" by fastforce
      show ?thesis
        by (rule keep) (use c d' keeps_held_money(2) [of kr_tier_id k _ e start] keeps_featured(9) [of _ e start]
          in \<open>auto simp: keeps_def\<close>)
    qed (simp add: ok(3))
    then show ?thesis using pgp.RecordSpend_ok [OF ok(1,2) spend(2)] by simp
  next
    case (balance i b)
    then show ?thesis using ok pgp.SetBalance_ok [OF ok(1), of i b] by simp
  next
    case (flush order w')
    have "schema_ok d' \<and> wf_map (w_usage w')"
      by (rule keeps_Flush [OF schema_keys(1,2) schema_consumers(4) ok(2) flush(3)])
    moreover have "covered k d'"
    proof (rule keep)
      show "held kr_tier_id k X d'" if "held kr_tier_id k X d" for X
        by (rule keeps_Flush [where P = "held kr_tier_id k X", OF _ _ _ that flush(3), THEN conjunct1])
          (auto intro!: keeps_held_usage keeps_held_consumers)
      show "featured T d'" if "featured T d" for T
        by (rule keeps_Flush [where P = "featured T", OF _ _ _ that flush(3), THEN conjunct1])
          (auto intro!: keeps_featured)
    qed
    ultimately show ?thesis using ok flush by (simp add: pool_ok_def)
  next
    case (db_call codec c r)
    then show ?thesis
      using ok harmless_covered [OF db_call(3) _ ok(3)] schema_db_do [of codec c] assms(3)
      by (auto simp: keeps_def allowed_def)
  next
    case (weather now)
    then have "schema_ok d'" using ok(2) by (cases d; cases d') (simp add: tables_def schema_defs)
    moreover have "pg_keys d' = pg_keys d" "pg_tier_features d' = pg_tier_features d"
      using weather by (cases d; cases d'; simp add: tables_def)+
    ultimately show ?thesis using ok weather by (simp add: covered_def featured_def key_row_of_def)
  qed
  then show ?thesis by (simp add: fine_def step_ok_def xy)
qed

lemma step_view:
  assumes "mstep x l y" "fine k x" "allowed k l"
  shows "ksteps (view k x) (if klab k l = KQuiet then [] else [klab k l]) (view k y)"
proof -
  obtain m d m' d' where xy: "x = (m, d)" "y = (m', d')" by (cases x; cases y)
  have ok: "pool_ok m" "schema_ok d" "covered k d" using assms(2) by (simp_all add: fine_def step_ok_def xy)
  from assms(1) [unfolded xy]
  have "ksteps (view k (m, d)) (if klab k l = KQuiet then [] else [klab k l]) (view k (m', d'))"
  proof (cases rule: mstep_elim)
    case (draw clk f al r)
    from ksteps_one [OF view_draw [OF draw(3) ok(1), of k d]] show ?thesis unfolding draw(1,2) .
  next
    case (by_id clk i f al r)
    from ksteps_one [OF view_by_id [OF by_id(3) ok(1), of k d]] show ?thesis unfolding by_id(1,2) .
  next
    case (event e)
    then show ?thesis by (simp add: view_event klab_def ksteps.none)
  next
    case (reload codec err)
    with ksteps_one [OF view_reload [OF reload(2) ok]] show ?thesis by (simp add: klab_def)
  next
    case (bench codec i t)
    from ksteps_one [OF view_bench [OF bench(2) ok(1), of k]] show ?thesis unfolding bench(1) .
  next
    case (spend codec now e r)
    from view_spend [OF spend(2) ok(1), of k] obtain v
      where "kstep (view k (m, d)) KQuiet v" "kstep v KQuiet (view k (m', d'))" by blast
    from ksteps_append [OF ksteps_one [OF this(1)] ksteps_one [OF this(2)]] spend(1)
    show ?thesis by (simp add: klab_def)
  next
    case (balance i b)
    with ksteps_one [OF view_balance [OF ok(1), of k d i b]] show ?thesis by (simp add: klab_def)
  next
    case (flush order w')
    with ksteps_one [OF view_flush [OF flush(3,4) ok(1), of k]] show ?thesis by (simp add: klab_def)
  next
    case (db_call codec c r)
    with ksteps_one [OF view_call [OF db_call(3), of k m]] assms(3) show ?thesis
      by (simp add: klab_def allowed_def)
  next
    case (weather now)
    with view_tables [OF weather(3)] show ?thesis by (simp add: klab_def ksteps.none)
  qed
  then show ?thesis by (simp add: xy)
qed

definition klabs :: "string \<Rightarrow> label list \<Rightarrow> klabel list" where
  "klabs k ls = filter (\<lambda>l. l \<noteq> KQuiet) (map (klab k) ls)"

lemma steps_view:
  "msteps x ls y \<Longrightarrow> fine k x \<Longrightarrow> \<forall>l\<in>set ls. allowed k l \<Longrightarrow>
   fine k y \<and> ksteps (view k x) (klabs k ls) (view k y)"
proof (induction rule: msteps.induct)
  case (more x l y ls z)
  then have y: "fine k y" "ksteps (view k x) (if klab k l = KQuiet then [] else [klab k l]) (view k y)"
    using step_fine step_view by simp_all
  with more.IH more.prems have z: "fine k z" "ksteps (view k y) (klabs k ls) (view k z)" by simp_all
  have "klabs k (l # ls) = (if klab k l = KQuiet then [] else [klab k l]) @ klabs k ls"
    by (simp add: klabs_def)
  with z(1) ksteps_append [OF y(2) z(2)] show ?case by simp
qed (simp add: klabs_def ksteps.none)

end
