(* ===== verification/Accounting.thy ===== *)
theory Accounting
  imports Key_Steps
begin

text \<open>
  What holds for one key over any run: a limited key is served no more often than its limit
  leaves, the books of its usage balance, and a bench holds until its end.
\<close>

section \<open>A lifetime limit\<close>

fun is_serve :: "klabel \<Rightarrow> bool" where
  "is_serve (KServed clk) = True"
| "is_serve _ = False"

definition serves_in :: "klabel list \<Rightarrow> nat" where
  "serves_in ls = length (filter is_serve ls)"

definition lifetime :: "int \<Rightarrow> int \<Rightarrow> kview \<Rightarrow> bool" where
  "lifetime limit n v = (case v of (ko, row, p) \<Rightarrow>
     (\<forall>r. row = Some r \<longrightarrow> kr_usage_limit r = Some limit \<and> kr_usage_window_seconds r = None) \<and>
     (case ko of None \<Rightarrow> row = None
      | Some key \<Rightarrow> pk_UsageLimit key = Some limit \<and> pk_UsageWindowSeconds key = None \<and> pk_UsageCount key = n))"

lemma gated_core: "core (gated t1 t2 f key) = core key"
  by (rule core_gated)

lemma gated_fixed:
  "pk_UsageLimit (gated t1 t2 f key) = pk_UsageLimit key"
  "pk_UsageWindowSeconds (gated t1 t2 f key) = pk_UsageWindowSeconds key"
  "pk_ExhaustedUntil (gated t1 t2 f key) = pk_ExhaustedUntil key"
  by (rule core_fields(5-7) [OF gated_core])+

lemma TryRate_fixed:
  "pk_UsageLimit (fst (TryRate t f key)) = pk_UsageLimit key"
  "pk_UsageWindowSeconds (fst (TryRate t f key)) = pk_UsageWindowSeconds key"
  by (rule core_fields(5,6) [OF core_TryRate])+

lemma gated_lifetime:
  assumes "pk_UsageLimit key = Some limit" "pk_UsageWindowSeconds key = None"
  shows "pk_UsageCount (gated t1 t2 f key) = pk_UsageCount key + (if serves t1 t2 f key then 1 else 0)"
    "serves t1 t2 f key \<Longrightarrow> pk_UsageCount key < limit"
  using assms
  by (auto simp: gated_def serves_def try_usage_def TryConsumeUsage_def TryRate_fixed TryRate_usage Let_def
      split: if_splits)

lemma lifetime_kstep:
  assumes "kstep u l v" "lifetime limit n u"
  shows "lifetime limit (n + (if is_serve l then 1 else 0)) v \<and> (is_serve l \<longrightarrow> n < limit)"
  using assms
proof (cases rule: kstep.cases)
  case (served t1 t2 f key clk j row p)
  then show ?thesis
    using assms(2) gated_lifetime [of key limit t1 t2 f] by (auto simp: lifetime_def gated_fixed)
next
  case (refused t1 t2 f key row p)
  then show ?thesis
    using assms(2) gated_lifetime [of key limit t1 t2 f] by (auto simp: lifetime_def gated_fixed)
next
  case (loaded r ko key p)
  then show ?thesis
    using assms(2) by (cases ko) (auto simp: lifetime_def loaded_from_def)
next
  case (benched row' row taken key t p)
  show ?thesis
    using assms(2) benched(1-4) by (cases row; cases row') (auto simp: lifetime_def lasting_def)
next
  case (stored p' row' p row ko)
  then show ?thesis
    using assms(2) by (cases row; cases row'; cases ko) (auto simp: lifetime_def lasting_def)
qed (use assms(2) in \<open>auto simp: lifetime_def same_usage_def split: option.splits\<close>)

lemma lifetime_ksteps:
  "ksteps u ls v \<Longrightarrow> lifetime limit n u \<Longrightarrow>
   lifetime limit (n + int (serves_in ls)) v \<and> serves_in ls \<le> nat (limit - n)"
proof (induction arbitrary: n rule: ksteps.induct)
  case (more u l v ls w)
  note one = lifetime_kstep [OF more.hyps(1) more.prems]
  note rest = more.IH [OF conjunct1 [OF one]]
  show ?case
  proof (cases "is_serve l")
    case True
    then have "serves_in (if l = KQuiet then ls else l # ls) = Suc (serves_in ls)"
      by (cases l) (simp_all add: serves_in_def)
    with True one rest show ?thesis by (auto simp: algebra_simps)
  next
    case False
    then have "serves_in (if l = KQuiet then ls else l # ls) = serves_in ls" by (simp add: serves_in_def)
    with False rest show ?thesis by simp
  qed
qed (simp add: serves_in_def)

section \<open>The books of a limited key\<close>

definition whole :: "counted \<Rightarrow> counted" where
  "whole c = (fst c, map_option timestamptz (snd c))"

definition usage_held :: "PoolKey \<Rightarrow> counted" where
  "usage_held key = (pk_UsageCount key, pk_UsageWindowStart key)"

definition books :: "int \<Rightarrow> kview \<Rightarrow> bool" where
  "books limit v = (case v of (ko, row, p) \<Rightarrow>
     (\<forall>r. row = Some r \<longrightarrow> kr_usage_limit r = Some limit) \<and>
     (case ko of None \<Rightarrow> row = None
      | Some key \<Rightarrow> pk_UsageLimit key = Some limit \<and>
          (\<forall>r. row = Some r \<longrightarrow> whole (p (counted_in r)) = whole (usage_held key))))"

lemma try_books:
  assumes "pk_UsageLimit key = Some limit" "0 < limit"
  shows "serves t1 t2 f key \<Longrightarrow> whole (p c) = whole (usage_held key) \<Longrightarrow>
      whole (counts t2 (fst (TryRate t1 f key)) p c) = whole (usage_held (gated t1 t2 f key))"
    "\<not> serves t1 t2 f key \<Longrightarrow> usage_held (gated t1 t2 f key) = usage_held key"
  using assms
  by (auto simp: gated_def serves_def try_usage_def counts_def TryConsumeUsage_def TryRate_fixed TryRate_usage
      usage_held_def whole_def Let_def split: if_splits option.splits)

lemma books_kstep:
  assumes "kstep u l v" "books limit u" "0 < limit"
  shows "books limit v"
  using assms(1)
proof (cases rule: kstep.cases)
  case (served t1 t2 f key clk j row p)
  then show ?thesis
    using assms(2) try_books(1) [OF _ assms(3), of key t1 t2 f p] by (auto simp: books_def gated_fixed)
next
  case (refused t1 t2 f key row p)
  then show ?thesis
    using assms(2) try_books(2) [OF _ assms(3), of key t1 t2 f] by (auto simp: books_def gated_fixed)
next
  case (loaded r ko key p)
  then show ?thesis
    using assms(2) by (cases ko) (auto simp: books_def loaded_from_def usage_held_def)
next
  case (benched row' row taken key t p)
  show ?thesis
    using assms(2) benched(1-4) by (cases row; cases row') (auto simp: books_def lasting_def usage_held_def)
next
  case (stored p' row' p row ko)
  then show ?thesis
    using assms(2) by (cases row; cases row'; cases ko) (auto simp: books_def lasting_def)
qed (use assms(2) in \<open>auto simp: books_def same_usage_def usage_held_def split: option.splits\<close>)

lemma books_ksteps: "ksteps u ls v \<Longrightarrow> books limit u \<Longrightarrow> 0 < limit \<Longrightarrow> books limit v"
  by (induction rule: ksteps.induct) (auto intro: books_kstep)

section \<open>A bench\<close>

definition benched_until :: "time \<Rightarrow> kview \<Rightarrow> bool" where
  "benched_until u v = (case v of (ko, row, p) \<Rightarrow>
     (\<forall>r. row = Some r \<longrightarrow> kr_exhausted_until r = Some u) \<and>
     (\<forall>key. ko = Some key \<longrightarrow> (\<exists>t. pk_ExhaustedUntil key = Some t \<and> u \<le> t)))"

lemma benched_kstep:
  assumes "kstep v l w" "benched_until u v" "\<And>t taken. l \<noteq> KBench t taken"
  shows "benched_until u w \<and> (\<forall>clk. l = KServed clk \<longrightarrow> (\<exists>j. u \<le> clk j))"
  using assms(1)
proof (cases rule: kstep.cases)
  case (served t1 t2 f key clk j row p)
  have "u \<le> clk j" using served assms(2) by (auto simp: benched_until_def Available_def)
  with served assms(2) show ?thesis by (auto simp: benched_until_def gated_fixed)
next
  case (loaded r ko key p)
  then show ?thesis using assms(2) by (auto simp: benched_until_def loaded_from_def)
next
  case (stored p' row' p row ko)
  then show ?thesis
    using assms(2) by (cases row; cases row') (auto simp: benched_until_def)
next
  case (benched row' row taken key t p)
  from benched(2) assms(3) show ?thesis by blast
qed (use assms(2) in \<open>auto simp: benched_until_def same_usage_def gated_fixed\<close>)

lemma benched_ksteps:
  "ksteps v ls w \<Longrightarrow> benched_until u v \<Longrightarrow> \<forall>t taken. KBench t taken \<notin> set ls \<Longrightarrow>
   benched_until u w \<and> (\<forall>clk. KServed clk \<in> set ls \<longrightarrow> (\<exists>j. u \<le> clk j))"
proof (induction rule: ksteps.induct)
  case (more v l w ls x)
  have "l \<noteq> KBench t taken" for t taken using more.prems(2) by (auto split: if_splits)
  note one = benched_kstep [OF more.hyps(1) more.prems(1) this]
  with more.IH more.prems(2) show ?case by (auto split: if_splits)
qed simp

end
