(* ===== verification/Permission.thy ===== *)
theory Permission
  imports Server
begin

text \<open>
  Who gets a key: a value is handed out only to a caller the tables permit, administration needs
  the admin token, and what a deletion of a consumer leaves.
\<close>

section \<open>Only the two draws hand out a value\<close>

definition no_key :: "handler \<Rightarrow> bool" where
  "no_key h \<longleftrightarrow> (\<forall>E r s k. rs_body (snd (h E r s)) \<noteq> DrawnKey k)"

lemma no_key_admin: "no_key h \<Longrightarrow> no_key (admin h)"
  unfolding no_key_def admin_def AdminAuth_def clearAfterWrite_def writeError_def writeJSON_def
  by (auto split: option.split prod.split) (metis snd_conv)

text \<open>The responses a handler may return early are errors.\<close>

lemma error_bodies:
  "decodeBody dec r = Inl resp \<Longrightarrow> rs_body resp \<noteq> DrawnKey k"
  "resolveKeyCaller E r s = (s', Inl resp) \<Longrightarrow> rs_body resp \<noteq> DrawnKey k"
  "tierNamed n s = (s', Inl resp) \<Longrightarrow> rs_body resp \<noteq> DrawnKey k"
  "keyInScope caller i s = Some resp \<Longrightarrow> rs_body resp \<noteq> DrawnKey k"
  by (auto simp: decodeBody_def resolveKeyCaller_def tierNamed_def keyInScope_def writeError_def
      writeJSON_def split: sum.splits prod.splits option.splits if_splits)

lemma decoded_bodies:
  "decodeAddKey E r = Inl resp \<Longrightarrow> rs_body resp \<noteq> DrawnKey k"
  "decodeTierBody E r = Inl resp \<Longrightarrow> rs_body resp \<noteq> DrawnKey k"
proof -
  show "rs_body resp \<noteq> DrawnKey k" if "decodeAddKey E r = Inl resp"
    using that error_bodies(1) [of "env_decode_addKey E" r resp k]
    by (cases "decodeBody (env_decode_addKey E) r")
      (auto simp: decodeAddKey_def writeError_def writeJSON_def
        split: sum.split_asm option.split_asm if_split_asm)
  show "rs_body resp \<noteq> DrawnKey k" if "decodeTierBody E r = Inl resp"
    using that error_bodies(1) [of "env_decode_tier E" r resp k]
    by (cases "decodeBody (env_decode_tier E) r")
      (auto simp: decodeTierBody_def writeError_def writeJSON_def split: if_split_asm)
qed

lemmas no_key_simps = no_key_def writeJSON_def writeError_def Let_def

lemma no_key_reports: "no_key ExhaustKey" "no_key ReportSpend"
  by (auto simp: no_key_simps ExhaustKey_def ReportSpend_def error_bodies
      dest: error_bodies split: sum.splits prod.splits option.splits)

lemma no_key_listings:
  "no_key HealthCheck" "no_key Health" "no_key ListKeys" "no_key ListTiers" "no_key ListConsumers"
  "no_key ListUsageEvents_h"
  by (auto simp: no_key_simps HealthCheck_def Health_def ListKeys_def ListTiers_def ListConsumers_def
      ListUsageEvents_h_def split: sum.splits prod.splits)

lemma no_key_keys: "no_key AddKey" "no_key DeleteKey_h" "no_key SetKeyBudget"
  by (auto simp: no_key_simps AddKey_def DeleteKey_h_def SetKeyBudget_def
      dest: error_bodies decoded_bodies split: sum.splits prod.splits option.splits)

lemma no_key_tiers: "no_key CreateTier_h" "no_key UpdateTierFeatures" "no_key DeleteTier_h"
  by (auto simp: no_key_simps CreateTier_h_def UpdateTierFeatures_def DeleteTier_h_def
      dest: error_bodies decoded_bodies split: sum.splits prod.splits option.splits)

lemma no_key_consumers: "no_key CreateConsumer_h" "no_key DeleteConsumer_h" "no_key AddConsumerScope_h"
  by (auto simp: no_key_simps CreateConsumer_h_def DeleteConsumer_h_def AddConsumerScope_h_def
      dest: error_bodies decoded_bodies split: sum.splits prod.splits option.splits if_splits)

lemmas no_key_handlers = no_key_reports no_key_listings no_key_keys no_key_tiers no_key_consumers

definition draws_key :: "handler \<Rightarrow> bool" where
  "draws_key h \<longleftrightarrow> h = GetKey \<or> h = GetKeyByID"

lemma drawing_routes: "list_all (\<lambda>t. draws_key (rt_handler t) \<or> no_key (rt_handler t)) NewRouter"
  by (simp add: NewRouter_def open_route_def admin_route_def no_key_admin no_key_handlers draws_key_def)

lemma ServeHTTP_drawn:
  assumes "ServeHTTP E r s = (s', resp)" "rs_body resp = DrawnKey k"
  obtains h vals where "draws_key h" "h E (r\<lparr>rq_values := vals\<rparr>) s = (s', resp)"
proof (cases "find_route r")
  case None
  with assms show thesis by (auto simp: ServeHTTP_def writeJSON_def split: if_splits)
next
  case (Some tv)
  obtain t vals where tv: "tv = (t, vals)" by (cases tv)
  then have h: "rt_handler t E (r\<lparr>rq_values := vals\<rparr>) s = (s', resp)"
    using assms(1) Some by (simp add: ServeHTTP_def)
  then have "\<not> no_key (rt_handler t)" using assms(2) unfolding no_key_def by (metis snd_conv)
  then have "draws_key (rt_handler t)"
    using drawing_routes find_route_some(1) Some tv by (auto simp: list_all_iff)
  then show thesis using h by (rule that)
qed

section \<open>A value is handed out only to a caller the tables permit\<close>

text \<open>
  The permission as the tables state it: the admin token, or the token of an active consumer with
  a scope on the tier.
\<close>

definition permitted :: "env \<Rightarrow> request \<Rightarrow> server \<Rightarrow> string \<Rightarrow> string \<Rightarrow> bool" where
  "permitted E r s consumerID tierID \<longleftrightarrow>
     (\<exists>token. bearerToken r = Some token \<and>
        (if token = sv_AdminToken s then consumerID = adminConsumerID
         else \<exists>c\<in>set (pg_consumers (sv_DB s)). c_TokenHash c = hashToken E token \<and> c_IsActive c
           \<and> c_ID c = consumerID \<and> (c_ID c, tierID) \<in> set (pg_consumer_scopes (sv_DB s))))"

lemma mget_allowed_of: "mget (allowed_of xs) t = (if t \<in> set xs then Some True else None)"
proof -
  have "mget (fold (\<lambda>i. mput i True) xs m) t = (if t \<in> set xs then Some True else mget m t)"
    for m :: "(string, bool) gomap"
    by (induction xs arbitrary: m) auto
  then show ?thesis by (simp add: allowed_of_def)
qed

lemma authorized_permitted:
  assumes "authorized E r s = Some caller" "in_scope (kc_allowedTierIDs caller) t"
  shows "permitted E r s (kc_consumerID caller) t"
proof -
  obtain token where token: "bearerToken r = Some token"
    using assms(1) by (auto simp: authorized_def split: option.splits)
  show ?thesis
  proof (cases "token = sv_AdminToken s")
    case True
    with assms(1) token show ?thesis by (auto simp: authorized_def permitted_def)
  next
    case False
    then obtain c where c: "find (\<lambda>c. c_TokenHash c = hashToken E token \<and> c_IsActive c)
        (pg_consumers (sv_DB s)) = Some c"
      "kc_consumerID caller = c_ID c" "kc_allowedTierIDs caller = Some (allowed_of (map snd
        (filter (\<lambda>x. fst x = c_ID c) (pg_consumer_scopes (sv_DB s)))))"
      using assms(1) token by (auto simp: authorized_def db_caller_def split: option.splits)
    have "(c_ID c, t) \<in> set (pg_consumer_scopes (sv_DB s))"
      using assms(2) c(3) by (auto simp: in_scope_def mget_allowed_of split: if_splits)
    with find_found [OF c(1)] c(2) token False show ?thesis
      unfolding permitted_def by auto
  qed
qed

lemma KeyByID_served:
  assumes "KeyByID clk i f al m = (m', Inr x)"
  shows "\<exists>k\<in>set (m_keys m). x = served_of k \<and> offered f al k \<and> Available (clk 0) k"
proof -
  obtain a where a: "find_key i m = Some a" "offered f al (m_keys m ! a)" "Available (clk 0) (m_keys m ! a)"
    using assms by (auto simp: KeyByID_def split: option.splits if_splits)
  obtain m2 r2 where t: "try_key (clk 1) (clk 2) f a m = (m2, r2)" by fastforce
  have "r2 = (if serves (clk 1) (clk 2) f (m_keys m ! a) then Some (served_of (m_keys m ! a)) else None)"
    using try_key_fields(4) [of "clk 1" "clk 2" f a m, unfolded t] by simp
  with assms a t have "x = served_of (m_keys m ! a)"
    by (auto simp: KeyByID_def split: if_splits)
  with a find_key_Some(1) [OF a(1)] show ?thesis by (intro bexI [of _ "m_keys m ! a"]) auto
qed

text \<open>What a draw that answers with a value has done.\<close>

definition drawn :: "env \<Rightarrow> request \<Rightarrow> server \<Rightarrow> server \<Rightarrow> drawnKey \<Rightarrow> bool" where
  "drawn E r s s' d \<longleftrightarrow> (\<exists>k\<in>set (m_keys (sv_Pool s)). \<exists>consumerID.
     permitted E r s consumerID (pk_TierID k) \<and> HasFeature (rq_query r featureParam) k
     \<and> (\<exists>n. Available (env_now E n) k) \<and> dk_KeyID d = pk_ID k
     \<and> Open (sv_Sealer s) (pk_KeyValue k) = Inr (dk_Value d) \<and> dk_Secrets d = pk_Secrets k
     \<and> (\<exists>events. w_events (m_usage (sv_Pool s')) = newest (w_maxEvents (m_usage (sv_Pool s')))
          (events @ [NewUsageEvent (env_uuid E 0) (env_now E 2) (pk_ID k) consumerID
             (rq_query r featureParam)])))"

lemma answer_key_drawn:
  assumes "answer_key E caller f x s1 = (s', resp)" "rs_body resp = DrawnKey d" "x = served_of k"
  shows "dk_KeyID d = pk_ID k" "Open (sv_Sealer s1) (pk_KeyValue k) = Inr (dk_Value d)"
    "dk_Secrets d = pk_Secrets k"
    "w_events (m_usage (sv_Pool s')) = newest (w_maxEvents (m_usage (sv_Pool s')))
       (w_events (m_usage (sv_Pool s1)) @ [NewUsageEvent (env_uuid E 0) (env_now E 2) (pk_ID k)
          (kc_consumerID caller) f])"
  using assms by (auto simp: answer_key_def served_of_def writeError_def writeJSON_def queue_event_def
      split: sum.splits)

lemma same_state_caller:
  assumes "resolveKeyCaller E r s = (s1, Inr caller)" "coherent s"
  shows "authorized E r s = Some caller" "sv_Pool s1 = sv_Pool s" "sv_Sealer s1 = sv_Sealer s"
  using resolveKeyCaller_cases(1,3) [OF assms(1)] assms(2) by (auto simp: same_state_def)

lemma GetKey_drawn:
  assumes "GetKey E r s = (s', resp)" "rs_body resp = DrawnKey d" "coherent s"
  shows "drawn E r s s' d"
proof -
  let ?f = "rq_query r featureParam"
  obtain s1 caller where c: "resolveKeyCaller E r s = (s1, Inr caller)"
    using assms(1,2) error_bodies(2) by (auto simp: GetKey_def split: prod.splits sum.splits)
  note s1 = same_state_caller [OF c assms(3)]
  obtain m x where g: "GetKeyForFeature (\<lambda>n. env_now E (n + 3)) ?f (kc_allowedTierIDs caller) (sv_Pool s1)
      = (m, Inr x)" and a: "answer_key E caller ?f x (s1\<lparr>sv_Pool := m\<rparr>) = (s', resp)"
    using assms(1,2) c
    by (auto simp: GetKey_def Let_def writeError_def writeJSON_def split: prod.splits sum.splits if_splits)
  obtain k where k: "k \<in> set (m_keys (sv_Pool s1))" "x = served_of k"
    "eligible (\<lambda>n. env_now E (n + 3)) ?f (kc_allowedTierIDs caller) k" using draw_served [OF g] by blast
  note out = answer_key_drawn [OF a assms(2) k(2)]
  show ?thesis
    unfolding drawn_def
    using k(1,3) out s1 authorized_permitted [OF s1(1)] by (auto simp: eligible_def)
qed

lemma GetKeyByID_drawn:
  assumes "GetKeyByID E r s = (s', resp)" "rs_body resp = DrawnKey d" "coherent s"
  shows "drawn E r s s' d"
proof -
  let ?f = "rq_query r featureParam"
  obtain s1 caller where c: "resolveKeyCaller E r s = (s1, Inr caller)"
    using assms(1,2) error_bodies(2) by (auto simp: GetKeyByID_def split: prod.splits sum.splits)
  note s1 = same_state_caller [OF c assms(3)]
  obtain m x where g: "KeyByID (\<lambda>n. env_now E (n + 3)) (PathValue r pathID) ?f (kc_allowedTierIDs caller)
      (sv_Pool s1) = (m, Inr x)" and a: "answer_key E caller ?f x (s1\<lparr>sv_Pool := m\<rparr>) = (s', resp)"
    using assms(1,2) c
    by (auto simp: GetKeyByID_def Let_def writeError_def writeJSON_def split: prod.splits sum.splits if_splits)
  obtain k where k: "k \<in> set (m_keys (sv_Pool s1))" "x = served_of k"
    "offered ?f (kc_allowedTierIDs caller) k" "Available (env_now E (0 + 3)) k" using KeyByID_served [OF g] by blast
  note out = answer_key_drawn [OF a assms(2) k(2)]
  show ?thesis
    unfolding drawn_def
    using k(1,3,4) out s1 authorized_permitted [OF s1(1)] by (auto simp: offered_def)
qed

lemma drawn_ServeHTTP:
  assumes "ServeHTTP E r s = (s', resp)" "rs_body resp = DrawnKey d" "coherent s"
  shows "drawn E r s s' d"
proof -
  obtain h vals where h: "draws_key h" "h E (r\<lparr>rq_values := vals\<rparr>) s = (s', resp)"
    using ServeHTTP_drawn [OF assms(1,2)] .
  then have "drawn E (r\<lparr>rq_values := vals\<rparr>) s s' d"
    using GetKey_drawn GetKeyByID_drawn assms(2,3) by (auto simp: draws_key_def)
  then show ?thesis by (simp add: drawn_def permitted_def bearerToken_def)
qed

text \<open>
  C6. A key's value leaves the server only in the answer to a caller the tables permit at that
  moment: whatever has happened since the start, a request that is answered with a value carries
  the admin token or the token of an active consumer with a scope on the key's tier; the key is
  in the pool, covers the feature and was found available, the value is the opened one of that
  key, and the audit log's queue ends with the event that names consumer, key and feature. In
  particular the authorization cache never makes a difference to who is served.
\<close>

theorem served_key_is_permitted:
  assumes "start_server getenv newGCM codec d0 = Some s0" "schema_ok d0" "s = server_run as s0"
    and "ServeHTTP E r s = (s', resp)" "rs_body resp = DrawnKey d"
  shows "drawn E r s s' d"
proof -
  have "coherent s"
    using start_ok [OF assms(1,2)] leaves_server_run [of s0 as] assms(3) by (simp add: leaves_def)
  with assms(4,5) show ?thesis by (rule drawn_ServeHTTP)
qed

section \<open>Administration needs the admin token\<close>

lemma admin_routes:
  "list_all (\<lambda>t. (\<exists>h. rt_handler t = admin h)
     \<or> (\<exists>l ps. rt_path t = Lit l # ps \<and> l \<noteq> ''admin'')) NewRouter"
  by (auto simp: NewRouter_def open_route_def admin_route_def)

text \<open>
  C12. Nothing under \<open>/admin\<close> happens without the admin token: a request for such a path that does
  not present it is answered 401 when the route exists, 404 or 405 otherwise, with nothing but a
  fixed message, and leaves the whole server as it was.
\<close>

theorem admin_needs_token:
  assumes "rq_path r = ''admin'' # rest" "bearerToken r \<noteq> Some (sv_AdminToken s)"
    and "ServeHTTP E r s = (s', resp)"
  shows "s' = s \<and> (\<exists>msg. rs_body resp = ErrorBody msg \<or> rs_body resp = PlainText msg)
    \<and> rs_status resp \<in> {StatusUnauthorized, StatusNotFound, StatusMethodNotAllowed}
    \<and> (find_route r \<noteq> None \<longrightarrow> rs_status resp = StatusUnauthorized)"
proof (cases "find_route r")
  case None
  with assms(3) show ?thesis by (auto simp: ServeHTTP_def writeJSON_def split: if_splits)
next
  case (Some tv)
  obtain t vals where tv: "tv = (t, vals)" by (cases tv)
  note f = find_route_some [OF Some [unfolded tv]]
  have "\<not> (\<exists>l ps. rt_path t = Lit l # ps \<and> l \<noteq> ''admin'')" using f(3) assms(1) by auto
  with f(1) admin_routes obtain h where h: "rt_handler t = admin h" by (auto simp: list_all_iff)
  have "bearerToken (r\<lparr>rq_values := vals\<rparr>) = bearerToken r" by (simp add: bearerToken_def)
  with assms(2,3) Some tv h show ?thesis
    by (auto simp: ServeHTTP_def admin_def AdminAuth_def writeError_def writeJSON_def
        split: option.splits if_splits)
qed

section \<open>A deleted consumer is locked out\<close>

lemma DeleteConsumer_effect:
  assumes "DeleteConsumer i d = (d', Inr u)"
  shows "pg_consumers d' = filter (\<lambda>c. c_ID c \<noteq> i) (pg_consumers d)"
  using assms unfolding DeleteConsumer_def
proof (cases rule: transaction_cases)
  case (finished fs s1 a fs')
  from finished(1) show ?thesis
    unfolding finished(2)
    by (auto simp: dbind_def draise_def dreturn_def delete_consumer_def split: prod.splits sum.splits if_splits
        elim!: exec_cases)
qed simp

lemma delete_consumer_route:
  assumes "rq_method r = DELETE" "rq_path r = [''admin'', ''consumers'', i]" "i \<noteq> []"
  shows "find_route r = Some (admin_route DELETE [Lit ''consumers'', Wild ''id''] DeleteConsumer_h, [(''id'', i)])"
  using assms by (simp add: find_route_def NewRouter_def open_route_def admin_route_def map_filter_simps
      method_matches_def)

lemma get_key_route:
  assumes "rq_method r = GET" "rq_path r = [''key'']"
  shows "find_route r = Some (open_route GET [Lit ''key''] GetKey, [])"
  using assms by (simp add: find_route_def NewRouter_def open_route_def admin_route_def map_filter_simps
      method_matches_def)

lemma leaves_start:
  assumes "start_server getenv newGCM codec d0 = Some s0" "schema_ok d0"
  shows "sane (server_run as s0)" "coherent (server_run as s0)"
  using start_ok [OF assms] leaves_server_run [of s0 as] by (auto simp: leaves_def)

text \<open>What a deletion through the router leaves: no consumer with the deleted one's token.\<close>

lemma deletion_leaves:
  assumes "sane s" "c \<in> set (pg_consumers (sv_DB s))"
    and "rq_method r = DELETE" "rq_path r = [''admin'', ''consumers'', c_ID c]" "c_ID c \<noteq> []"
    and "ServeHTTP E r s = (s1, resp)" "rs_status resp = StatusOK"
    and "x \<in> set (pg_consumers (sv_DB s1))"
  shows "c_TokenHash x \<noteq> c_TokenHash c"
proof -
  have "admin DeleteConsumer_h E (r\<lparr>rq_values := [(''id'', c_ID c)]\<rparr>) s = (s1, resp)"
    using assms(6) delete_consumer_route [OF assms(3-5)] by (simp add: ServeHTTP_def admin_route_def)
  then obtain d where d: "DeleteConsumer (c_ID c) (sv_DB s) = (d, Inr ())" "sv_DB s1 = d"
    using assms(7) by (auto simp: admin_def AdminAuth_def clearAfterWrite_def DeleteConsumer_h_def
        PathValue_def pathID_def writeError_def writeJSON_def status_defs
        split: option.splits if_splits prod.splits sum.splits)
  have "distinct (map c_TokenHash (pg_consumers (sv_DB s)))"
    using assms(1) by (simp add: sane_def schema_defs)
  then have "x = c" if "x \<in> set (pg_consumers (sv_DB s))" "c_TokenHash x = c_TokenHash c" for x
    using that assms(2) by (auto simp: distinct_map dest: inj_onD)
  then show ?thesis using assms(8) DeleteConsumer_effect [OF d(1)] d(2) by auto
qed

lemma no_consumer_no_caller:
  assumes "bearerToken r = Some token" "token \<noteq> sv_AdminToken s"
    and "\<And>x. x \<in> set (pg_consumers (sv_DB s)) \<Longrightarrow> c_TokenHash x \<noteq> hashToken E token"
  shows "authorized E r s = None" "\<not> permitted E r s i t"
proof -
  have "find (\<lambda>x. c_TokenHash x = hashToken E token \<and> c_IsActive x) (pg_consumers (sv_DB s)) = None"
    using assms(3) by (auto simp: find_None_iff)
  then show "authorized E r s = None" using assms(1,2) by (simp add: authorized_def db_caller_def)
  show "\<not> permitted E r s i t" using assms by (auto simp: permitted_def)
qed

section \<open>A lookup in flight\<close>

text \<open>
  C8. What locks a deleted consumer out does not stop a request in flight: a lookup that has read the tables before a deletion and
  stores its result after the cache was cleared brings the deleted consumer back, until that
  entry is older than the cache's time to live; what the tables say is not asked again before.
\<close>

theorem late_put_outlives_deletion:
  assumes "sane s" "consumer_lookup (c_TokenHash c) (sv_DB s) = (d, Inr (Some caller))"
    and "c \<in> set (pg_consumers d)"
    and "rq_method r = DELETE" "rq_path r = [''admin'', ''consumers'', c_ID c]" "c_ID c \<noteq> []"
    and "ServeHTTP E r (s\<lparr>sv_DB := d\<rparr>) = (s1, resp)" "rs_status resp = StatusOK"
    and "s2 = s1\<lparr>sv_Auth := cache_put t (c_TokenHash c) caller (sv_Auth s1)\<rparr>"
    and "bearerToken r2 = Some token" "token \<noteq> sv_AdminToken s2" "hashToken E2 token = c_TokenHash c"
  shows "authorized E2 r2 s2 = None \<and>
    (cache_get now (c_TokenHash c) (sv_Auth s2) = Some caller \<longleftrightarrow> now \<le> t + ac_ttl (sv_Auth s1)) \<and>
    (env_now E2 0 \<le> t + ac_ttl (sv_Auth s1) \<longrightarrow> resolveKeyCaller E2 r2 s2 = (s2, Inr caller))"
proof -
  have "sane (s\<lparr>sv_DB := d\<rparr>)"
    using assms(1) schema_ok_tables [OF consumer_lookup_cases(1) [OF assms(2)]] by (simp add: sane_def)
  then have "c_TokenHash x \<noteq> hashToken E2 token" if "x \<in> set (pg_consumers (sv_DB s2))" for x
    using deletion_leaves [of "s\<lparr>sv_DB := d\<rparr>" c r E s1 resp x] assms that by simp
  then have "authorized E2 r2 s2 = None" by (rule no_consumer_no_caller [OF assms(10,11)])
  moreover have get: "cache_get now (c_TokenHash c) (sv_Auth s2) =
      (if t + ac_ttl (sv_Auth s1) < now then None else Some caller)" for now
    by (simp add: assms(9) cache_get_def cache_put_def)
  moreover have "resolveKeyCaller E2 r2 s2 = (s2, Inr caller)" if "env_now E2 0 \<le> t + ac_ttl (sv_Auth s1)"
    using that assms(10-12) get [of "env_now E2 0"] by (simp add: resolveKeyCaller_def consumerCaller_def)
  ultimately show ?thesis by auto
qed

end
