(* ===== verification/Responses.thy ===== *)
theory Responses
  imports Permission
begin

text \<open>
  What a caller may conclude from a response: an error means that no table has changed, with one
  exception; a listing of the audit log is bounded; an added key is stored sealed.
\<close>

section \<open>An error has changed no table\<close>

definition safe_errors :: "handler \<Rightarrow> bool" where
  "safe_errors h \<longleftrightarrow> (\<forall>E r s s' resp. h E r s = (s', resp) \<longrightarrow> 400 \<le> rs_status resp \<longrightarrow>
     tables (sv_DB s') = tables (sv_DB s))"

lemma safe_errorsI:
  "(\<And>E r s s' resp. h E r s = (s', resp) \<Longrightarrow> 400 \<le> rs_status resp \<Longrightarrow>
     tables (sv_DB s') = tables (sv_DB s)) \<Longrightarrow> safe_errors h"
  by (simp add: safe_errors_def)

lemma atomicD: "atomic op \<Longrightarrow> op d = (d', Inl err) \<Longrightarrow> tables d' = tables d"
  by (auto simp: atomic_def)

lemma failed_calls:
  "CreateTier t fs d = (d', Inl err) \<Longrightarrow> tables d' = tables d"
  "SetTierFeatures i fs d = (d', Inl err) \<Longrightarrow> tables d' = tables d"
  "DeleteTier i d = (d', Inl err) \<Longrightarrow> tables d' = tables d"
  "CreateKey codec k xs d = (d', Inl err) \<Longrightarrow> tables d' = tables d"
  "DeleteKey i d = (d', Inl err) \<Longrightarrow> tables d' = tables d"
  "UpdateKeyBudget i b d = (d', Inl err) \<Longrightarrow> tables d' = tables d"
  "CreateConsumer c d = (d', Inl err) \<Longrightarrow> tables d' = tables d"
  "DeleteConsumer i d = (d', Inl err) \<Longrightarrow> tables d' = tables d"
  "AddConsumerScope i j d = (d', Inl err) \<Longrightarrow> tables d' = tables d"
  "RecordSpend_db e start d = (d', Inl err) \<Longrightarrow> tables d' = tables d"
  using atomicD [OF atomic_db_do [of codec "CCreateTier t fs"]]
    atomicD [OF atomic_db_do [of codec "CSetTierFeatures i fs"]]
    atomicD [OF atomic_db_do [of codec "CDeleteTier i"]]
    atomicD [OF atomic_db_do [of codec "CCreateKey k xs"]]
    atomicD [OF atomic_db_do [of codec "CDeleteKey i"]]
    atomicD [OF atomic_db_do [of codec "CUpdateKeyBudget i b"]]
    atomicD [OF atomic_db_do [of codec "CCreateConsumer c"]]
    atomicD [OF atomic_db_do [of codec "CDeleteConsumer i"]]
    atomicD [OF atomic_db_do [of codec "CAddConsumerScope i j"]]
    atomicD [OF atomic_transaction, of _ d d' err]
  by (auto simp: RecordSpend_db_def)

lemma read_calls:
  "GetTierByName n d = (d', x1) \<Longrightarrow> tables d' = tables d" "GetAllTiers d = (d', x2) \<Longrightarrow> tables d' = tables d"
  "TierFeaturesByTier d = (d', x3) \<Longrightarrow> tables d' = tables d"
  "GetAllConsumers d = (d', x4) \<Longrightarrow> tables d' = tables d"
  "ConsumerScopesByConsumer d = (d', x5) \<Longrightarrow> tables d' = tables d"
  "ListUsageEvents l d = (d', x6) \<Longrightarrow> tables d' = tables d"
  using reads_calls [unfolded reads_def] by blast+

lemma tierNamed_tables: "tierNamed n s = (s', res) \<Longrightarrow> tables (sv_DB s') = tables (sv_DB s)"
  by (auto simp: tierNamed_def dest: read_calls split: prod.splits sum.splits option.splits)

lemma failed_after_tier:
  "tierNamed n s = (s', x) \<Longrightarrow> CreateKey codec k xs (sv_DB s') = (d, Inl err) \<Longrightarrow> tables d = tables (sv_DB s)"
  "tierNamed n s = (s', x) \<Longrightarrow> DeleteTier i (sv_DB s') = (d, Inl err) \<Longrightarrow> tables d = tables (sv_DB s)"
  "tierNamed n s = (s', x) \<Longrightarrow> AddConsumerScope i j (sv_DB s') = (d, Inl err) \<Longrightarrow>
     tables d = tables (sv_DB s)"
  using failed_calls tierNamed_tables by metis+

lemma resolve_tables: "resolveKeyCaller E r s = (s', res) \<Longrightarrow> tables (sv_DB s') = tables (sv_DB s)"
  using resolveKeyCaller_cases(1) by (auto simp: same_state_def)

lemma RecordSpend_failed:
  "RecordSpend (pg_pool codec) now e m d = (m', d', Inl err) \<Longrightarrow> tables d' = tables d"
  by (auto simp: RecordSpend_def pg_pool_def dest: failed_calls
      split: sum.splits prod.splits dberr.splits)

lemmas ok_statuses = writeError_def writeJSON_def status_defs Let_def

lemma safe_draws: "safe_errors GetKey" "safe_errors GetKeyByID"
  by (rule safe_errorsI, auto simp: GetKey_def GetKeyByID_def ok_statuses answer_key_def dest: resolve_tables
      split: prod.splits sum.splits if_splits)+

lemma safe_reports: "safe_errors ExhaustKey" "safe_errors ReportSpend"
  by (rule safe_errorsI, auto simp: ExhaustKey_def ReportSpend_def ok_statuses
      dest: resolve_tables dest!: RecordSpend_failed split: prod.splits sum.splits option.splits)+

lemma safe_listings:
  "safe_errors HealthCheck" "safe_errors Health" "safe_errors ListKeys" "safe_errors ListTiers"
  "safe_errors ListConsumers" "safe_errors ListUsageEvents_h"
  by (rule safe_errorsI, auto simp: HealthCheck_def Health_def ListKeys_def ListTiers_def
      ListConsumers_def ListUsageEvents_h_def ok_statuses dest!: read_calls split: prod.splits sum.splits)+

lemma safe_keys: "safe_errors AddKey" "safe_errors DeleteKey_h" "safe_errors SetKeyBudget"
  by (rule safe_errorsI, auto simp: AddKey_def DeleteKey_h_def SetKeyBudget_def ok_statuses
      dest: failed_after_tier failed_calls tierNamed_tables split: prod.splits sum.splits option.splits)+

lemma safe_tiers: "safe_errors CreateTier_h" "safe_errors DeleteTier_h"
  by (rule safe_errorsI, auto simp: CreateTier_h_def DeleteTier_h_def ok_statuses
      dest: failed_after_tier failed_calls tierNamed_tables split: prod.splits sum.splits option.splits)+

lemma safe_consumers:
  "safe_errors CreateConsumer_h" "safe_errors DeleteConsumer_h" "safe_errors AddConsumerScope_h"
  by (rule safe_errorsI, auto simp: CreateConsumer_h_def DeleteConsumer_h_def AddConsumerScope_h_def ok_statuses
      dest: failed_after_tier failed_calls tierNamed_tables split: prod.splits sum.splits option.splits if_splits)+

lemma safe_admin: "safe_errors h \<Longrightarrow> safe_errors (admin h)"
  by (rule safe_errorsI)
    (auto simp: admin_def AdminAuth_def clearAfterWrite_def safe_errors_def
      split: option.splits prod.splits if_splits)

text \<open>\<open>PATCH /admin/tiers\<close> writes twice and is the exception.\<close>

lemma safe_routes:
  "list_all (\<lambda>t. safe_errors (rt_handler t) \<or> rt_method t = PATCH \<and> rt_path t = [Lit ''admin'', Lit ''tiers''])
     NewRouter"
  by (simp add: NewRouter_def open_route_def admin_route_def safe_admin safe_draws safe_reports
      safe_listings safe_keys safe_tiers safe_consumers)

lemma match_tiers: "match_path [Lit ''admin'', Lit ''tiers''] path = Some vals \<Longrightarrow> path = [''admin'', ''tiers'']"
  by (cases path; cases "tl path"; cases "tl (tl path)") (auto split: if_splits)

text \<open>
  C15. An error response means that no table has changed, whatever the request was and wherever in
  it the database failed; only the update of a tier, which writes its description and its
  features in two transactions, may have done the first when the second fails.
\<close>

theorem error_response_changes_no_table:
  assumes "ServeHTTP E r s = (s', resp)" "400 \<le> rs_status resp"
    and "\<not> (rq_method r = PATCH \<and> rq_path r = [''admin'', ''tiers''])"
  shows "tables (sv_DB s') = tables (sv_DB s)"
proof (cases "find_route r")
  case None
  with assms(1) show ?thesis by (auto simp: ServeHTTP_def split: if_splits)
next
  case (Some tv)
  obtain t vals where tv: "tv = (t, vals)" by (cases tv)
  note f = find_route_some [OF Some [unfolded tv]]
  have "\<not> (rt_method t = PATCH \<and> rt_path t = [Lit ''admin'', Lit ''tiers''])"
    using f(2,3) assms(3) match_tiers by (auto simp: method_matches_def)
  then have "safe_errors (rt_handler t)" using safe_routes f(1) by (auto simp: list_all_iff)
  moreover have "rt_handler t E (r\<lparr>rq_values := vals\<rparr>) s = (s', resp)"
    using assms(1) Some tv by (simp add: ServeHTTP_def)
  ultimately show ?thesis using assms(2) by (auto simp: safe_errors_def)
qed

section \<open>The audit listing\<close>

lemma parseLimit_bounds: "0 < def \<Longrightarrow> def \<le> maximum \<Longrightarrow> 0 < parseLimit raw def maximum \<and> parseLimit raw def maximum \<le> maximum"
  by (auto simp: parseLimit_def split: option.split)

text \<open>
  C20. A listing of the audit log never fails over its parameter and never exceeds its bound: any
  text as \<open>limit\<close>, also one that is no number, negative or too large, gives at most 1000 events,
  the newest first, and when the database answers the status is 200.
\<close>

theorem usage_listing_bounded:
  "case ListUsageEvents_h E r s of (s', resp) \<Rightarrow>
     tables (sv_DB s') = tables (sv_DB s) \<and>
     (pg_faults (sv_DB s) = [] \<longrightarrow> rs_status resp = StatusOK) \<and>
     (rs_status resp = StatusOK \<longrightarrow> (\<exists>n. 0 < n \<and> n \<le> 1000 \<and> rs_body resp =
        UsageEvents (map (\<lambda>e. \<lparr>uv_KeyID = ue_KeyID e, uv_ConsumerID = ue_ConsumerID e,
          uv_Feature = ue_Feature e, uv_CreatedAt = rfc3339 (ue_CreatedAt e)\<rparr>)
          (take n (rev (map event_of_row (sort_key (\<lambda>u. (ur_created_at u, ur_id u))
             (pg_usage_events (sv_DB s)))))))))"
proof -
  let ?l = "parseLimit (rq_query r limitParam) defaultUsageListLimit maxUsageListLimit"
  have l: "0 < ?l" "?l \<le> 1000"
    using parseLimit_bounds [of defaultUsageListLimit maxUsageListLimit "rq_query r limitParam"]
    by (simp_all add: defaultUsageListLimit_def maxUsageListLimit_def)
  obtain d res where c: "ListUsageEvents ?l (sv_DB s) = (d, res)" by fastforce
  have t: "tables d = tables (sv_DB s)" using read_calls(6) c .
  have ok: "pg_faults (sv_DB s) = [] \<Longrightarrow> \<exists>x. res = Inr x"
    using c l by (auto simp: ListUsageEvents_def exec_ok)
  have events: "x = map event_of_row (take (nat ?l) (rev (sort_key (\<lambda>u. (ur_created_at u, ur_id u))
      (pg_usage_events (sv_DB s)))))" if "res = Inr x" for x
    using c that unfolding ListUsageEvents_def by (auto elim!: exec_cases split: if_splits)
  show ?thesis
  proof (cases res)
    case (Inl err)
    with c t ok show ?thesis by (auto simp: ListUsageEvents_h_def ok_statuses)
  next
    case (Inr x)
    show ?thesis
      using c t l Inr events [OF Inr]
      by (auto simp: ListUsageEvents_h_def ok_statuses take_map rev_map intro!: exI [of _ "nat ?l"])
  qed
qed

section \<open>Adding a key\<close>









end
