(* ===== verification/Server_Steps.thy ===== *)
theory Server_Steps
  imports Accounting Responses Permission
begin

text \<open>
  The server refines the steps of theory \<open>Key_Steps\<close>: a request, a flush or a balance sync is a
  sequence of steps on pool and database, whose labels say what it may do, and a value in an
  answer is the key of a successful attempt among them.
\<close>

section \<open>Traces between servers\<close>

definition st :: "server \<Rightarrow> Manager \<times> pg" where "st s = (sv_Pool s, sv_DB s)"

definition trace :: "(label \<Rightarrow> bool) \<Rightarrow> Manager \<times> pg \<Rightarrow> Manager \<times> pg \<Rightarrow> bool" where
  "trace P x y \<longleftrightarrow> (\<exists>ls. msteps x ls y \<and> (\<forall>l\<in>set ls. P l))"

definition goes :: "(label \<Rightarrow> bool) \<Rightarrow> server \<Rightarrow> server \<Rightarrow> bool" where
  "goes P s s' \<longleftrightarrow> trace P (st s) (st s')"

lemma trace_refl [simp, intro]: "trace P x x"
  unfolding trace_def by (rule exI [of _ "[]"]) (simp add: msteps.none)

lemma trace_trans: "trace P x y \<Longrightarrow> trace P y z \<Longrightarrow> trace P x z"
  unfolding trace_def by (metis UnE msteps_append set_append)

lemma trace_step: "mstep x l y \<Longrightarrow> P l \<Longrightarrow> trace P x y"
  unfolding trace_def by (intro exI [of _ "[l]"]) (auto intro: msteps_one)

lemma goes_same: "st s' = st s \<Longrightarrow> goes P s s'"
  by (simp add: goes_def)

lemma goes_refl [simp, intro]: "goes P s s"
  by (rule goes_same) simp

lemma goes_trans: "goes P s s1 \<Longrightarrow> goes P s1 s' \<Longrightarrow> goes P s s'"
  unfolding goes_def by (rule trace_trans)

section \<open>What a handler may do that neither draws nor benches\<close>

text \<open>The hash of the token a request would give to a new consumer.\<close>

definition fresh_hash :: "env \<Rightarrow> string option" where
  "fresh_hash E = map_option (\<lambda>bytes. hashToken E (EncodeToString (take consumerTokenBytes bytes))) (env_rand E 0)"

text \<open>A plain step hands out no id but the fresh one and no token but the fresh one.\<close>

definition writes_fresh :: "env \<Rightarrow> dbcall \<Rightarrow> bool" where
  "writes_fresh E c \<longleftrightarrow> (\<forall>k. k \<noteq> env_uuid E 0 \<longrightarrow> harmless k c)
     \<and> (\<forall>u. c = CCreateConsumer u \<longrightarrow> fresh_hash E = Some (c_TokenHash u))"

fun plain :: "env \<Rightarrow> label \<Rightarrow> bool" where
  "plain E (Attempt clk r) = False"
| "plain E (Bench i t taken) = False"
| "plain E (Write c) = writes_fresh E c"
| "plain E Quiet = True"

definition plain_handler :: "handler \<Rightarrow> bool" where
  "plain_handler h \<longleftrightarrow> (\<forall>E r s s' resp. h E r s = (s', resp) \<longrightarrow> goes (plain E) s s')"

lemma goes_quiet: "mstep (st s) Quiet (st s') \<Longrightarrow> goes (plain E) s0 s \<Longrightarrow> goes (plain E) s0 s'"
  unfolding goes_def by (erule trace_trans) (rule trace_step [where l = Quiet], simp_all)

lemma goes_read:
  assumes "tables d = tables (sv_DB s)" "goes (plain E) s0 s"
  shows "goes (plain E) s0 (s\<lparr>sv_DB := d\<rparr>)"
proof (rule goes_quiet [OF _ assms(2)])
  have "tables d = (tables (sv_DB s))\<lparr>pg_now := pg_now (tables (sv_DB s))\<rparr>" using assms(1) by simp
  from mstep.weather [OF this, of "sv_Pool s"]
  show "mstep (st s) Quiet (st (s\<lparr>sv_DB := d\<rparr>))" by (simp add: st_def)
qed

lemma goes_call:
  assumes "db_do codec c (sv_DB s) = (d, r)" "goes (plain E) s0 s" "plain E (Write c)"
  shows "goes (plain E) s0 (s\<lparr>sv_DB := d\<rparr>)"
proof -
  have "mstep (st s) (Write c) (st (s\<lparr>sv_DB := d\<rparr>))" using assms(1) by (simp add: st_def mstep.db_call)
  then have "trace (plain E) (st s) (st (s\<lparr>sv_DB := d\<rparr>))" using assms(3) by (rule trace_step)
  with assms(2) show ?thesis unfolding goes_def by (rule trace_trans)
qed

lemma goes_reload: "goes (plain E) s0 s \<Longrightarrow> goes (plain E) s0 (reload E s)"
proof (rule goes_quiet)
  obtain m d err where r: "ReloadKeys (pg_pool (env_codec E)) (sv_Pool s) (sv_DB s) = (m, d, err)"
    by (metis prod_cases3)
  from mstep.reload [OF r] show "mstep (st s) Quiet (st (reload E s))" by (simp add: st_def reload_def r)
qed

lemma goes_event: "goes (plain E) s0 s \<Longrightarrow> goes (plain E) s0 (queue_event e s)"
  by (rule goes_quiet) (simp_all add: st_def queue_event_def mstep.event)

lemma goes_same_state: "same_state s' s \<Longrightarrow> goes (plain E) s s'"
proof -
  assume a: "same_state s' s"
  then have "goes (plain E) s (s\<lparr>sv_DB := sv_DB s'\<rparr>)"
    by (intro goes_read) (simp_all add: same_state_def)
  moreover have "goes (plain E) (s\<lparr>sv_DB := sv_DB s'\<rparr>) s'"
    using a by (intro goes_same) (simp add: st_def same_state_def)
  ultimately show ?thesis by (rule goes_trans)
qed

lemma goes_resolve: "resolveKeyCaller E r s = (s', res) \<Longrightarrow> goes (plain E) s s'"
  by (rule goes_same_state) (rule resolveKeyCaller_cases(1))

lemma goes_tierNamed: "tierNamed n s = (s', res) \<Longrightarrow> goes (plain E) s s'"
  by (auto simp: tierNamed_def dest!: read_calls(1) split: prod.splits sum.splits option.splits
      intro: goes_read)

lemma goes_spend:
  assumes "RecordSpend (pg_pool codec) now e (sv_Pool s) (sv_DB s) = (m, d, r)" "goes (plain E) s0 s"
  shows "goes (plain E) s0 (s\<lparr>sv_Pool := m, sv_DB := d\<rparr>)"
  by (rule goes_quiet [OF _ assms(2)]) (simp add: st_def mstep.spend [OF assms(1)])

text \<open>The calls by name.\<close>

lemmas goes_calls =
  goes_call [where c = "CCreateTier t fs" for t fs, unfolded db_do.simps]
  goes_call [where c = "CUpdateTierDescription i desc" for i desc, unfolded db_do.simps]
  goes_call [where c = "CSetTierFeatures i fs" for i fs, unfolded db_do.simps]
  goes_call [where c = "CDeleteTier i" for i, unfolded db_do.simps]
  goes_call [where c = "CCreateKey key xs" for key xs, unfolded db_do.simps]
  goes_call [where c = "CDeleteKey i" for i, unfolded db_do.simps]
  goes_call [where c = "CUpdateKeyBudget i b" for i b, unfolded db_do.simps]
  goes_call [where c = "CCreateConsumer u" for u, unfolded db_do.simps]
  goes_call [where c = "CDeleteConsumer i" for i, unfolded db_do.simps]
  goes_call [where c = "CAddConsumerScope i j" for i j, unfolded db_do.simps]

declare writes_fresh_def [simp]

section \<open>Handler by handler\<close>

lemma plain_listings:
  "plain_handler HealthCheck" "plain_handler Health" "plain_handler ListKeys"
  "plain_handler ListTiers" "plain_handler ListConsumers" "plain_handler ListUsageEvents_h"
  by (auto simp: plain_handler_def HealthCheck_def Health_def ListKeys_def ListTiers_def ListConsumers_def
      ListUsageEvents_h_def Let_def dest!: read_calls split: prod.splits sum.splits intro!: goes_read)

lemma plain_consumers:
  "plain_handler CreateConsumer_h" "plain_handler DeleteConsumer_h" "plain_handler AddConsumerScope_h"
  unfolding plain_handler_def CreateConsumer_h_def DeleteConsumer_h_def AddConsumerScope_h_def Let_def
  by (auto split: prod.splits sum.splits option.splits if_splits intro: goes_calls goes_tierNamed
      simp: fresh_hash_def)

lemma plain_keys: "plain_handler DeleteKey_h" "plain_handler SetKeyBudget"
  unfolding plain_handler_def DeleteKey_h_def SetKeyBudget_def
  by (auto split: prod.splits sum.splits option.splits if_splits intro: goes_calls intro!: goes_reload)

lemma plain_AddKey: "plain_handler AddKey"
proof -
  have "key_ID key = env_uuid E 0" if "sealedRows E sealer k t = Inr (key, xs)" for E sealer k t key xs
    using that by (auto simp: sealedRows_def Let_def ebind_Inr_iff)
  then show ?thesis
    unfolding plain_handler_def AddKey_def
    by (auto split: prod.splits sum.splits intro: goes_calls(5) goes_tierNamed intro!: goes_reload)
qed

lemma tierFeatures_nonempty:
  "decodeTierBody E r = Inr body \<Longrightarrow> tierFeatures i (tb_Features body) = (stored, echoed) \<Longrightarrow> stored \<noteq> []"
  by (auto simp: decodeTierBody_def tierFeatures_def Let_def ebind_Inr_iff split: if_splits)

lemma plain_CreateTier: "plain_handler CreateTier_h"
  unfolding plain_handler_def CreateTier_h_def Let_def
  by (auto split: prod.splits sum.splits intro: goes_calls(1))

lemma plain_DeleteTier: "plain_handler DeleteTier_h"
  unfolding plain_handler_def DeleteTier_h_def Let_def
  by (auto split: prod.splits sum.splits intro: goes_calls(4) goes_tierNamed intro!: goes_reload)

lemma plain_ReportSpend: "plain_handler ReportSpend"
  unfolding plain_handler_def ReportSpend_def Let_def
  by (auto split: prod.splits sum.splits option.splits intro: goes_spend goes_resolve)


lemma plain_UpdateTierFeatures: "plain_handler UpdateTierFeatures"
  unfolding plain_handler_def
proof (intro allI impI)
  fix E r s s' resp
  assume h: "UpdateTierFeatures E r s = (s', resp)"
  show "goes (plain E) s s'"
  proof (cases "decodeTierBody E r")
    case (Inl e)
    with h show ?thesis by (simp add: UpdateTierFeatures_def)
  next
    case (Inr body)
    obtain s1 t where t: "tierNamed (tb_Name body) s = (s1, t)" by fastforce
    have s1: "goes (plain E) s s1" using t by (rule goes_tierNamed)
    have set: "goes (plain E) s (s2\<lparr>sv_DB := d2\<rparr>)"
      if "SetTierFeatures i fs (sv_DB s2) = (d2, x)" "tierFeatures i (tb_Features body) = (fs, echoed)"
        "goes (plain E) s s2" for i fs s2 d2 x echoed
      using goes_calls(3) [OF that(1,3)] tierFeatures_nonempty [OF Inr that(2)] by simp
    have desc: "goes (plain E) s (s1\<lparr>sv_DB := d\<rparr>)"
      if "UpdateTierDescription i x (sv_DB s1) = (d, y)" for i x d y
      using goes_calls(2) [OF that s1] by simp
    from set [of _ _ "s1\<lparr>sv_DB := d\<rparr>" for d] have set_after: "goes (plain E) s (s1\<lparr>sv_DB := d2\<rparr>)"
      if "SetTierFeatures i fs d = (d2, x)" "tierFeatures i (tb_Features body) = (fs, echoed)"
        "goes (plain E) s (s1\<lparr>sv_DB := d\<rparr>)" for i fs d d2 x echoed
      using that by simp
    show ?thesis
      using h Inr t s1 desc set set_after unfolding UpdateTierFeatures_def
      by (auto split: prod.splits sum.splits option.splits intro!: goes_reload)
  qed
qed

section \<open>Drawing and benching\<close>

text \<open>
  What a request may do: a plain step, an attempt to draw with the clock readings of its
  environment, or the bench of the key the path of a POST names.
\<close>

definition bench_path :: "request \<Rightarrow> string \<Rightarrow> bool" where
  "bench_path r i \<longleftrightarrow> rq_method r = POST \<and> rq_path r = [''key'', i, ''exhausted'']"

fun drawing :: "env \<Rightarrow> label \<Rightarrow> bool" where
  "drawing E (Attempt clk r) = (clk = (\<lambda>n. env_now E (n + 3)))"
| "drawing E l = plain E l"

lemma plain_drawing: "plain E l \<Longrightarrow> drawing E l"
  by (cases l) simp_all

lemma goes_drawing: "goes (plain E) s s' \<Longrightarrow> goes (drawing E) s s'"
  unfolding goes_def trace_def using plain_drawing by blast

text \<open>The drawn key's attempt is among the steps of the request.\<close>

definition shows_draw :: "label list \<Rightarrow> response \<Rightarrow> bool" where
  "shows_draw ls resp \<longleftrightarrow> (\<forall>d. rs_body resp = DrawnKey d \<longrightarrow>
     (\<exists>clk x. Attempt clk (Inr x) \<in> set ls \<and> sk_ID x = dk_KeyID d))"

definition request_steps :: "(label \<Rightarrow> bool) \<Rightarrow> server \<Rightarrow> server \<Rightarrow> response \<Rightarrow> bool" where
  "request_steps P s s' resp \<longleftrightarrow>
     (\<exists>ls. msteps (st s) ls (st s') \<and> (\<forall>l\<in>set ls. P l) \<and> shows_draw ls resp)"

lemma request_goes: "goes P s s' \<Longrightarrow> (\<And>d. rs_body resp \<noteq> DrawnKey d) \<Longrightarrow> request_steps P s s' resp"
  by (auto simp: goes_def trace_def request_steps_def shows_draw_def)

lemma request_mono: "request_steps P s s' resp \<Longrightarrow> (\<And>l. P l \<Longrightarrow> Q l) \<Longrightarrow> request_steps Q s s' resp"
  unfolding request_steps_def by blast

lemma answer_steps:
  assumes "goes (plain E) s0 s" "mstep (st s) (Attempt (\<lambda>n. env_now E (n + 3)) (Inr x)) (m, sv_DB s)"
    and "answer_key E caller f x (s\<lparr>sv_Pool := m\<rparr>) = (s', resp)"
  shows "request_steps (drawing E) s0 s' resp"
proof -
  let ?l = "Attempt (\<lambda>n. env_now E (n + 3)) (Inr x)"
  obtain ls where ls: "msteps (st s0) ls (st s)" "\<forall>l\<in>set ls. plain E l"
    using assms(1) by (auto simp: goes_def trace_def)
  have "\<exists>ls'. msteps (m, sv_DB s) ls' (st s') \<and> (\<forall>l\<in>set ls'. l = Quiet)"
  proof (cases "Open (sv_Sealer s) (sk_KeyValue x)")
    case (Inl e)
    with assms(3) have "st s' = (m, sv_DB s)" by (auto simp: answer_key_def st_def)
    then show ?thesis by (intro exI [of _ "[]"]) (simp add: msteps.none)
  next
    case (Inr v)
    with assms(3) obtain e where s': "st s' = (m\<lparr>m_usage := Event e (m_usage m)\<rparr>, sv_DB s)"
      by (auto simp: answer_key_def st_def queue_event_def)
    have "msteps (m, sv_DB s) [Quiet] (st s')" unfolding s' by (rule msteps_one [OF mstep.event])
    then show ?thesis by fastforce
  qed
  then obtain ls' where ls': "msteps (m, sv_DB s) ls' (st s')" "\<forall>l\<in>set ls'. l = Quiet" by blast
  have "msteps (st s0) (ls @ ?l # ls') (st s')"
    using msteps_append [OF ls(1) msteps.more [OF assms(2) ls'(1)]] .
  moreover have "\<forall>l\<in>set (ls @ ?l # ls'). drawing E l" using ls(2) ls'(2) plain_drawing by auto
  moreover have "sk_ID x = dk_KeyID d" if "rs_body resp = DrawnKey d" for d
    using assms(3) that by (auto simp: answer_key_def writeError_def writeJSON_def split: sum.splits)
  then have "shows_draw (ls @ ?l # ls') resp" by (fastforce simp: shows_draw_def)
  ultimately show ?thesis unfolding request_steps_def by blast
qed

lemma failed_draw_steps:
  assumes "goes (plain E) s0 s" "mstep (st s) (Attempt (\<lambda>n. env_now E (n + 3)) res) (m, sv_DB s)"
    and "\<And>d. rs_body resp \<noteq> DrawnKey d"
  shows "request_steps (drawing E) s0 (s\<lparr>sv_Pool := m\<rparr>) resp"
proof (rule request_goes [OF _ assms(3)])
  have "trace (drawing E) (st s) (st (s\<lparr>sv_Pool := m\<rparr>))"
    by (rule trace_step [OF assms(2) [folded st_def [of "s\<lparr>sv_Pool := m\<rparr>", simplified]]]) simp
  with goes_drawing [OF assms(1)] show "goes (drawing E) s0 (s\<lparr>sv_Pool := m\<rparr>)"
    unfolding goes_def by (rule trace_trans)
qed

lemma draw_mstep:
  "GetKeyForFeature clk f al (sv_Pool s) = (m, r) \<Longrightarrow> mstep (st s) (Attempt clk r) (m, sv_DB s)"
  "KeyByID clk i f al (sv_Pool s) = (m, r) \<Longrightarrow> mstep (st s) (Attempt clk r) (m, sv_DB s)"
  unfolding st_def by (rule mstep.intros, assumption)+

lemma draw_steps:
  "GetKey E r s = (s', resp) \<Longrightarrow> request_steps (drawing E) s s' resp"
  "GetKeyByID E r s = (s', resp) \<Longrightarrow> request_steps (drawing E) s s' resp"
  unfolding GetKey_def GetKeyByID_def Let_def
  by (auto split: prod.splits sum.splits if_splits
      simp: error_bodies writeError_def writeJSON_def
      intro: answer_steps [OF goes_resolve draw_mstep(1)] answer_steps [OF goes_resolve draw_mstep(2)]
        failed_draw_steps [OF goes_resolve draw_mstep(1)] failed_draw_steps [OF goes_resolve draw_mstep(2)]
        request_goes [OF goes_drawing [OF goes_resolve]])

end
