(* ===== verification/Server_Runs.thy ===== *)
theory Server_Runs
  imports Server_Steps
begin

text \<open>
  Whole runs of the server as runs of one key: every action is a sequence of the steps of theory
  \<open>Key_Steps\<close>, and every key an answer hands out is an attempt among them.
\<close>

section \<open>Benching by request\<close>

lemma exhaust_steps:
  assumes "ExhaustKey E r s = (s', resp)"
  shows "request_steps (\<lambda>l. drawing E l \<or> (\<exists>t u. l = Bench (PathValue r pathID) t u)) s s' resp"
    (is "request_steps ?P s s' resp")
proof -
  have plain: "goes ?P s s1" if "goes (plain E) s s1" for s1
    using goes_drawing [OF that] unfolding goes_def trace_def by blast
  have bench: "goes ?P s (queue_event e (s1\<lparr>sv_Pool := m, sv_DB := d\<rparr>))"
    if "goes (plain E) s s1"
      "MarkExhausted (pg_pool codec) (PathValue r pathID) until (sv_Pool s1) (sv_DB s1) = (m, d, ok)"
    for s1 codec until m d ok e
  proof -
    have "trace ?P (st s1) (m, d)"
    proof (cases ok)
      case True
      have "MarkExhausted (pg_pool codec) (PathValue r pathID) until (sv_Pool s1) (sv_DB s1) = (m, d, True)"
        using that(2) True by simp
      from mstep.bench [OF this] show ?thesis unfolding st_def by (rule trace_step) simp
    next
      case False
      with that(2) have "(m, d) = st s1" by (simp add: MarkExhausted_def st_def split: option.splits)
      then show ?thesis by simp
    qed
    moreover have "trace ?P (m, d) (st (queue_event e (s1\<lparr>sv_Pool := m, sv_DB := d\<rparr>)))"
      unfolding st_def queue_event_def by (simp, rule trace_step [OF mstep.event]) simp
    moreover have "trace ?P (st s) (st s1)"
      using goes_drawing [OF that(1)] unfolding goes_def trace_def by blast
    ultimately show ?thesis unfolding goes_def by (blast intro: trace_trans)
  qed
  have "goes ?P s s'"
    using assms
    by (auto simp: ExhaustKey_def Let_def split: prod.splits sum.splits option.splits
        intro: plain goes_resolve bench)
  moreover have "rs_body resp \<noteq> DrawnKey d" for d
    using no_key_reports(1) assms unfolding no_key_def by (metis snd_conv)
  ultimately show ?thesis by (rule request_goes)
qed

section \<open>Every route\<close>

fun acts :: "env \<Rightarrow> request \<Rightarrow> label \<Rightarrow> bool" where
  "acts E r (Bench i t taken) = bench_path r i"
| "acts E r l = drawing E l"

lemma match_exhausted:
  assumes "match_path [Lit a, Wild n, Lit b] path = Some vals"
  shows "\<exists>i. path = [a, i, b] \<and> vals = [(n, i)]"
proof -
  obtain x xs where x: "path = x # xs" using assms by (cases path) auto
  obtain y ys where y: "xs = y # ys" using assms x by (cases xs) (auto split: if_splits)
  obtain z zs where z: "ys = z # zs" using assms x y by (cases ys) (auto split: if_splits)
  show ?thesis using assms x y z by (cases zs) (auto split: if_splits)
qed

lemma drawing_acts: "drawing E l \<Longrightarrow> acts E r l"
  by (cases l) simp_all

lemma plain_admin: "plain_handler h \<Longrightarrow> plain_handler (admin h)"
proof -
  assume h: "plain_handler h"
  have "goes (plain E) s s'" if "AdminAuth (clearAfterWrite h) E r s = (s', resp)" for E r s s' resp
  proof (cases "\<exists>s1 x. h E r s = (s1, x) \<and> st s' = st s1")
    case True
    then obtain s1 x where x: "h E r s = (s1, x)" "st s' = st s1" by blast
    with h have "goes (plain E) s s1" unfolding plain_handler_def by blast
    with x(2) show ?thesis by (simp add: goes_def)
  next
    case False
    with that have "s' = s"
      by (auto simp: AdminAuth_def clearAfterWrite_def st_def split: option.splits if_splits prod.splits)
    then show ?thesis by simp
  qed
  then show ?thesis unfolding plain_handler_def admin_def by blast
qed

lemmas plain_handlers = plain_listings plain_consumers plain_keys plain_AddKey plain_CreateTier
  plain_UpdateTierFeatures plain_DeleteTier plain_ReportSpend

definition tame_route :: "route \<Rightarrow> bool" where
  "tame_route t \<longleftrightarrow> draws_key (rt_handler t) \<or> plain_handler (rt_handler t) \<and> no_key (rt_handler t)
     \<or> rt_handler t = ExhaustKey \<and> rt_method t = POST \<and> rt_path t = [Lit ''key'', Wild ''id'', Lit ''exhausted'']"

lemma tame_routes: "list_all tame_route NewRouter"
  by (simp add: NewRouter_def open_route_def admin_route_def tame_route_def plain_handlers plain_admin
      no_key_admin no_key_handlers draws_key_def)

lemma ServeHTTP_steps:
  assumes "ServeHTTP E r s = (s', resp)"
  shows "request_steps (acts E r) s s' resp"
proof (cases "find_route r")
  case None
  with assms show ?thesis
    by (intro request_goes) (auto simp: ServeHTTP_def writeJSON_def split: if_splits)
next
  case (Some tv)
  obtain t vals where tv: "tv = (t, vals)" by (cases tv)
  then have h: "rt_handler t E (r\<lparr>rq_values := vals\<rparr>) s = (s', resp)"
    using assms Some by (simp add: ServeHTTP_def)
  note route = find_route_some [OF Some [unfolded tv]]
  have tame: "tame_route t" using route(1) tame_routes by (simp add: list_all_iff)
  then consider (draw) "draws_key (rt_handler t)" | (plain) "plain_handler (rt_handler t)" "no_key (rt_handler t)"
    | (bench) "rt_handler t = ExhaustKey" "rt_method t = POST" "rt_path t = [Lit ''key'', Wild ''id'', Lit ''exhausted'']"
    unfolding tame_route_def by blast
  then show ?thesis
  proof cases
    case draw
    with h draw_steps have "request_steps (drawing E) s s' resp" by (auto simp: draws_key_def)
    then show ?thesis by (rule request_mono) (rule drawing_acts)
  next
    case plain
    have "goes (plain E) s s'" using plain(1) h unfolding plain_handler_def by blast
    moreover have "rs_body resp \<noteq> DrawnKey d" for d using plain(2) h unfolding no_key_def by (metis snd_conv)
    ultimately have "request_steps (drawing E) s s' resp" by (intro request_goes goes_drawing)
    then show ?thesis by (rule request_mono) (rule drawing_acts)
  next
    case bench
    obtain i where i: "rq_path r = [''key'', i, ''exhausted'']" "vals = [(''id'', i)]"
      using match_exhausted route(3) bench(3) by fastforce
    have "rq_method r = POST" using route(2) bench(2) by (simp add: method_matches_def)
    with i(1) have "bench_path r i" by (simp add: bench_path_def)
    moreover have "PathValue (r\<lparr>rq_values := vals\<rparr>) pathID = i" by (simp add: PathValue_def pathID_def i(2))
    moreover note exhaust_steps [OF h [unfolded bench(1)]]
    ultimately show ?thesis by (elim request_mono) (auto intro: drawing_acts)
  qed
qed


section \<open>Balance syncs\<close>

definition syncs :: "duration \<Rightarrow> syncenv \<Rightarrow> Manager \<Rightarrow> label \<Rightarrow> bool" where
  "syncs p W m l \<longleftrightarrow> l = Quiet \<or> (\<exists>i t taken. l = Bench i t taken \<and> spent_answer p W m i t)"

lemma check_trace:
  assumes "(f, src) \<in> set Sources" "key \<in> set (Holding f m0)"
  shows "trace (syncs p W m0) x (check (mgr_pool codec) p W n src key x)"
proof -
  obtain m d where x: "x = (m, d)" by (cases x)
  show ?thesis
  proof (cases "src W n (held_KeyValue key)")
    case (Inl e)
    then show ?thesis by (simp add: check_def)
  next
    case (Inr b)
    let ?b = "b\<lparr>bal_CheckedAt := sy_now W n\<rparr>" let ?m = "SetBalance (held_ID key) ?b m"
    let ?t = "bench_until p (sy_now W n) ?b"
    have set: "trace (syncs p W m0) (m, d) (?m, d)" by (rule trace_step [OF mstep.balance]) (simp add: syncs_def)
    show ?thesis
    proof (cases "Balance_Spent b")
      case False
      then show ?thesis using Inr set by (simp add: check_def x mgr_pool_def Balance_Spent_def)
    next
      case True
      obtain m' d' ok where mark: "MarkExhausted (pg_pool codec) (held_ID key) ?t ?m d = (m', d', ok)"
        by (metis prod_cases3)
      have "spent_answer p W m0 (held_ID key) ?t"
        using assms Inr True unfolding spent_answer_def bench_until_def by force
      then have "trace (syncs p W m0) (?m, d) (m', d')"
        using mark mstep.bench [of codec "held_ID key" ?t ?m d m' d']
        by (cases ok) (auto simp: syncs_def MarkExhausted_def split: option.splits intro: trace_step)
      with set have "trace (syncs p W m0) (m, d) (m', d')" by (rule trace_trans)
      then show ?thesis
        using Inr True mark by (simp add: check_def x mgr_pool_def Balance_Spent_def)
    qed
  qed
qed

lemma sync_keys_trace:
  assumes "(f, src) \<in> set Sources"
  shows "set keys \<subseteq> set (Holding f m0) \<Longrightarrow> sync_keys (mgr_pool codec) p W src keys n x = (n', stopped, y) \<Longrightarrow>
    trace (syncs p W m0) x y"
proof (induction keys arbitrary: n x)
  case (Cons key keys)
  show ?case
  proof (cases "sy_done W n")
    case False
    with Cons.prems(2) have "sync_keys (mgr_pool codec) p W src keys (Suc n)
        (check (mgr_pool codec) p W n src key x) = (n', stopped, y)" by simp
    with Cons have rest: "trace (syncs p W m0) (check (mgr_pool codec) p W n src key x) y" by auto
    have "trace (syncs p W m0) x (check (mgr_pool codec) p W n src key x)"
      by (rule check_trace [OF assms]) (use Cons.prems(1) in simp)
    then show ?thesis using rest by (rule trace_trans)
  qed (use Cons.prems(2) in simp)
qed simp

lemma sync_sources_trace:
  assumes "mp.syncing codec p W Sources x0 x" "set rest \<subseteq> set Sources"
    and "sync_sources (mgr_pool codec) p W rest n x = (n', stopped, y)"
  shows "trace (syncs p W (fst x0)) x y"
  using assms
proof (induction rest arbitrary: n x)
  case (Cons fs rest)
  obtain f src where fs: "fs = (f, src)" by (cases fs)
  then have mem: "(f, src) \<in> set Sources" "set rest \<subseteq> set Sources" using Cons.prems(2) by auto
  have holds: "bp_Holding (mgr_pool codec) f x = bp_Holding (mgr_pool codec) f x0"
    using Cons.prems(1) unfolding mp.syncing_def by blast
  obtain n1 st1 x1 where k:
    "sync_keys (mgr_pool codec) p W src (bp_Holding (mgr_pool codec) f x) n x = (n1, st1, x1)"
    by (metis prod_cases3)
  have first: "trace (syncs p W (fst x0)) x x1"
    by (rule sync_keys_trace [OF mem(1) _ k]) (simp add: holds, simp add: mgr_pool_def)
  show ?case
  proof (cases st1)
    case True
    with k first Cons.prems(3) fs show ?thesis by simp
  next
    case False
    with k Cons.prems(3) fs have rest: "sync_sources (mgr_pool codec) p W rest n1 x1 = (n', stopped, y)" by simp
    have "mp.syncing codec p W Sources x0 x1"
      by (rule mp.sync_keys_law(1) [OF Cons.prems(1) mem(1) _ k]) (simp add: holds)
    from first Cons.IH [OF this mem(2) rest] show ?thesis by (rule trace_trans)
  qed
qed simp

lemma sync_trace:
  assumes "pool_ok m" "schema_ok d"
  shows "trace (syncs p W m) (m, d) (sync (mgr_pool codec) p Sources W (m, d))"
proof -
  obtain n stopped y where s: "sync_sources (mgr_pool codec) p W Sources 0 (m, d) = (n, stopped, y)"
    by (metis prod_cases3)
  have "mp.syncing codec p W Sources (m, d) (m, d)" using assms by (intro mp.syncing_refl) simp
  from sync_sources_trace [OF this subset_refl s] s show ?thesis by (simp add: sync_def)
qed

section \<open>Actions and runs\<close>

text \<open>
  What a run may not do: hand out the id of the key again as a fresh one, or walk over a map in
  anything but an order of its entries. \<open>rebenches\<close> are the actions that may bench the key.
\<close>

fun ordinary :: "string \<Rightarrow> action \<Rightarrow> bool" where
  "ordinary k (Request E r) = (env_uuid E 0 \<noteq> k)"
| "ordinary k (FlushTick order) = (\<forall>xs. mset (order xs) = mset xs)"
| "ordinary k _ = True"

fun rebenches :: "string \<Rightarrow> action \<Rightarrow> server \<Rightarrow> bool" where
  "rebenches k (Request E r) s = bench_path r k"
| "rebenches k (SyncTick codec W) s = (\<exists>t. spent_answer balancePeriod W (sv_Pool s) k t)"
| "rebenches k _ s = False"

fun calm :: "string \<Rightarrow> action list \<Rightarrow> server \<Rightarrow> bool" where
  "calm k [] s = True"
| "calm k (a # as) s = (\<not> rebenches k a s \<and> calm k as (server_do a s))"

definition hands_out :: "string \<Rightarrow> response \<Rightarrow> bool" where
  "hands_out k resp = (case rs_body resp of DrawnKey d \<Rightarrow> dk_KeyID d = k | _ \<Rightarrow> False)"

fun answers :: "action list \<Rightarrow> server \<Rightarrow> response list" where
  "answers [] s = []"
| "answers (Request E r # as) s = (case ServeHTTP E r s of (s', resp) \<Rightarrow> resp # answers as s')"
| "answers (a # as) s = answers as (server_do a s)"

definition action_label :: "action \<Rightarrow> server \<Rightarrow> label \<Rightarrow> bool" where
  "action_label a s l = (case a of Request E r \<Rightarrow> acts E r l
     | SyncTick codec W \<Rightarrow> syncs balancePeriod W (sv_Pool s) l | _ \<Rightarrow> l = Quiet)"

lemma action_steps:
  assumes "sane s" "ordinary k a"
  shows "\<exists>ls. msteps (st s) ls (st (server_do a s)) \<and> (\<forall>l\<in>set ls. action_label a s l)
    \<and> (\<forall>resp\<in>set (answers [a] s). shows_draw ls resp)"
proof -
  have trace: ?thesis if "trace (action_label a s) (st s) (st (server_do a s))" "answers [a] s = []"
    using that by (auto simp: trace_def)
  show ?thesis
  proof (cases a)
    case (Request E r)
    obtain s' resp where h: "ServeHTTP E r s = (s', resp)" by fastforce
    from ServeHTTP_steps [OF h] show ?thesis
      by (simp add: Request h request_steps_def action_label_def)
  next
    case (FlushTick order)
    obtain w d where f: "Flush pg_writer order (m_usage (sv_Pool s)) (sv_DB s) = (w, d)" by fastforce
    have "mstep (st s) Quiet (st (server_do a s))"
      using mstep.flush [OF f] assms(2) by (simp add: FlushTick f st_def)
    then show ?thesis using FlushTick by (intro trace trace_step) (auto simp: action_label_def)
  next
    case (SyncTick codec W)
    obtain m d where f: "sync (mgr_pool codec) balancePeriod Sources W (sv_Pool s, sv_DB s) = (m, d)" by fastforce
    have "trace (syncs balancePeriod W (sv_Pool s)) (st s) (m, d)"
      using sync_trace [of "sv_Pool s" "sv_DB s"] assms(1) unfolding f [symmetric] by (simp add: sane_def st_def)
    moreover have "(m, d) = st (server_do a s)" by (simp add: SyncTick f st_def)
    ultimately show ?thesis
      using SyncTick by (intro trace) (auto simp: trace_def action_label_def)
  next
    case (World now faults)
    have "tables ((sv_DB s)\<lparr>pg_now := now, pg_faults := faults\<rparr>) = (tables (sv_DB s))\<lparr>pg_now := now\<rparr>"
      by (simp add: tables_def)
    from mstep.weather [OF this, of "sv_Pool s"] have "mstep (st s) Quiet (st (server_do a s))"
      by (simp add: World st_def)
    then show ?thesis using World by (intro trace trace_step) (auto simp: action_label_def)
  qed
qed

end
