(* ===== verification/Guarantees.thy ===== *)
theory Guarantees
  imports Server_Runs
begin

text \<open>
  What the running server guarantees for a key, whatever requests, flushes, syncs and failures
  come: its usage limit, also over a restart, and its bench.
\<close>

section \<open>Runs seen from a key\<close>

lemma allowed_action:
  assumes "action_label a s l" "ordinary k a"
  shows "allowed k l"
proof (cases a)
  case (Request E r)
  with assms show ?thesis by (cases l) (auto simp: action_label_def allowed_def)
qed (use assms in \<open>auto simp: action_label_def allowed_def syncs_def\<close>)

lemma klabs_mem:
  "KServed clk \<in> set (klabs k ls) \<longleftrightarrow> (\<exists>x. Attempt clk (Inr x) \<in> set ls \<and> sk_ID x = k)"
  "KBench t u \<in> set (klabs k ls) \<longleftrightarrow> Bench k t u \<in> set ls"
proof -
  have s: "KServed clk = klab k l \<longleftrightarrow> (\<exists>x. l = Attempt clk (Inr x) \<and> sk_ID x = k)" for l
    by (auto simp: klab_def split: label.splits sum.splits if_splits)
  have b: "KBench t u = klab k l \<longleftrightarrow> l = Bench k t u" for l
    by (auto simp: klab_def split: label.splits sum.splits if_splits)
  show "KServed clk \<in> set (klabs k ls) \<longleftrightarrow> (\<exists>x. Attempt clk (Inr x) \<in> set ls \<and> sk_ID x = k)"
    "KBench t u \<in> set (klabs k ls) \<longleftrightarrow> Bench k t u \<in> set ls"
    by (auto simp: klabs_def image_iff s b)
qed

lemma serves_in_append: "serves_in (ls @ ls') = serves_in ls + serves_in ls'"
  by (simp add: serves_in_def)

lemma serves_in_pos: "KServed clk \<in> set ls \<Longrightarrow> 0 < serves_in ls"
  unfolding serves_in_def by (induction ls) (auto split: if_splits)

text \<open>The labels of an action, for one key.\<close>

definition key_run :: "string \<Rightarrow> server \<Rightarrow> klabel list \<Rightarrow> server \<Rightarrow> bool" where
  "key_run k s ls s' \<longleftrightarrow> ksteps (view k (st s)) ls (view k (st s')) \<and> fine k (st s')"

lemma action_run:
  assumes "fine k (st s)" "ordinary k a"
  shows "\<exists>ls. key_run k s ls (server_do a s)
    \<and> length (filter (hands_out k) (answers [a] s)) \<le> serves_in ls
    \<and> (\<forall>clk. KServed clk \<in> set ls \<longrightarrow> (\<exists>E r. a = Request E r \<and> clk = (\<lambda>n. env_now E (n + 3))))
    \<and> (\<forall>t u. KBench t u \<in> set ls \<longrightarrow> rebenches k a s)"
proof -
  have "sane s" using assms(1) by (simp add: fine_def step_ok_def sane_def st_def)
  from action_steps [OF this assms(2)] obtain ls
    where ls: "msteps (st s) ls (st (server_do a s))" "\<forall>l\<in>set ls. action_label a s l"
      "\<forall>resp\<in>set (answers [a] s). shows_draw ls resp" by blast
  have "\<forall>l\<in>set ls. allowed k l" using ls(2) allowed_action [OF _ assms(2)] by blast
  from steps_view [OF ls(1) assms(1) this] have run: "key_run k s (klabs k ls) (server_do a s)"
    by (simp add: key_run_def)
  moreover have "length (filter (hands_out k) (answers [a] s)) \<le> serves_in (klabs k ls)"
  proof (cases "filter (hands_out k) (answers [a] s)")
    case (Cons resp rest)
    then have "resp \<in> set (filter (hands_out k) (answers [a] s))" by simp
    then have resp: "resp \<in> set (answers [a] s)" "hands_out k resp" by simp_all
    have one: "length (answers [a] s) \<le> 1" by (cases a) (simp_all split: prod.split)
    have "\<exists>clk. KServed clk \<in> set (klabs k ls)"
      using ls(3) resp by (fastforce simp: shows_draw_def hands_out_def klabs_mem split: respbody.splits)
    then have "0 < serves_in (klabs k ls)" using serves_in_pos by blast
    with one length_filter_le [of "hands_out k" "answers [a] s"] show ?thesis by linarith
  qed simp
  moreover have "\<exists>E r. a = Request E r \<and> clk = (\<lambda>n. env_now E (n + 3))" if "KServed clk \<in> set (klabs k ls)" for clk
  proof -
    obtain x where "Attempt clk (Inr x) \<in> set ls" using \<open>KServed clk \<in> _\<close> klabs_mem(1) by blast
    then have "action_label a s (Attempt clk (Inr x))" using ls(2) by blast
    then show ?thesis by (cases a) (auto simp: action_label_def syncs_def)
  qed
  moreover have "rebenches k a s" if "KBench t u \<in> set (klabs k ls)" for t u
  proof -
    have "action_label a s (Bench k t u)" using that ls(2) klabs_mem(2) by blast
    then show ?thesis by (cases a) (auto simp: action_label_def syncs_def)
  qed
  ultimately show ?thesis by blast
qed

lemma action_fine: "fine k (st s) \<Longrightarrow> ordinary k a \<Longrightarrow> fine k (st (server_do a s))"
  using action_run by (fastforce simp: key_run_def)

lemma key_run_trans: "key_run k s ls s1 \<Longrightarrow> key_run k s1 ls' s' \<Longrightarrow> key_run k s (ls @ ls') s'"
  by (auto simp: key_run_def intro: ksteps_append)

lemma answers_Cons: "answers (a # as) s = answers [a] s @ answers as (server_do a s)"
  by (cases a) (simp_all split: prod.split)

lemma server_run_run:
  assumes "fine k (st s)" "list_all (ordinary k) as"
  shows "\<exists>ls. key_run k s ls (server_run as s) \<and> length (filter (hands_out k) (answers as s)) \<le> serves_in ls
    \<and> (calm k as s \<longrightarrow> (\<forall>t u. KBench t u \<notin> set ls))"
  using assms
proof (induction as arbitrary: s)
  case Nil
  then have "key_run k s [] (server_run [] s)" by (simp add: server_run_def key_run_def ksteps.none)
  then show ?case by (intro exI [of _ "[]"]) simp
next
  case (Cons a as)
  from Cons.prems have a: "ordinary k a" by simp
  obtain ls1 where one: "key_run k s ls1 (server_do a s)"
    "length (filter (hands_out k) (answers [a] s)) \<le> serves_in ls1"
    "\<And>t u. KBench t u \<in> set ls1 \<Longrightarrow> rebenches k a s"
    using action_run [OF Cons.prems(1) a] by blast
  from one(1) have "fine k (st (server_do a s))" by (simp add: key_run_def)
  with Cons obtain ls2 where two: "key_run k (server_do a s) ls2 (server_run as (server_do a s))"
    "length (filter (hands_out k) (answers as (server_do a s))) \<le> serves_in ls2"
    "calm k as (server_do a s) \<Longrightarrow> \<forall>t u. KBench t u \<notin> set ls2" by fastforce
  have "key_run k s (ls1 @ ls2) (server_run (a # as) s)"
    using key_run_trans [OF one(1) two(1)] by (simp add: server_run_def)
  moreover have "length (filter (hands_out k) (answers (a # as) s)) \<le> serves_in (ls1 @ ls2)"
    unfolding answers_Cons [of a as] using one(2) two(2) by (simp add: serves_in_append)
  moreover have "calm k (a # as) s \<longrightarrow> (\<forall>t u. KBench t u \<notin> set (ls1 @ ls2))"
    using one(3) two(3) by auto
  ultimately show ?case by blast
qed

section \<open>The start\<close>

lemma start_view:
  assumes "start_server getenv newGCM codec d = Some s" "schema_ok d" "covered k d"
  shows "fine k (st s)" "key_row_of (sv_DB s) k = key_row_of d k" "pending (m_usage (sv_Pool s)) k = id"
    "key_row_of d k = None \<Longrightarrow> key_of (sv_Pool s) k = None"
    "key_row_of d k = Some r \<Longrightarrow> \<exists>key. key_of (sv_Pool s) k = Some key \<and> loaded_from r None key"
proof -
  obtain sealer d' m where p: "ReloadKeys (pg_pool codec)
      \<lparr>m_keys = [], m_next = 0, m_usage = New_Writer, m_sealer = sealer\<rparr> d = (m, d', None)"
    "sv_DB s = d'" "sv_Pool s = m"
    using assms(1) by (auto simp: start_server_def NewManager_def split: sum.splits prod.splits option.splits)
  let ?m = "\<lparr>m_keys = [], m_next = 0, m_usage = New_Writer, m_sealer = sealer\<rparr>"
  have ok: "pool_ok ?m" by (simp add: pool_ok_def New_Writer_def)
  note frame = reload_frame [OF p(1) ok]
  note rows = same_tables_key_row [OF frame(2)]
  have "covered k d'"
    using assms(3) tables_fields(2,3) [OF frame(2)] by (simp add: covered_def featured_def key_row_of_def)
  with pgp.ReloadKeys_ok [OF ok assms(2) p(1)] p show "fine k (st s)"
    by (simp add: fine_def step_ok_def st_def)
  show "key_row_of (sv_DB s) k = key_row_of d k" using rows p(2) by simp
  show "pending (m_usage (sv_Pool s)) k = id"
    using frame(1) p(3) by (simp add: pending_def New_Writer_def)
  show "key_of (sv_Pool s) k = None" if "key_row_of d k = None"
    using reload_unloaded [OF p(1) ok assms(2) that] p(3) by simp
  show "\<exists>key. key_of (sv_Pool s) k = Some key \<and> loaded_from r None key" if row: "key_row_of d k = Some r"
  proof -
    obtain key where "key_of m k = Some key" "loaded_from r (key_of ?m k) key"
      using reload_loaded [OF p(1) ok assms(2,3) row] .
    moreover have "key_of ?m k = None" by (simp add: key_of_absent)
    ultimately show ?thesis using p(3) by simp
  qed
qed


section \<open>A usage limit without a window\<close>

text \<open>
  The row of key \<open>k\<close> has the usage limit \<open>limit\<close>, no window and the count \<open>n\<close>, and its tier has a
  feature, as every tier the administration creates.
\<close>

definition limited :: "string \<Rightarrow> int \<Rightarrow> int \<Rightarrow> pg \<Rightarrow> bool" where
  "limited k limit n d = (case key_row_of d k of
       None \<Rightarrow> False
     | Some r \<Rightarrow> kr_usage_limit r = Some limit \<and> kr_usage_window_seconds r = None \<and> kr_usage_count r = n
         \<and> kr_tier_id r \<in> tf_TierID ` set (pg_tier_features d))"

definition drawn_times :: "string \<Rightarrow> action list \<Rightarrow> server \<Rightarrow> nat" where
  "drawn_times k as s = length (filter (hands_out k) (answers as s))"

lemma limited_start:
  assumes "start_server getenv newGCM codec d = Some s" "schema_ok d" "limited k limit n d"
  shows "fine k (st s)" "lifetime limit n (view k (st s))" "books limit (view k (st s))"
proof -
  obtain r where r: "key_row_of d k = Some r" "kr_usage_limit r = Some limit"
    "kr_usage_window_seconds r = None" "kr_usage_count r = n" and cov: "covered k d"
    using assms(3) by (auto simp: limited_def covered_def featured_def split: option.splits)
  note v = start_view [OF assms(1,2) cov]
  show "fine k (st s)" by (rule v(1))
  obtain key where key: "key_of (sv_Pool s) k = Some key" "loaded_from r None key" using v(5) [OF r(1)] by blast
  show "lifetime limit n (view k (st s))"
    using key r v(2) by (auto simp: lifetime_def view_def st_def loaded_from_def counted_in_def)
  show "books limit (view k (st s))"
    using key r v(2,3) by (auto simp: books_def view_def st_def loaded_from_def counted_in_def usage_held_def)
qed

text \<open>
  A run that starts with \<open>n\<close> uses counts every draw.
\<close>

lemma limited_run:
  assumes "fine k (st s)" "lifetime limit n (view k (st s))" "list_all (ordinary k) as"
  obtains c where "lifetime limit (n + int c) (view k (st (server_run as s)))" "c \<le> nat (limit - n)"
    "drawn_times k as s \<le> c" "fine k (st (server_run as s))"
    "books limit (view k (st s)) \<Longrightarrow> 0 < limit \<Longrightarrow> books limit (view k (st (server_run as s)))"
proof -
  obtain ls where ls: "key_run k s ls (server_run as s)" "drawn_times k as s \<le> serves_in ls"
    using server_run_run [OF assms(1,3)] by (auto simp: drawn_times_def)
  then have steps: "ksteps (view k (st s)) ls (view k (st (server_run as s)))" by (simp add: key_run_def)
  from lifetime_ksteps [OF steps assms(2)] ls books_ksteps [OF steps] show ?thesis
    by (intro that [of "serves_in ls"]) (simp_all add: key_run_def)
qed

text \<open>
  C9. A usage limit without a window is never exceeded: however many requests of any callers come in
  after a start, for the key alone or for its feature, with reloads, changed tiers and budgets,
  flushes that fail, syncs and database failures in between, at most as many answers hand out the
  key as its limit leaves over the count it was stored with.
\<close>

theorem usage_limit_never_exceeded:
  assumes "start_server getenv newGCM codec d = Some s" "schema_ok d" "limited k limit n d"
    and "list_all (ordinary k) as"
  shows "drawn_times k as s \<le> nat (limit - n)"
  using limited_start [OF assms(1-3)] limited_run [OF _ _ assms(4)] by (metis le_trans)

text \<open>
  A restart forgets no use that was flushed: when nothing is queued for the key, as after the
  flush of an orderly shutdown that succeeds, the draws before and after the restart together stay
  within the limit.
\<close>

lemma restart_keeps_usage_limit:
  assumes "start_server getenv newGCM codec d = Some s" "schema_ok d" "limited k limit n d" "0 < limit"
    and "list_all (ordinary k) as" "s1 = server_run as s"
    and "mget (w_usage (m_usage (sv_Pool s1))) k = None"
    and "start_server getenv' newGCM' codec' (sv_DB s1) = Some s2" "list_all (ordinary k) as2"
  shows "drawn_times k as s + drawn_times k as2 s2 \<le> nat (limit - n)"
proof -
  note start = limited_start [OF assms(1-3)]
  obtain c where c: "lifetime limit (n + int c) (view k (st s1))" "c \<le> nat (limit - n)"
    "drawn_times k as s \<le> c" "fine k (st s1)" "books limit (view k (st s1))"
    using limited_run [OF start(1,2) assms(5), folded assms(6)] start(3) assms(4) by metis
  have ok: "schema_ok (sv_DB s1)" "covered k (sv_DB s1)" using c(4) by (simp_all add: fine_def step_ok_def st_def)
  note v = start_view [OF assms(8) ok]
  have "\<exists>n2. lifetime limit n2 (view k (st s2)) \<and> n + int c \<le> n2"
  proof (cases "key_row_of (sv_DB s1) k")
    case None
    with v(2,4) have "lifetime limit (max limit (n + int c)) (view k (st s2))"
      by (simp add: lifetime_def view_def st_def)
    then show ?thesis by (intro exI [of _ "max limit (n + int c)"]) simp
  next
    case (Some r)
    obtain key where key: "key_of (sv_Pool s2) k = Some key" "loaded_from r None key" using v(5) [OF Some] by blast
    obtain key1 where key1: "key_of (sv_Pool s1) k = Some key1" "pk_UsageCount key1 = n + int c"
      using c(1) Some by (auto simp: lifetime_def view_def st_def split: option.splits)
    have "pending (m_usage (sv_Pool s1)) k = id" using assms(7) by (simp add: pending_def)
    then have "kr_usage_count r = n + int c"
      using c(5) Some key1 by (simp add: books_def view_def st_def whole_def usage_held_def counted_in_def)
    then have "lifetime limit (n + int c) (view k (st s2))"
      using c(1) Some key v(2) by (auto simp: lifetime_def view_def st_def loaded_from_def counted_in_def)
    then show ?thesis by blast
  qed
  then obtain n2 where n2: "lifetime limit n2 (view k (st s2))" "n + int c \<le> n2" by blast
  obtain c2 where "c2 \<le> nat (limit - n2)" "drawn_times k as2 s2 \<le> c2"
    using limited_run [OF v(1) n2(1) assms(9)] by metis
  with c(2,3) n2(2) show ?thesis by linarith
qed

section \<open>A bench\<close>

text \<open>What an answered \<open>POST /key/{id}/exhausted\<close> has done to the pool.\<close>

lemma exhausted_route:
  assumes "bench_path r i" "i \<noteq> []"
  shows "find_route r = Some (open_route POST [Lit ''key'', Wild ''id'', Lit ''exhausted''] ExhaustKey, [(''id'', i)])"
  using assms by (simp add: bench_path_def find_route_def NewRouter_def open_route_def admin_route_def
      map_filter_simps method_matches_def)

lemma exhausted_pool:
  assumes "ServeHTTP E r s = (s1, resp)" "bench_path r k" "k \<noteq> []" "rs_status resp = StatusOK"
    and "decodeBody (env_decode_until E) r = Inr body" "env_parse_rfc3339 E body = Some until" "pool_ok (sv_Pool s)"
  shows "bench_of (sv_Pool s1) k = Some until"
proof -
  let ?r = "r\<lparr>rq_values := [(''id'', k)]\<rparr>"
  have h: "ExhaustKey E ?r s = (s1, resp)"
    using assms(1) exhausted_route [OF assms(2,3)] by (simp add: ServeHTTP_def open_route_def)
  have path: "PathValue ?r pathID = k" by (simp add: PathValue_def pathID_def)
  have body: "decodeBody (env_decode_until E) ?r = Inr body" using assms(5) by (simp add: decodeBody_def)
  obtain s2 res where res: "resolveKeyCaller E ?r s = (s2, res)" by fastforce
  have pool: "sv_Pool s2 = sv_Pool s" using resolveKeyCaller_cases(1) [OF res] by (simp add: same_state_def)
  obtain caller where caller: "res = Inr caller"
    using h res assms(4)
    by (cases res) (auto simp: ExhaustKey_def resolveKeyCaller_def writeError_def writeJSON_def status_defs
        split: option.splits if_splits prod.splits sum.splits)
  obtain m d ok where mark: "MarkExhausted (pg_pool (env_codec E)) k until (sv_Pool s) (sv_DB s2) = (m, d, ok)"
    by (metis prod_cases3)
  have out: "keyInScope caller k s2 = None \<and> sv_Pool s1 = m\<lparr>m_usage := m_usage (sv_Pool s1)\<rparr>"
    using h res caller path body assms(4,6) mark pool
    by (auto simp: ExhaustKey_def Let_def keyInScope_def queue_event_def writeError_def writeJSON_def status_defs
        split: option.splits if_splits prod.splits)
  have "key_of (m\<lparr>m_usage := w\<rparr>) = key_of m" for w by (simp add: key_of_def find_key_def fun_eq_iff)
  with out have m: "key_of (sv_Pool s1) = key_of m" by metis
  have found: "find_key k (sv_Pool s) \<noteq> None"
    using out pool by (auto simp: keyInScope_def TierOf_def split: option.splits)
  from found obtain a where a: "find_key k (sv_Pool s) = Some a" by blast
  let ?key = "(m_keys (sv_Pool s) ! a)\<lparr>pk_ExhaustedUntil := Some until\<rparr>"
  have "m = set_key a ?key (sv_Pool s)" using mark a by (simp add: MarkExhausted_def)
  moreover have "key_of (set_key a ?key (sv_Pool s)) k = Some ?key"
    using key_of_set_key [OF _ a, of ?key] assms(7) find_key_Some(2) [OF a] by (simp add: pool_ok_def)
  ultimately show ?thesis using m by (simp add: bench_of_def)
qed

text \<open>
  C11. A bench holds: once a report that a key is exhausted was answered with success and the
  database has it, no answer hands the key out with all clock readings before that time, whatever
  requests, reloads, flushes and failures follow, unless another report or a balance sync
  benches the key anew.
\<close>

theorem bench_holds:
  assumes "start_server getenv newGCM codec d = Some s0" "schema_ok d"
    and "covered k d" "list_all (ordinary k) as" "s = server_run as s0"
    and "ServeHTTP E r s = (s1, resp)" "env_uuid E 0 \<noteq> k" "bench_path r k" "k \<noteq> []" "rs_status resp = StatusOK"
    and "decodeBody (env_decode_until E) r = Inr body" "env_parse_rfc3339 E body = Some until"
    and "map_option kr_exhausted_until (key_row_of (sv_DB s1) k) = Some (Some (timestamptz until))"
    and "list_all (ordinary k) as2" "calm k as2 s1" "s2 = server_run as2 s1"
    and "ServeHTTP E2 r2 s2 = (s3, resp2)" "env_uuid E2 0 \<noteq> k" "\<not> bench_path r2 k" "hands_out k resp2"
  shows "\<exists>j. timestamptz until \<le> env_now E2 j"
proof -
  obtain ls0 where "key_run k s0 ls0 s"
    using server_run_run [OF start_view(1) [OF assms(1-3)] assms(4)] assms(5) by blast
  then have fine: "fine k (st s)" by (simp add: key_run_def)
  have s1: "s1 = server_do (Request E r) s" using assms(6) by simp
  have fine1: "fine k (st s1)" unfolding s1 by (rule action_fine [OF fine]) (simp add: assms(7))
  have "pool_ok (sv_Pool s)" using fine by (simp add: fine_def step_ok_def st_def)
  from exhausted_pool [OF assms(6,8-12) this] obtain key where key: "key_of (sv_Pool s1) k = Some key"
    "pk_ExhaustedUntil key = Some until" by (auto simp: bench_of_def bind_eq_Some_conv)
  have "timestamptz until \<le> until" by (simp add: timestamptz_def)
  with key assms(13) have benched: "benched_until (timestamptz until) (view k (st s1))"
    by (auto simp: benched_until_def view_def st_def)
  obtain ls2 where ls2: "key_run k s1 ls2 s2" "\<forall>t u. KBench t u \<notin> set ls2"
    using server_run_run [OF fine1 assms(14)] assms(15,16) by blast
  then have steps: "ksteps (view k (st s1)) ls2 (view k (st s2))" and fine2: "fine k (st s2)"
    by (simp_all add: key_run_def)
  note b2 = conjunct1 [OF benched_ksteps [OF steps benched ls2(2)]] fine2
  let ?a = "Request E2 r2"
  have ord: "ordinary k ?a" using assms(18) by simp
  obtain ls3 where ls3: "key_run k s2 ls3 (server_do ?a s2)"
    "length (filter (hands_out k) (answers [?a] s2)) \<le> serves_in ls3"
    "\<forall>clk. KServed clk \<in> set ls3 \<longrightarrow> (\<exists>E r. ?a = Request E r \<and> clk = (\<lambda>n. env_now E (n + 3)))"
    "\<forall>t u. KBench t u \<in> set ls3 \<longrightarrow> rebenches k ?a s2"
    using action_run [OF b2(2) ord] by blast
  have "serves_in ls3 \<noteq> 0" using ls3(2) assms(17,20) by simp
  then obtain clk where clk: "KServed clk \<in> set ls3"
    unfolding serves_in_def by (auto simp: filter_empty_conv elim!: is_serve.elims)
  have "\<forall>t u. KBench t u \<notin> set ls3" using ls3(4) assms(19) by auto
  moreover have "ksteps (view k (st s2)) ls3 (view k (st (server_do ?a s2)))"
    using ls3(1) by (simp add: key_run_def)
  ultimately obtain j where "timestamptz until \<le> clk j"
    using benched_ksteps [OF _ b2(1)] clk by blast
  with ls3(3) clk show ?thesis by auto
qed

end
