(* ===== verification/Lockout.thy ===== *)
theory Lockout
  imports Server_Runs
begin

text \<open>
  A deleted consumer stays out: that no consumer has the deleted one's token holds after the
  deletion, is kept by every later action that does not draw the same token again, and rules out
  that a request with the token is served.
\<close>

section \<open>Tokens in the tables\<close>

definition unknown :: "string \<Rightarrow> pg \<Rightarrow> bool" where
  "unknown h d \<longleftrightarrow> (\<forall>x\<in>set (pg_consumers d). c_TokenHash x \<noteq> h)"

lemma unknown_permits: "permits d' = permits d \<Longrightarrow> unknown h d' = unknown h d"
  by (simp add: unknown_def permits_def)

lemma unknown_tables: "tables d' = tables d \<Longrightarrow> unknown h d' = unknown h d"
  by (rule unknown_permits) (rule permits_tables)

lemma faultless_unknown: "faultless (unknown h)"
  by (simp add: faultless_def unknown_def)

lemmas keeps_unknown_intros = keeps_transaction [OF faultless_unknown] keeps_dbind keeps_dmap_err keeps_each
  keeps_dreturn keeps_draise

lemma keeps_unknown_stmts:
  "keeps (unknown h) (exec (insert_tier t))" "keeps (unknown h) (exec (insert_tier_feature i f))"
  "keeps (unknown h) (exec (delete_tier i))" "keeps (unknown h) (exec (insert_key j k))"
  "keeps (unknown h) (exec (insert_secret i x))" "keeps (unknown h) (exec (delete_key i))"
  "keeps (unknown h) (exec (update_keys i g))" "keeps (unknown h) (exec (insert_spend e))"
  "keeps (unknown h) (exec (select_spent i start))" "keeps (unknown h) (exec (update_spent i start a))"
  "keeps (unknown h) (exec (copy_events es))" "keeps (unknown h) (exec (delete_consumer i))"
  "c_TokenHash u \<noteq> h \<Longrightarrow> keeps (unknown h) (exec (insert_consumer u))"
  by (rule keeps_exec [OF faultless_unknown],
      auto simp: unknown_def insert_tier_def insert_tier_feature_def delete_tier_def insert_key_def
        insert_secret_def delete_key_def update_keys_def insert_spend_def select_spent_def update_spent_def
        copy_events_def delete_consumer_def insert_consumer_def Let_def split: if_splits option.splits)+

lemma keeps_unknown_checked: "keeps (unknown h) (exec (\<lambda>s. if ok then update_keys i g s else Inl err))"
  by (rule keeps_exec [OF faultless_unknown]) (auto simp: unknown_def update_keys_def split: if_splits)

lemma keeps_unknown_fields:
  "keeps (unknown h) (exec (\<lambda>s. Inr (s\<lparr>pg_tier_features := filter P (pg_tier_features s)\<rparr>, ())))"
  "keeps (unknown h) (exec (\<lambda>s. Inr (s\<lparr>pg_key_secrets := filter Q (pg_key_secrets s)\<rparr>, ())))"
  "keeps (unknown h) (exec (\<lambda>s. Inr (s\<lparr>pg_consumer_scopes := filter R (pg_consumer_scopes s)\<rparr>, ())))"
  "keeps (unknown h) (exec (\<lambda>s. Inr (s\<lparr>pg_tiers := map g (pg_tiers s)\<rparr>, ())))"
  by (rule keeps_exec [OF faultless_unknown], auto simp: unknown_def)+

lemma keeps_unknown_db_do:
  assumes "\<forall>u. c = CCreateConsumer u \<longrightarrow> c_TokenHash u \<noteq> h"
  shows "keeps (unknown h) (db_do codec c)"
proof (cases c)
  case (CUpdateKeyBudget i b)
  with CUpdateKeyBudget show ?thesis
    by (auto simp: UpdateKeyBudget_def intro!: keeps_unknown_intros keeps_unknown_checked split: prod.split)
next
  case (CAddConsumerScope i t)
  have "keeps (unknown h) (AddConsumerScope i t)"
    unfolding AddConsumerScope_def
    by (rule keeps_exec [OF faultless_unknown]) (auto simp: unknown_def split: if_splits)
  with CAddConsumerScope show ?thesis by simp
qed (use assms in \<open>auto simp: CreateTier_def UpdateTierDescription_def SetTierFeatures_def DeleteTier_def
    CreateKey_def DeleteKey_def AddUsage_def ResetUsageWindow_def SetKeyExhausted_def RecordSpend_db_def
    CreateConsumer_def DeleteConsumer_def RecordUsageEvents_def insertTierFeatures_def ignore_rows_def
    drop_result_def Let_def
    intro!: keeps_unknown_intros keeps_unknown_stmts keeps_unknown_checked keeps_unknown_fields split: option.split\<close>)

section \<open>Actions\<close>

text \<open>A request that could give a new consumer the token with this hash.\<close>

fun mints :: "string \<Rightarrow> action \<Rightarrow> bool" where
  "mints h (Request E r) = (fresh_hash E = Some h)"
| "mints h _ = False"

lemma mstep_unknown:
  assumes "mstep (m, d) l (m', d')" "\<forall>u. l = Write (CCreateConsumer u) \<longrightarrow> c_TokenHash u \<noteq> h" "unknown h d"
  shows "unknown h d'"
  using assms(1)
proof (cases rule: mstep_elim)
  case (reload codec err)
  then have "tables d' = tables d" using reload_tables by blast
  from unknown_tables [OF this] assms(3) show ?thesis by simp
next
  case (bench codec i t)
  have "permits d' = permits d"
    using permits_MarkExhausted [of codec i t m d] bench by simp
  from unknown_permits [OF this] assms(3) show ?thesis by simp
next
  case (spend codec now e r)
  then have "permits d' = permits d" using permits_spend by blast
  from unknown_permits [OF this] assms(3) show ?thesis by simp
next
  case (flush order w)
  then have "permits d' = permits d" using keeps_Flush [OF permits_key_calls(2-4) refl] by blast
  from unknown_permits [OF this] assms(3) show ?thesis by simp
next
  case (db_call codec c r)
  with keeps_unknown_db_do [of c h codec] assms(2,3) show ?thesis by (auto simp: keeps_def)
next
  case (weather now)
  then have "tables d' = tables d\<lparr>pg_now := now\<rparr>" by simp
  from arg_cong [OF this, of pg_consumers] have "pg_consumers d' = pg_consumers d" by (simp add: tables_def)
  with assms(3) show ?thesis by (simp add: unknown_def)
qed (use assms(3) in simp_all)

lemma msteps_unknown:
  "msteps x ls y \<Longrightarrow> \<forall>l\<in>set ls. \<forall>u. l = Write (CCreateConsumer u) \<longrightarrow> c_TokenHash u \<noteq> h \<Longrightarrow>
   unknown h (snd x) \<Longrightarrow> unknown h (snd y)"
  by (induction rule: msteps.induct) (auto dest: mstep_unknown)

lemma server_do_unknown:
  assumes "unknown h (sv_DB s)" "\<not> mints h a"
  shows "unknown h (sv_DB (server_do a s))"
proof (cases a)
  case (Request E r)
  obtain s' resp where "ServeHTTP E r s = (s', resp)" by fastforce
  from ServeHTTP_steps [OF this] obtain ls where ls: "msteps (st s) ls (st s')" "\<forall>l\<in>set ls. acts E r l"
    by (auto simp: request_steps_def)
  have "\<forall>l\<in>set ls. \<forall>u. l = Write (CCreateConsumer u) \<longrightarrow> c_TokenHash u \<noteq> h"
    using ls(2) assms(2) Request by fastforce
  from msteps_unknown [OF ls(1) this] assms(1) \<open>ServeHTTP E r s = (s', resp)\<close> show ?thesis
    by (simp add: Request st_def)
next
  case (FlushTick order)
  obtain w d where f: "Flush pg_writer order (m_usage (sv_Pool s)) (sv_DB s) = (w, d)" by fastforce
  then have "permits d = permits (sv_DB s)" using keeps_Flush [OF permits_key_calls(2-4) refl f] by blast
  from unknown_permits [OF this] assms(1) f show ?thesis by (simp add: FlushTick)
next
  case (SyncTick codec W)
  obtain n st x where x: "sync_sources (mgr_pool codec) balancePeriod W Sources 0 (sv_Pool s, sv_DB s) = (n, st, x)"
    by (metis prod.collapse)
  then have "permits (snd x) = permits (sv_DB s)" using permits_sync_sources [OF x] by simp
  from unknown_permits [OF this] assms(1) x show ?thesis by (cases x) (simp add: SyncTick sync_def)
qed (use assms(1) in \<open>simp add: unknown_def\<close>)

lemma server_run_unknown:
  "unknown h (sv_DB s) \<Longrightarrow> list_all (\<lambda>a. \<not> mints h a) as \<Longrightarrow> unknown h (sv_DB (server_run as s))"
  unfolding server_run_def by (induction as arbitrary: s) (simp_all add: server_do_unknown)

section \<open>The lockout\<close>

text \<open>
  C7. Deleting a consumer takes effect on its next request and for good: once the deletion has been
  answered with success, and whatever requests, flushes, syncs and failures follow, a request with
  that consumer's token is never answered with a value, and a draw is answered 401, or 500 when the
  tables cannot be read. The one assumption is that no later request draws random bytes that give a
  new consumer the same token. Here requests follow one another; a lookup in flight is C8.
\<close>

theorem deleted_consumer_is_locked_out:
  assumes "start_server getenv newGCM codec d0 = Some s0" "schema_ok d0" "s = server_run as s0"
    and "c \<in> set (pg_consumers (sv_DB s))"
    and "rq_method r = DELETE" "rq_path r = [''admin'', ''consumers'', c_ID c]" "c_ID c \<noteq> []"
    and "ServeHTTP E r s = (s1, resp)" "rs_status resp = StatusOK"
    and "list_all (\<lambda>a. \<not> mints (c_TokenHash c) a) as2" "s2 = server_run as2 s1"
    and "bearerToken r2 = Some token" "token \<noteq> sv_AdminToken s2" "hashToken E2 token = c_TokenHash c"
    and "ServeHTTP E2 r2 s2 = (s3, resp2)"
  shows "(\<forall>d. rs_body resp2 \<noteq> DrawnKey d) \<and> (rq_method r2 = GET \<and> rq_path r2 = [''key''] \<longrightarrow>
    rs_status resp2 \<in> {StatusUnauthorized, StatusInternalServerError})"
proof -
  have sane: "sane s" and coh: "coherent s" using leaves_start [OF assms(1,2)] assms(3) by auto
  have "leaves s s1" using leaves_ServeHTTP [of s E r] assms(8) by simp
  then have "leaves s s2" using leaves_trans leaves_server_run assms(11) by blast
  then have coh2: "coherent s2" using sane coh by (simp add: leaves_def)
  have "unknown (c_TokenHash c) (sv_DB s1)"
    using deletion_leaves [OF sane assms(4-9)] by (simp add: unknown_def)
  then have gone: "\<And>x. x \<in> set (pg_consumers (sv_DB s2)) \<Longrightarrow> c_TokenHash x \<noteq> hashToken E2 token"
    using server_run_unknown assms(10,11,14) by (auto simp: unknown_def)
  note none = no_consumer_no_caller [OF assms(12,13) gone]
  have no: "rs_body resp2 \<noteq> DrawnKey k" for k
    using drawn_ServeHTTP [OF assms(15) _ coh2, of k] none(2) by (auto simp: drawn_def)
  have "rs_status resp2 \<in> {StatusUnauthorized, StatusInternalServerError}"
    if "rq_method r2 = GET" "rq_path r2 = [''key'']"
  proof -
    let ?r = "r2\<lparr>rq_values := []\<rparr>"
    have "authorized E2 ?r s2 = None" using none(1) by (simp add: authorized_def bearerToken_def)
    moreover obtain s4 res where c: "resolveKeyCaller E2 ?r s2 = (s4, res)" by fastforce
    ultimately obtain e where "res = Inl e" "rs_status e \<in> {StatusUnauthorized, StatusInternalServerError}"
      using resolveKeyCaller_cases(3,4) [OF c coh2] by (cases res) auto
    moreover have "GetKey E2 ?r s2 = (s3, resp2)"
      using assms(15) get_key_route [OF that] by (simp add: ServeHTTP_def open_route_def)
    ultimately show ?thesis using c by (simp add: GetKey_def)
  qed
  with no show ?thesis by blast
qed

end
