(* ===== verification/Tier_Updates.thy ===== *)
theory Tier_Updates
  imports Responses
begin

text \<open>
  \<open>PATCH /admin/tiers\<close> from the request to the limits of the pool: two writes, then a reload.
\<close>

section \<open>The tables after the two writes\<close>

lemma each_insert_tier_feature:
  "each (\<lambda>f. exec (insert_tier_feature i f)) fs s = (s', Inr ()) \<Longrightarrow>
   tables s' = (tables s)\<lparr>pg_tier_features := pg_tier_features s @ map (\<lambda>f. f\<lparr>tf_TierID := i\<rparr>) fs\<rparr>"
proof (induction fs arbitrary: s)
  case (Cons f fs)
  obtain s1 b where b: "exec (insert_tier_feature i f) s = (s1, b)" by fastforce
  from b show ?case
  proof (cases rule: exec_cases)
    case (failed err fs)
    with Cons.prems b show ?thesis by (simp add: dbind_def)
  next
    case (finished faults a)
    with Cons.prems b have "each (\<lambda>f. exec (insert_tier_feature i f)) fs s1 = (s', Inr ())"
      by (simp add: dbind_def)
    from Cons.IH [OF this] finished(1) show ?thesis
      by (auto simp: insert_tier_feature_def tables_def split: if_splits)
  qed
qed (simp add: dreturn_def tables_def)

lemma SetTierFeatures_tables:
  assumes "SetTierFeatures i fs s = (s', Inr ())"
  shows "tables s' = (tables s)\<lparr>pg_tier_features :=
    filter (\<lambda>f. tf_TierID f \<noteq> i) (pg_tier_features s) @ map (\<lambda>f. f\<lparr>tf_TierID := i\<rparr>) fs\<rparr>"
  using assms unfolding SetTierFeatures_def
proof (cases rule: transaction_cases)
  case (finished faults s1 a faults')
  let ?stmt = "\<lambda>s. Inr (s\<lparr>pg_tier_features := filter (\<lambda>f. tf_TierID f \<noteq> i) (pg_tier_features s)\<rparr>, ())"
  obtain s2 b where b: "exec ?stmt (s\<lparr>pg_faults := faults\<rparr>) = (s2, b)" by fastforce
  then show ?thesis
  proof (cases rule: exec_cases)
    case (failed err fs2)
    with finished(1) b show ?thesis by (simp add: dbind_def)
  next
    case del: (finished fs2 c)
    with finished(1) b have "each (\<lambda>f. exec (insert_tier_feature i f)) fs s2 = (s1, Inr ())"
      by (simp add: dbind_def insertTierFeatures_def)
    from each_insert_tier_feature [OF this] del(1) finished(2) show ?thesis
      by (auto simp: tables_def)
  qed
qed simp

lemma UpdateTierDescription_tables:
  assumes "UpdateTierDescription i desc s = (s', Inr u)"
  shows "tables s' = (tables s)\<lparr>pg_tiers := map (\<lambda>t. if tier_ID t = i
    then t\<lparr>tier_Description := desc\<rparr> else t) (pg_tiers s)\<rparr>"
  using assms unfolding UpdateTierDescription_def by (auto elim!: exec_cases simp: tables_def)

section \<open>A database that answers\<close>

text \<open>An operation after which no failure is to come when none was before.\<close>

definition unfailing :: "'a dbop \<Rightarrow> bool" where
  "unfailing op \<longleftrightarrow> keeps (\<lambda>s. pg_faults s = []) op"

lemma unfailingD: "unfailing op \<Longrightarrow> op s = (s', r) \<Longrightarrow> pg_faults s = [] \<Longrightarrow> pg_faults s' = []"
  unfolding unfailing_def keeps_def by blast

lemma unfailing_exec:
  "(\<And>s s' a. stmt s = Inr (s', a) \<Longrightarrow> pg_faults s' = pg_faults s) \<Longrightarrow> unfailing (exec stmt)"
  unfolding unfailing_def keeps_def
proof (intro allI impI)
  fix s s' r
  assume stmt: "\<And>s s' a. stmt s = Inr (s', a) \<Longrightarrow> pg_faults s' = pg_faults s"
    and s: "pg_faults s = []" "exec stmt s = (s', r)"
  show "pg_faults s' = []"
  proof (cases "stmt s")
    case (Inl err)
    then have "exec stmt s = (s, Inl err)" by (simp add: exec_ok [OF s(1)])
    with s show ?thesis by simp
  next
    case (Inr x)
    obtain s2 a where x: "x = (s2, a)" by (cases x)
    have "exec stmt s = (s2, Inr a)" by (simp add: exec_ok [OF s(1)] Inr x)
    moreover have "pg_faults s2 = pg_faults s" by (rule stmt [of s s2 a]) (simp add: Inr x)
    ultimately show ?thesis using s by simp
  qed
qed

lemma unfailing_transaction:
  assumes "unfailing body"
  shows "unfailing (transaction body)"
  unfolding unfailing_def keeps_def
proof (intro allI impI)
  fix s s' r
  assume s: "pg_faults s = []" "transaction body s = (s', r)"
  obtain s1 b where b: "body s = (s1, b)" by fastforce
  have "pg_faults s1 = []" by (rule unfailingD [OF assms b s(1)])
  with s b show "pg_faults s' = []"
    by (cases b) (auto simp: transaction_def call_ok rollback_def)
qed

lemma unfailing_tier_calls:
  "unfailing (SetTierFeatures i fs)" "unfailing (UpdateTierDescription i desc)" "unfailing (GetTierByName n)"
proof -
  have "unfailing (exec (insert_tier_feature i f))" for f
    by (rule unfailing_exec) (auto simp: insert_tier_feature_def split: if_splits)
  moreover have "unfailing (exec (\<lambda>s. Inr (s\<lparr>pg_tier_features := filter P (pg_tier_features s)\<rparr>, ())))" for P
    by (rule unfailing_exec) auto
  ultimately show "unfailing (SetTierFeatures i fs)"
    unfolding SetTierFeatures_def insertTierFeatures_def
    by (intro unfailing_transaction) (auto simp: unfailing_def intro!: keeps_dbind keeps_each)
  show "unfailing (UpdateTierDescription i desc)" "unfailing (GetTierByName n)"
    unfolding UpdateTierDescription_def GetTierByName_def by (rule unfailing_exec; auto)+
qed

lemma keys_of_rows_read:
  "\<forall>r\<in>set rs. \<not> isl (key_of_row codec r) \<Longrightarrow> \<exists>ks. keys_of_rows codec rs = Inr ks"
proof (induction rs)
  case (Cons r rs)
  then obtain k ks where "key_of_row codec r = Inr k" "keys_of_rows codec rs = Inr ks"
    by (cases "key_of_row codec r") auto
  then show ?case by simp
qed simp

lemma reload_answered:
  assumes "pg_faults s = []" "\<forall>r\<in>set (pg_keys s). \<not> isl (key_of_row codec r)"
    and "ReloadKeys (pg_pool codec) m s = (m', s', err)"
  shows "err = None"
proof -
  obtain ks where "keys_of_rows codec (sort_key kr_created_at (pg_keys s)) = Inr ks"
    using keys_of_rows_read [of "sort_key kr_created_at (pg_keys s)" codec] assms(2) by auto
  then show ?thesis
    using assms(1,3) by (simp add: ReloadKeys_def pg_pool_def GetAllKeys_def dbind_def dreturn_def exec_ok
        TierFeaturesByTier_def KeySecretsByKey_def)
qed

section \<open>The limits a request gives\<close>

definition limit_given :: "tierBody \<Rightarrow> string \<Rightarrow> FeatureLimit option" where
  "limit_given body f = map_option (\<lambda>l. \<lparr>fl_RateLimit = fb_RateLimit l, fl_WindowSeconds =
     (if fb_WindowSeconds l \<le> 0 then defaultWindowSeconds else fb_WindowSeconds l)\<rparr>) (mget (tb_Features body) f)"

lemma limit_in_given:
  assumes "fst (tierFeatures i (tb_Features body)) = fs"
  shows "limit_in (filter (\<lambda>f. tf_TierID f \<noteq> i) old @ fs) i f = limit_given body f"
proof -
  have "find (\<lambda>x. tf_TierID x = i \<and> tf_Feature x = f) (filter (\<lambda>f. tf_TierID f \<noteq> i) old @ xs)
      = find (\<lambda>x. tf_TierID x = i \<and> tf_Feature x = f) xs" for xs
    by (induction old) auto
  moreover have "map_option (\<lambda>x. \<lparr>fl_RateLimit = tf_RateLimit x, fl_WindowSeconds = tf_WindowSeconds x\<rparr>)
      (find (\<lambda>x. tf_TierID x = i \<and> tf_Feature x = f) (fst (tierFeatures i xs)))
      = map_option (\<lambda>l. \<lparr>fl_RateLimit = fb_RateLimit l, fl_WindowSeconds =
          (if fb_WindowSeconds l \<le> 0 then defaultWindowSeconds else fb_WindowSeconds l)\<rparr>) (mget xs f)" for xs
    by (induction xs) (auto simp: tierFeatures_def Let_def)
  ultimately show ?thesis using assms by (auto simp: limit_in_def limit_given_def)
qed

lemma tierNamed_found:
  assumes "tierNamed n s = (s', Inr tier)"
  shows "tier \<in> set (pg_tiers (sv_DB s)) \<and> tier_Name tier = n \<and> sv_Pool s' = sv_Pool s
    \<and> (pg_faults (sv_DB s) = [] \<longrightarrow> pg_faults (sv_DB s') = [])"
proof -
  obtain d x where g: "GetTierByName n (sv_DB s) = (d, x)" by fastforce
  with assms have x: "x = Inr (Some tier)" "s' = s\<lparr>sv_DB := d\<rparr>"
    by (auto simp: tierNamed_def split: sum.splits option.splits)
  have "pg_faults (sv_DB s) = [] \<longrightarrow> pg_faults d = []"
    using unfailingD [OF unfailing_tier_calls(3) g] by blast
  moreover have "find (\<lambda>t. tier_Name t = n) (pg_tiers (sv_DB s)) = Some tier"
    using g unfolding GetTierByName_def x(1) by (cases rule: exec_cases) auto
  ultimately show ?thesis using find_found x(2) by fastforce
qed

definition described :: "tierBody \<Rightarrow> Tier \<Rightarrow> Tier" where
  "described body t = (case tb_Description body of None \<Rightarrow> t | Some x \<Rightarrow> t\<lparr>tier_Description := x\<rparr>)"

text \<open>What a successful update has done, one call after the other.\<close>

lemma UpdateTierFeatures_calls:
  assumes "UpdateTierFeatures E r s = (s', resp)" "rs_status resp = StatusOK"
  obtains body tier s1 d1 d2 where "decodeTierBody E r = Inr body" "tierNamed (tb_Name body) s = (s1, Inr tier)"
    "tables d1 = (tables (sv_DB s1))\<lparr>pg_tiers :=
       map (\<lambda>t. if tier_ID t = tier_ID tier then described body t else t) (pg_tiers (sv_DB s1))\<rparr>"
    "pg_faults (sv_DB s1) = [] \<longrightarrow> pg_faults d1 = []" "schema_ok (sv_DB s1) \<longrightarrow> schema_ok d1"
    "SetTierFeatures (tier_ID tier) (fst (tierFeatures (tier_ID tier) (tb_Features body))) d1 = (d2, Inr ())"
    "s' = reload E (s1\<lparr>sv_DB := d2\<rparr>)"
proof -
  obtain body where body: "decodeTierBody E r = Inr body"
    using assms by (cases "decodeTierBody E r") (auto simp: UpdateTierFeatures_def decodeTierBody_def decodeBody_def
        ebind_Inl_iff ok_statuses split: sum.split_asm option.split_asm if_split_asm)
  obtain s1 x where t: "tierNamed (tb_Name body) s = (s1, x)" by fastforce
  obtain tier where tier: "x = Inr tier"
    using assms body t by (cases x) (auto simp: UpdateTierFeatures_def tierNamed_def ok_statuses
        split: prod.splits sum.splits option.splits)
  let ?tiers = "map (\<lambda>t. if tier_ID t = tier_ID tier then described body t else t) (pg_tiers (sv_DB s1))"
  obtain d1 where d1: "tables d1 = (tables (sv_DB s1))\<lparr>pg_tiers := ?tiers\<rparr>"
    "pg_faults (sv_DB s1) = [] \<longrightarrow> pg_faults d1 = []" "schema_ok (sv_DB s1) \<longrightarrow> schema_ok d1"
    and rest: "\<And>d2 x. SetTierFeatures (tier_ID tier) (fst (tierFeatures (tier_ID tier) (tb_Features body))) d1 = (d2, x)
      \<Longrightarrow> x = Inr () \<and> s' = reload E (s1\<lparr>sv_DB := d2\<rparr>)"
  proof (cases "tb_Description body")
    case None
    have "(tables d)\<lparr>pg_tiers := pg_tiers d\<rparr> = tables d" for d by (cases d) (simp add: tables_def)
    moreover have "described body = (\<lambda>t. t)" using None by (simp add: described_def fun_eq_iff)
    then have "?tiers = pg_tiers (sv_DB s1)" by (simp cong: if_cong)
    ultimately have "tables (sv_DB s1) = (tables (sv_DB s1))\<lparr>pg_tiers := ?tiers\<rparr>" by simp
    then show ?thesis
      using assms body t tier None
      by (intro that [of "sv_DB s1"])
        (auto simp: UpdateTierFeatures_def ok_statuses split: prod.splits sum.splits)
  next
    case (Some desc)
    obtain d1 y where c: "UpdateTierDescription (tier_ID tier) desc (sv_DB s1) = (d1, y)" by fastforce
    then obtain u where y: "y = Inr u"
      using assms body t tier Some by (cases y) (auto simp: UpdateTierFeatures_def ok_statuses)
    have "(tables (sv_DB s1))\<lparr>pg_tiers := ?tiers\<rparr> = tables d1"
      using UpdateTierDescription_tables [OF c [unfolded y]] Some by (simp add: described_def cong: if_cong)
    moreover have "pg_faults (sv_DB s1) = [] \<longrightarrow> pg_faults d1 = []"
      using unfailingD [OF unfailing_tier_calls(2) c] by blast
    moreover have "schema_ok (sv_DB s1) \<longrightarrow> schema_ok d1"
      using schema_tiers(4) c unfolding keeps_def by blast
    ultimately show ?thesis
      using assms body t tier Some c y
      by (intro that [of d1]) (auto simp: UpdateTierFeatures_def ok_statuses split: prod.splits sum.splits)
  qed
  obtain d2 x where set: "SetTierFeatures (tier_ID tier) (fst (tierFeatures (tier_ID tier) (tb_Features body))) d1 = (d2, x)"
    by fastforce
  then show ?thesis
    using rest [OF set] by (intro that [OF body t [unfolded tier] d1]) simp_all
qed

text \<open>
  C28. An update of a tier takes effect: when \<open>PATCH /admin/tiers\<close> is answered 200, the tier has
  exactly the features of the request, a window that is not positive replaced by the default, and
  the given description, if any; no other row of any table has changed. And when the database
  answers, every key of the tier is in the pool with exactly these limits, its counters unchanged:
  the next draw is held to them.
\<close>

theorem tier_update_takes_effect:
  assumes "UpdateTierFeatures E r s = (s', resp)" "rs_status resp = StatusOK" "sane s"
  shows "\<exists>body tier. decodeTierBody E r = Inr body \<and> tier \<in> set (pg_tiers (sv_DB s))
    \<and> tier_Name tier = tb_Name body
    \<and> tables (sv_DB s') = (tables (sv_DB s))\<lparr>
        pg_tiers := map (\<lambda>t. if tier_ID t = tier_ID tier then described body t else t) (pg_tiers (sv_DB s)),
        pg_tier_features := filter (\<lambda>f. tf_TierID f \<noteq> tier_ID tier) (pg_tier_features (sv_DB s))
          @ fst (tierFeatures (tier_ID tier) (tb_Features body))\<rparr>
    \<and> (pg_faults (sv_DB s) = [] \<and> (\<forall>row\<in>set (pg_keys (sv_DB s)). \<not> isl (key_of_row (env_codec E) row)) \<longrightarrow>
        (\<forall>row\<in>set (pg_keys (sv_DB s)). kr_tier_id row = tier_ID tier \<longrightarrow>
          (\<exists>k\<in>set (m_keys (sv_Pool s')). pk_ID k = kr_id row \<and> counters_from (sv_Pool s) row k
             \<and> (\<forall>f. mget (pk_Features k) f = limit_given body f))))"
  using assms(1,2)
proof (cases rule: UpdateTierFeatures_calls)
  case c: (1 body tier s1 d1 d2)
  let ?fs = "fst (tierFeatures (tier_ID tier) (tb_Features body))"
  let ?all = "filter (\<lambda>f. tf_TierID f \<noteq> tier_ID tier) (pg_tier_features (sv_DB s)) @ ?fs"
  note s1 = tierNamed_tables [OF c(2)]
  have found: "tier \<in> set (pg_tiers (sv_DB s))" "tier_Name tier = tb_Name body"
    and pool: "sv_Pool s1 = sv_Pool s" and faults: "pg_faults (sv_DB s) = [] \<Longrightarrow> pg_faults (sv_DB s1) = []"
    using tierNamed_found [OF c(2)] by blast+
  have "map (\<lambda>f. f\<lparr>tf_TierID := tier_ID tier\<rparr>) ?fs = ?fs" by (auto simp: tierFeatures_def Let_def)
  note set = SetTierFeatures_tables [OF c(6), unfolded this]
  let ?tiers = "map (\<lambda>t. if tier_ID t = tier_ID tier then described body t else t) (pg_tiers (sv_DB s))"
  have d1: "tables d1 = (tables (sv_DB s))\<lparr>pg_tiers := ?tiers\<rparr>" using c(3) s1 tables_fields(1) [OF s1] by simp
  have "pg_tier_features d1 = pg_tier_features (sv_DB s)"
    using arg_cong [OF d1, of pg_tier_features] by (simp add: tables_def)
  then have d2: "tables d2 = (tables (sv_DB s))\<lparr>pg_tiers := ?tiers, pg_tier_features := ?all\<rparr>"
    using set d1 by simp
  have ok: "pool_ok (sv_Pool s)" "schema_ok d2"
  proof -
    have "schema_ok d1" using c(4,5) sane_tierNamed [OF c(2) assms(3)] by (simp add: sane_def)
    then show "schema_ok d2" using schema_tiers(2) c(6) unfolding keeps_def by blast
    show "pool_ok (sv_Pool s)" using assms(3) by (simp add: sane_def)
  qed
  then have "sane (s1\<lparr>sv_DB := d2\<rparr>)" by (simp add: sane_def pool)
  with c(7) have db: "tables (sv_DB s') = tables d2" using reload_keeps(3) by fastforce
  have keys: "pg_keys d2 = pg_keys (sv_DB s)" "pg_tier_features d2 = ?all"
    using arg_cong [OF d2, of pg_keys] arg_cong [OF d2, of pg_tier_features] by (simp_all add: tables_def)
  have loaded: "\<exists>k\<in>set (m_keys (sv_Pool s')). pk_ID k = kr_id row \<and> counters_from (sv_Pool s) row k
      \<and> (\<forall>f. mget (pk_Features k) f = limit_given body f)"
    if calm: "pg_faults (sv_DB s) = []" "\<forall>row\<in>set (pg_keys (sv_DB s)). \<not> isl (key_of_row (env_codec E) row)"
      and row: "row \<in> set (pg_keys (sv_DB s))" "kr_tier_id row = tier_ID tier" for row
  proof -
    obtain m d err where r: "ReloadKeys (pg_pool (env_codec E)) (sv_Pool s) d2 = (m, d, err)" by (metis prod_cases3)
    have "pg_faults d2 = []"
      using unfailingD [OF unfailing_tier_calls(1) c(6) c(4) [rule_format, OF faults [OF calm(1)]]] .
    then have "err = None" using reload_answered [OF _ _ r] calm(2) keys by simp
    with reload_mirrors(1) [OF ok(2,1)] r have all: "list_all2 (\<lambda>r k. mirrors (env_codec E) (m_sealer (sv_Pool s)) d2 r k
        \<and> counters_from (sv_Pool s) r k) (filter (\<lambda>r. kr_tier_id r \<in> tf_TierID ` set (pg_tier_features d2))
        (sort_key kr_created_at (pg_keys d2))) (m_keys m)" by blast
    have "?fs \<noteq> []" using c(1) by (auto simp: decodeTierBody_def tierFeatures_def Let_def ebind_Inr_iff split: if_splits)
    then obtain x where "x \<in> set ?fs" by (cases ?fs) auto
    then have "tier_ID tier \<in> tf_TierID ` set (pg_tier_features d2)"
      by (force simp: keys tierFeatures_def Let_def)
    with row keys have "row \<in> set (filter (\<lambda>r. kr_tier_id r \<in> tf_TierID ` set (pg_tier_features d2))
        (sort_key kr_created_at (pg_keys d2)))" by simp
    then obtain k where k: "k \<in> set (m_keys m)" "mirrors (env_codec E) (m_sealer (sv_Pool s)) d2 row k"
      "counters_from (sv_Pool s) row k"
      using all unfolding list_all2_conv_all_nth in_set_conv_nth by metis
    have "mget (pk_Features k) f = limit_given body f" for f
      using k(2) row(2) limit_in_given [OF refl] by (simp add: mirrors_def keys)
    moreover have "sv_Pool s' = m" using c(7) r by (simp add: reload_def pool)
    ultimately show ?thesis using k by (intro bexI [of _ k]) (simp_all add: mirrors_def)
  qed
  show ?thesis
    by (intro exI [of _ body] exI [of _ tier] conjI impI ballI)
      (use c(1) found db d2 loaded in simp_all)
qed

end
