(* ===== verification/Migrations.thy ===== *)
theory Migrations
  imports Db_Types
begin

text \<open>
  \<open>internal/db/migrations.go\<close>: reading the migration files and executing the pending ones, each
  in a transaction with the row that records it. What a script does to the database is a
  parameter \<open>run_sql\<close>; the database is its tables of type \<open>'d\<close>, the table \<open>schema_migrations\<close>
  and the outcomes of the calls to come, \<open>Some\<close> message for a call that fails.
\<close>

section \<open>Migration files\<close>

definition migrationSuffix :: string where "migrationSuffix = ''.sql''"

record migration =
  mg_version :: int
  mg_name :: string
  mg_sql :: string

record dirent =
  de_Name :: string
  de_IsDir :: bool
  de_content :: "string option"  \<comment> \<open>\<open>None\<close> when reading the file fails\<close>

datatype migerr = NoDirectory | BadFilename string | NoFile string
  | CreateTableFailed string | AppliedFailed string | MigrationFailed int string string

definition parseMigrationName :: "string \<Rightarrow> migerr + (int \<times> string)" where
  "parseMigrationName filename =
     (case cutAt CHR ''_'' (trimSuffix filename migrationSuffix) of
        (prefix, name, ok) \<Rightarrow>
          (case Atoi prefix of
             None \<Rightarrow> Inl (BadFilename filename)
           | Some version \<Rightarrow>
               (if \<not> ok \<or> name = [] then Inl (BadFilename filename) else Inr (version, name))))"

fun read_entries :: "dirent list \<Rightarrow> migerr + migration list" where
  "read_entries [] = Inr []"
| "read_entries (entry # rest) =
     (if de_IsDir entry \<or> \<not> hasSuffix (de_Name entry) migrationSuffix then read_entries rest
      else ebind (parseMigrationName (de_Name entry)) (\<lambda>(version, name).
        case de_content entry of
          None \<Rightarrow> Inl (NoFile (de_Name entry))
        | Some sql \<Rightarrow> ebind (read_entries rest) (\<lambda>ms.
            Inr (\<lparr>mg_version = version, mg_name = name, mg_sql = sql\<rparr> # ms))))"

text \<open>Files of equal version are in an order of Go's choice; the model keeps the directory's.\<close>

definition loadMigrations :: "dirent list option \<Rightarrow> migerr + migration list" where
  "loadMigrations dir =
     (case dir of
        None \<Rightarrow> Inl NoDirectory
      | Some entries \<Rightarrow> ebind (read_entries entries) (\<lambda>ms. Inr (sort_key mg_version ms)))"

section \<open>Running them\<close>

record 'd migdb =
  md_tables :: 'd
  md_applied :: "(int \<times> string) list option"  \<comment> \<open>\<open>None\<close> before the table exists\<close>
  md_faults :: "string option list"

type_synonym 'd script = "string \<Rightarrow> 'd \<Rightarrow> string + 'd"

definition mcall :: "'d migdb \<Rightarrow> 'd migdb \<times> string option" where
  "mcall s = (s\<lparr>md_faults := tl (md_faults s)\<rparr>,
     (case md_faults s of Some msg # _ \<Rightarrow> Some msg | _ \<Rightarrow> None))"

definition applied_rows :: "'d migdb \<Rightarrow> (int \<times> string) list" where
  "applied_rows s = (case md_applied s of None \<Rightarrow> [] | Some rows \<Rightarrow> rows)"

text \<open>The version is the primary key and an INTEGER.\<close>

definition record_migration :: "migration \<Rightarrow> 'd migdb \<Rightarrow> string + 'd migdb" where
  "record_migration m s =
     (if \<not> int32 (mg_version m) then Inl ''out of range''
      else if mg_version m \<in> fst ` set (applied_rows s) then Inl ''duplicate key''
      else Inr (s\<lparr>md_applied := Some (applied_rows s @ [(mg_version m, mg_name m)])\<rparr>))"

text \<open>
  \<open>Begin\<close>, the script, the record, \<open>Commit\<close>; whatever fails, the deferred rollback leaves the
  tables as they were before.
\<close>

definition undo :: "'d migdb \<Rightarrow> 'd migdb \<Rightarrow> 'd migdb" where
  "undo s0 s = s0\<lparr>md_faults := md_faults s\<rparr>"

definition executeMigration :: "'d script \<Rightarrow> migration \<Rightarrow> 'd migdb \<Rightarrow> 'd migdb \<times> string option" where
  "executeMigration run_sql m s =
     (case mcall s of
        (s0, Some err) \<Rightarrow> (s0, Some err)
      | (s0, None) \<Rightarrow>
          (case mcall s0 of
             (s1, Some err) \<Rightarrow> (undo s0 s1, Some err)
           | (s1, None) \<Rightarrow>
               (case run_sql (mg_sql m) (md_tables s1) of
                  Inl err \<Rightarrow> (undo s0 s1, Some err)
                | Inr d \<Rightarrow>
                    (case mcall (s1\<lparr>md_tables := d\<rparr>) of
                       (s2, Some err) \<Rightarrow> (undo s0 s2, Some err)
                     | (s2, None) \<Rightarrow>
                         (case record_migration m s2 of
                            Inl err \<Rightarrow> (undo s0 s2, Some err)
                          | Inr s3 \<Rightarrow>
                              (case mcall s3 of
                                 (s4, Some err) \<Rightarrow> (undo s0 s4, Some err)
                               | (s4, None) \<Rightarrow> (s4, None)))))))"

fun run_pending :: "'d script \<Rightarrow> int list \<Rightarrow> migration list \<Rightarrow> 'd migdb \<Rightarrow> 'd migdb \<times> migerr option" where
  "run_pending run_sql applied [] s = (s, None)"
| "run_pending run_sql applied (m # ms) s =
     (if mg_version m \<in> set applied then run_pending run_sql applied ms s
      else case executeMigration run_sql m s of
             (s, Some err) \<Rightarrow> (s, Some (MigrationFailed (mg_version m) (mg_name m) err))
           | (s, None) \<Rightarrow> run_pending run_sql applied ms s)"

definition RunMigrations :: "'d script \<Rightarrow> dirent list option \<Rightarrow> 'd migdb \<Rightarrow> 'd migdb \<times> migerr option" where
  "RunMigrations run_sql dir s =
     (case mcall s of
        (s, Some err) \<Rightarrow> (s, Some (CreateTableFailed err))
      | (s, None) \<Rightarrow>
          (let s = s\<lparr>md_applied := Some (applied_rows s)\<rparr> in
           case loadMigrations dir of
             Inl err \<Rightarrow> (s, Some err)
           | Inr migrations \<Rightarrow>
               (case mcall s of
                  (s, Some err) \<Rightarrow> (s, Some (AppliedFailed err))
                | (s, None) \<Rightarrow> run_pending run_sql (map fst (applied_rows s)) migrations s)))"

section \<open>The scripts in order\<close>

text \<open>Executing scripts one after the other, without a runner: the specification.\<close>

fun scripts :: "'d script \<Rightarrow> migration list \<Rightarrow> 'd \<Rightarrow> string + 'd" where
  "scripts run_sql [] d = Inr d"
| "scripts run_sql (m # ms) d = ebind (run_sql (mg_sql m) d) (scripts run_sql ms)"

lemma scripts_append:
  "scripts run_sql (ms @ ns) d = ebind (scripts run_sql ms d) (scripts run_sql ns)"
proof (induction ms arbitrary: d)
  case (Cons m ms)
  then show ?case by (cases "run_sql (mg_sql m) d") simp_all
qed simp

definition pending_of :: "int list \<Rightarrow> migration list \<Rightarrow> migration list" where
  "pending_of applied ms = filter (\<lambda>m. mg_version m \<notin> set applied) ms"

definition rows_for :: "migration list \<Rightarrow> (int \<times> string) list" where
  "rows_for ms = map (\<lambda>m. (mg_version m, mg_name m)) ms"

lemma executeMigration_cases:
  assumes "executeMigration run_sql m s = (s', err)"
  shows "(err \<noteq> None \<and> md_tables s' = md_tables s \<and> md_applied s' = md_applied s)
    \<or> (err = None \<and> run_sql (mg_sql m) (md_tables s) = Inr (md_tables s')
       \<and> applied_rows s' = applied_rows s @ [(mg_version m, mg_name m)]
       \<and> md_applied s' \<noteq> None)"
  using assms
  by (auto simp: executeMigration_def mcall_def undo_def record_migration_def applied_rows_def
      split: list.splits option.splits sum.splits if_splits)

text \<open>A run executes a prefix of the pending migrations, all of them when it succeeds.\<close>

lemma run_pending_cases:
  assumes "run_pending run_sql applied ms s = (s', err)" "md_applied s \<noteq> None"
  shows "\<exists>past rest. pending_of applied ms = past @ rest
    \<and> scripts run_sql past (md_tables s) = Inr (md_tables s')
    \<and> applied_rows s' = applied_rows s @ rows_for past \<and> md_applied s' \<noteq> None
    \<and> (err = None \<longleftrightarrow> rest = [])"
  using assms
proof (induction ms arbitrary: s)
  case Nil
  then show ?case by (simp add: pending_of_def rows_for_def)
next
  case (Cons m ms)
  show ?case
  proof (cases "mg_version m \<in> set applied")
    case True
    with Cons show ?thesis by (simp add: pending_of_def)
  next
    case False
    obtain s1 e where x: "executeMigration run_sql m s = (s1, e)" by fastforce
    show ?thesis
    proof (cases e)
      case None
      with executeMigration_cases [OF x] have s1: "run_sql (mg_sql m) (md_tables s) = Inr (md_tables s1)"
        "applied_rows s1 = applied_rows s @ [(mg_version m, mg_name m)]" "md_applied s1 \<noteq> None"
        by simp_all
      have "run_pending run_sql applied ms s1 = (s', err)" using Cons.prems(1) False x None by simp
      from Cons.IH [OF this s1(3)] obtain past rest where d: "pending_of applied ms = past @ rest"
        "scripts run_sql past (md_tables s1) = Inr (md_tables s')"
        "applied_rows s' = applied_rows s1 @ rows_for past" "md_applied s' \<noteq> None"
        "err = None \<longleftrightarrow> rest = []" by blast
      show ?thesis
        by (rule exI [of _ "m # past"], rule exI [of _ rest])
          (use d s1 False in \<open>simp add: pending_of_def rows_for_def\<close>)
    next
      case (Some msg)
      with executeMigration_cases [OF x] Cons.prems False x show ?thesis
        by (intro exI [of _ "[]"] exI [of _ "pending_of applied (m # ms)"])
          (auto simp: pending_of_def rows_for_def applied_rows_def)
    qed
  qed
qed

lemma RunMigrations_cases:
  assumes "RunMigrations run_sql dir s = (s', err)" "loadMigrations dir = Inr ms"
  shows "\<exists>past rest. pending_of (map fst (applied_rows s)) ms = past @ rest
    \<and> scripts run_sql past (md_tables s) = Inr (md_tables s')
    \<and> applied_rows s' = applied_rows s @ rows_for past \<and> (err = None \<longrightarrow> rest = [])"
proof -
  let ?p = "pending_of (map fst (applied_rows s)) ms"
  obtain s1 e1 where c1: "mcall s = (s1, e1)" by fastforce
  define s2 where "s2 = s1\<lparr>md_applied := Some (applied_rows s1)\<rparr>"
  obtain s3 e3 where c3: "mcall s2 = (s3, e3)" by fastforce
  have s1: "md_tables s1 = md_tables s" "md_applied s1 = md_applied s"
    using c1 by (auto simp: mcall_def)
  have s3: "md_tables s3 = md_tables s" "applied_rows s3 = applied_rows s" "md_applied s3 \<noteq> None"
    using c3 s1 by (auto simp: mcall_def s2_def applied_rows_def split: option.split)
  show ?thesis
  proof (cases "e1 = None \<and> e3 = None")
    case True
    then have "run_pending run_sql (map fst (applied_rows s3)) ms s3 = (s', err)"
      using assms c1 c3 by (simp add: RunMigrations_def Let_def s2_def)
    from run_pending_cases [OF this s3(3)] show ?thesis unfolding s3 by blast
  next
    case False
    then have "md_tables s' = md_tables s \<and> applied_rows s' = applied_rows s \<and> err \<noteq> None"
      using assms c1 c3 s1 s3
      by (cases e1; cases e3) (auto simp: RunMigrations_def Let_def s2_def applied_rows_def)
    then show ?thesis
      by (intro exI [of _ "[]"] exI [of _ ?p]) (auto simp: rows_for_def)
  qed
qed

lemma pending_of_prefix:
  assumes "distinct (map mg_version (past @ rest))"
  shows "pending_of (map fst (rows_for past)) (past @ rest) = rest"
proof -
  have "map fst (rows_for past) = map mg_version past" by (simp add: rows_for_def comp_def)
  then show ?thesis
    using assms by (auto simp: pending_of_def filter_empty_conv intro!: filter_True)
qed

text \<open>Runs one after the other, each with its own failing calls.\<close>

definition runs :: "'d script \<Rightarrow> dirent list option \<Rightarrow> string option list list \<Rightarrow> 'd migdb \<Rightarrow> 'd migdb" where
  "runs run_sql dir faults s =
     fold (\<lambda>fs s. fst (RunMigrations run_sql dir (s\<lparr>md_faults := fs\<rparr>))) faults s"

text \<open>
  C16. Migrations run once and in order, however often a start fails: after any number of runs, with
  calls and scripts failing anywhere, the database is what the scripts of the first few
  migrations made of it, each executed exactly once and in the order of their versions, and
  exactly these are recorded; the next run executes none of them again, and if it succeeds,
  all migrations have been executed.
\<close>

theorem migrations_exactly_once:
  assumes "loadMigrations dir = Inr ms" "distinct (map mg_version ms)" "applied_rows s = []"
    and "RunMigrations run_sql dir ((runs run_sql dir faults s)\<lparr>md_faults := fs\<rparr>) = (s', err)"
  shows "sorted (map mg_version ms) \<and> (\<exists>past rest. ms = past @ rest
    \<and> scripts run_sql past (md_tables s) = Inr (md_tables s') \<and> applied_rows s' = rows_for past
    \<and> (err = None \<longrightarrow> rest = []))"
proof
  show "sorted (map mg_version ms)"
    using assms(1) by (auto simp: loadMigrations_def ebind_Inr_iff split: option.splits)
  have step: "\<exists>past rest. ms = past @ rest \<and> scripts run_sql past (md_tables s) = Inr (md_tables s2)
      \<and> applied_rows s2 = rows_for past \<and> (err = None \<longrightarrow> rest = [])"
    if "RunMigrations run_sql dir (s1\<lparr>md_faults := fs\<rparr>) = (s2, err)"
      and "\<exists>past rest. ms = past @ rest \<and> scripts run_sql past (md_tables s) = Inr (md_tables s1)
        \<and> applied_rows s1 = rows_for past" for s1 s2 fs err
  proof -
    from that(2) obtain past rest where p: "ms = past @ rest"
      "scripts run_sql past (md_tables s) = Inr (md_tables s1)" "applied_rows s1 = rows_for past" by blast
    have f: "applied_rows (s1\<lparr>md_faults := fs\<rparr>) = applied_rows s1" by (simp add: applied_rows_def)
    have "pending_of (map fst (applied_rows (s1\<lparr>md_faults := fs\<rparr>))) ms = rest"
      using pending_of_prefix [of past rest] assms(2) p f by simp
    with RunMigrations_cases [OF that(1) assms(1)] obtain more left where r: "rest = more @ left"
      "scripts run_sql more (md_tables s1) = Inr (md_tables s2)"
      "applied_rows s2 = applied_rows s1 @ rows_for more" "err = None \<longrightarrow> left = []"
      unfolding f by auto
    show ?thesis
      by (rule exI [of _ "past @ more"], rule exI [of _ left])
        (use p r in \<open>simp add: scripts_append rows_for_def\<close>)
  qed
  have "\<exists>past rest. ms = past @ rest \<and> scripts run_sql past (md_tables s) = Inr (md_tables s1)
      \<and> applied_rows s1 = rows_for past" if "s1 = runs run_sql dir faults s" for s1
    using that
  proof (induction faults arbitrary: s1 rule: rev_induct)
    case Nil
    then show ?case
      using assms(3) by (intro exI [of _ "[]"] exI [of _ ms]) (simp add: runs_def rows_for_def)
  next
    case (snoc gs faults)
    let ?s0 = "runs run_sql dir faults s"
    obtain err where "RunMigrations run_sql dir (?s0\<lparr>md_faults := gs\<rparr>) = (s1, err)"
      using snoc.prems by (cases "RunMigrations run_sql dir (?s0\<lparr>md_faults := gs\<rparr>)") (simp add: runs_def)
    from step [OF this snoc.IH [OF refl]] show ?case by blast
  qed
  from step [OF assms(4) this [OF refl]]
  show "\<exists>past rest. ms = past @ rest \<and> scripts run_sql past (md_tables s) = Inr (md_tables s')
    \<and> applied_rows s' = rows_for past \<and> (err = None \<longrightarrow> rest = [])" .
qed

end
