(* ===== verification/Server_Witnesses.thy ===== *)
theory Server_Witnesses
  imports Tier_Updates Migrations Demo
begin

text \<open>
  A small server, started on the tables of the demo with one consumer that may draw from tier
  \<open>t1\<close>, at which the properties of the running program are applied.
\<close>

section \<open>The server\<close>

definition demo_env :: env where
  "demo_env = \<lparr>env_codec = demo_codec, env_sha256 = (\<lambda>token. CHR ''h'' # token),
     env_parse_rfc3339 = (\<lambda>_. None), env_uuid = (\<lambda>_. ''k9''), env_rand = (\<lambda>_. Some ''nn''),
     env_now = (\<lambda>_. now0), env_since = (\<lambda>_ _. now0),
     env_decode_addKey = (\<lambda>_ _. Inr \<lparr>ak_Name = ''new'', ak_Key = ''value'', ak_Tier = ''basic'',
        ak_ExpiresAt = None, ak_UsageLimit = Some 5, ak_UsageWindowSeconds = None, ak_Metadata = [],
        ak_Secrets = [], ak_Budget = None\<rparr>),
     env_decode_tier = (\<lambda>_ _. Inr \<lparr>tb_Name = ''basic'', tb_Description = Some ''new'',
        tb_Features = [(''search'', \<lparr>fb_RateLimit = 9, fb_WindowSeconds = 60\<rparr>)]\<rparr>),
     env_decode_until = (\<lambda>_ _. Inl ''eof''), env_decode_spend = (\<lambda>_ _. Inl ''eof''),
     env_decode_members = (\<lambda>_ _. Inl ''eof''), env_decode_budget = (\<lambda>_. Inl ''eof''),
     env_decode_consumer = (\<lambda>_ _. Inl ''eof''), env_decode_scope = (\<lambda>_ _. Inl ''eof'')\<rparr>"

definition demo_getenv :: "string \<Rightarrow> string" where
  "demo_getenv name = (if name = envAdminToken then ''root'' else if name = envDatabaseURL
     then ''postgres://db'' else [])"

definition demo_consumer :: Consumer where
  "demo_consumer = \<lparr>c_ID = ''c1'', c_Name = ''crawler'', c_TokenHash = hashToken demo_env ''tok'',
     c_Description = [], c_IsActive = True, c_CreatedAt = 0\<rparr>"

definition served_pg :: pg where
  "served_pg = demo_pg\<lparr>pg_consumers := [demo_consumer], pg_consumer_scopes := [(''c1'', ''t1'')]\<rparr>"

definition demo_server :: server where
  "demo_server = \<lparr>sv_DB = served_pg,
     sv_Pool = demo_pool\<lparr>m_keys := [(demo_key ''k1'' (Some 3))\<lparr>pk_Name := ''k1''\<rparr>,
        (demo_key ''k2'' None)\<lparr>pk_Name := ''k2''\<rparr>], m_next := 0\<rparr>,
     sv_Auth = NewAuthCache authCacheTTL, sv_AdminToken = ''root'', sv_Sealer = plain_sealer\<rparr>"

definition demo_request :: "meth \<Rightarrow> string list \<Rightarrow> string \<Rightarrow> request" where
  "demo_request m path token = \<lparr>rq_method = m, rq_path = path, rq_values = [],
     rq_authorization = ''bearer '' @ token, rq_query = (\<lambda>q. if q = featureParam then ''search'' else []),
     rq_body = []\<rparr>"

definition draw_request :: request where "draw_request = demo_request GET [''key''] ''tok''"
definition drop_request :: request where
  "drop_request = demo_request DELETE [''admin'', ''consumers'', ''c1''] ''root''"

lemma demo_tables_ok: "schema_ok served_pg"
proof -
  have "schema_ok demo_pg" by (rule demo_schema_ok)
  then show ?thesis
    by (simp add: served_pg_def demo_consumer_def schema_defs refers_def demo_defs)
qed

lemma demo_started: "start_server demo_getenv (\<lambda>_. None) demo_codec served_pg = Some demo_server"
proof -
  let ?m = "sv_Pool demo_server"
  have "case start_server demo_getenv (\<lambda>_. None) demo_codec served_pg of None \<Rightarrow> False
    | Some s \<Rightarrow> sv_DB s = served_pg \<and> m_keys (sv_Pool s) = m_keys ?m \<and> m_next (sv_Pool s) = m_next ?m
        \<and> m_usage (sv_Pool s) = m_usage ?m \<and> Option.is_none (aead (m_sealer (sv_Pool s)))
        \<and> sv_Auth s = NewAuthCache authCacheTTL \<and> sv_AdminToken s = ''root''
        \<and> Option.is_none (aead (sv_Sealer s))"
    by code_simp
  moreover have "sv_DB demo_server = served_pg" "sv_Auth demo_server = NewAuthCache authCacheTTL"
    "sv_AdminToken demo_server = ''root''" "sv_Sealer demo_server = \<lparr>aead = None\<rparr>" "m_sealer ?m = \<lparr>aead = None\<rparr>"
    by (simp_all add: demo_server_def demo_pool_def plain_sealer_def)
  ultimately show ?thesis
    by (auto simp: Option.is_none_def split: option.splits intro!: server.equality Manager.equality Sealer.equality)
qed

lemma demo_start_ok: "sane demo_server" "coherent demo_server"
  using start_ok [OF demo_started demo_tables_ok] by simp_all

section \<open>Running it\<close>

theorem server_invariant_witness:
  "coherent (server_run [Request demo_env draw_request, FlushTick rev, Request demo_env drop_request] demo_server)"
  using server_invariant [OF demo_started demo_tables_ok] by blast

section \<open>Drawing and deleting\<close>

lemma demo_served: "rs_body (snd (ServeHTTP demo_env draw_request demo_server)) =
   DrawnKey \<lparr>dk_KeyID = ''k1'', dk_Value = ''secret-k1'', dk_Metadata = [], dk_Secrets = []\<rparr>"
  by code_simp

theorem served_key_is_permitted_witness:
  "drawn demo_env draw_request demo_server (fst (ServeHTTP demo_env draw_request demo_server))
     \<lparr>dk_KeyID = ''k1'', dk_Value = ''secret-k1'', dk_Metadata = [], dk_Secrets = []\<rparr>"
  by (rule served_key_is_permitted [OF demo_started demo_tables_ok, where as = "[]" and s = demo_server
        and resp = "snd (ServeHTTP demo_env draw_request demo_server)"])
    (simp_all add: server_run_def demo_served)

theorem admin_needs_token_witness:
  "ServeHTTP demo_env (demo_request DELETE [''admin'', ''consumers'', ''c1''] ''tok'') demo_server
     = (demo_server, writeError StatusUnauthorized ''invalid admin token'')"
proof -
  let ?r = "demo_request DELETE [''admin'', ''consumers'', ''c1''] ''tok''"
  have "rq_path ?r = ''admin'' # [''consumers'', ''c1'']" by (simp add: demo_request_def)
  moreover have "bearerToken ?r \<noteq> Some (sv_AdminToken demo_server)" by code_simp
  ultimately have "fst (ServeHTTP demo_env ?r demo_server) = demo_server"
    using admin_needs_token [of ?r] by (metis prod.collapse)
  moreover have "snd (ServeHTTP demo_env ?r demo_server)
      = writeError StatusUnauthorized ''invalid admin token''" by code_simp
  ultimately show ?thesis by (simp add: prod_eq_iff)
qed

definition dropped_server :: server where
  "dropped_server = fst (ServeHTTP demo_env drop_request demo_server)"

lemma demo_dropped:
  "ServeHTTP demo_env drop_request demo_server = (dropped_server, writeJSON StatusOK (StatusBody statusDeleted))"
proof -
  have "snd (ServeHTTP demo_env drop_request demo_server) = writeJSON StatusOK (StatusBody statusDeleted)"
    by code_simp
  then show ?thesis by (simp add: dropped_server_def prod_eq_iff)
qed

lemma demo_requests:
  "rq_method drop_request = DELETE" "rq_path drop_request = [''admin'', ''consumers'', c_ID demo_consumer]"
  "c_ID demo_consumer \<noteq> []" "bearerToken draw_request = Some ''tok''"
  "hashToken demo_env ''tok'' = c_TokenHash demo_consumer"
  "rq_method draw_request = GET" "rq_path draw_request = [''key'']"
  by code_simp+

section \<open>A lookup in flight\<close>

definition looked_up :: keyCaller where
  "looked_up = \<lparr>kc_consumerID = ''c1'', kc_allowedTierIDs = Some [(''t1'', True)]\<rparr>"

lemma demo_lookup:
  "consumer_lookup (c_TokenHash demo_consumer) (sv_DB demo_server) = (sv_DB demo_server, Inr (Some looked_up))"
  by code_simp

theorem late_put_outlives_deletion_witness:
  "resolveKeyCaller demo_env draw_request
     (dropped_server\<lparr>sv_Auth := cache_put now0 (c_TokenHash demo_consumer) looked_up (sv_Auth dropped_server)\<rparr>)
   = (dropped_server\<lparr>sv_Auth := cache_put now0 (c_TokenHash demo_consumer) looked_up (sv_Auth dropped_server)\<rparr>,
      Inr looked_up)"
proof -
  have "demo_consumer \<in> set (pg_consumers (sv_DB demo_server))" "''tok'' \<noteq> sv_AdminToken dropped_server"
    "env_now demo_env 0 \<le> now0 + ac_ttl (sv_Auth dropped_server)" by code_simp+
  then show ?thesis
    using late_put_outlives_deletion [OF demo_start_ok(1) demo_lookup _ demo_requests(1-3), of demo_env dropped_server
        "writeJSON StatusOK (StatusBody statusDeleted)" _ now0 draw_request "''tok''" demo_env] demo_dropped demo_requests
    by (simp add: writeJSON_def)
qed

section \<open>Responses\<close>

definition add_request :: request where "add_request = demo_request POST [''admin'', ''keys''] ''root''"

definition failing :: "string option list \<Rightarrow> server" where
  "failing faults = demo_server\<lparr>sv_DB := (sv_DB demo_server)\<lparr>pg_faults := faults\<rparr>\<rparr>"

text \<open>The key is inserted, but its transaction does not commit.\<close>

theorem error_response_changes_no_table_witness:
  "tables (sv_DB (fst (ServeHTTP demo_env add_request (failing [None, None, None, Some ''down'']))))
     = tables (sv_DB demo_server)"
proof -
  let ?s = "failing [None, None, None, Some ''down'']"
  have "rs_status (snd (ServeHTTP demo_env add_request ?s)) = StatusInternalServerError"
    "400 \<le> StatusInternalServerError" "rq_method add_request \<noteq> PATCH" by code_simp+
  then have "tables (sv_DB (fst (ServeHTTP demo_env add_request ?s))) = tables (sv_DB ?s)"
    by (intro error_response_changes_no_table [OF prod.collapse [symmetric]]) simp_all
  then show ?thesis by (simp add: failing_def)
qed

theorem usage_listing_bounded_witness:
  "rs_status (snd (ListUsageEvents_h demo_env draw_request demo_server)) = StatusOK"
proof -
  have "pg_faults (sv_DB demo_server) = []" by code_simp
  with usage_listing_bounded [where E = demo_env and r = draw_request and s = demo_server] show ?thesis
    by (auto split: prod.splits)
qed



definition tier_request :: request where "tier_request = demo_request PATCH [''admin'', ''tiers''] ''root''"

theorem tier_update_takes_effect_witness:
  "\<exists>k\<in>set (m_keys (sv_Pool (fst (UpdateTierFeatures demo_env tier_request demo_server)))).
     pk_ID k = ''k1'' \<and> mget (pk_Features k) ''search'' = Some \<lparr>fl_RateLimit = 9, fl_WindowSeconds = 60\<rparr>"
proof -
  have "rs_status (snd (UpdateTierFeatures demo_env tier_request demo_server)) = StatusOK" by code_simp
  from tier_update_takes_effect [OF prod.collapse [symmetric] this demo_start_ok(1)] obtain body tier
    where t: "decodeTierBody demo_env tier_request = Inr body" "tier \<in> set (pg_tiers (sv_DB demo_server))"
      "pg_faults (sv_DB demo_server) = [] \<Longrightarrow>
         \<forall>row\<in>set (pg_keys (sv_DB demo_server)). \<not> isl (key_of_row (env_codec demo_env) row) \<Longrightarrow>
         row \<in> set (pg_keys (sv_DB demo_server)) \<Longrightarrow> kr_tier_id row = tier_ID tier \<Longrightarrow>
         \<exists>k\<in>set (m_keys (sv_Pool (fst (UpdateTierFeatures demo_env tier_request demo_server)))).
           pk_ID k = kr_id row \<and> (\<forall>f. mget (pk_Features k) f = limit_given body f)" for row
    by blast
  have "case decodeTierBody demo_env tier_request of Inl e \<Rightarrow> False
    | Inr b \<Rightarrow> limit_given b ''search'' = Some \<lparr>fl_RateLimit = 9, fl_WindowSeconds = 60\<rparr>" by code_simp
  with t(1) have l: "limit_given body ''search'' = Some \<lparr>fl_RateLimit = 9, fl_WindowSeconds = 60\<rparr>" by simp
  have "pg_faults (sv_DB demo_server) = []"
    "list_all (\<lambda>row. \<not> isl (key_of_row (env_codec demo_env) row)) (pg_keys (sv_DB demo_server))" by code_simp+
  moreover have "demo_row ''k1'' (Some 3) \<in> set (pg_keys (sv_DB demo_server))"
    "kr_tier_id (demo_row ''k1'' (Some 3)) = tier_ID tier" "kr_id (demo_row ''k1'' (Some 3)) = ''k1''"
    using t(2) by (simp_all add: demo_server_def served_pg_def demo_defs)
  ultimately show ?thesis using t(3) [of "demo_row ''k1'' (Some 3)"] l by (auto simp: list_all_iff)
qed

text \<open>
  The exception of \<open>error_response_changes_no_table\<close>: when the second of the two transactions of
  \<open>UpdateTierFeatures\<close> fails, the answer is 500 and the description has changed.
\<close>

theorem tier_update_half_done:
  "case UpdateTierFeatures demo_env (demo_request PATCH [''admin'', ''tiers''] ''root'')
       (failing [None, None, Some ''down'']) of (s', resp) \<Rightarrow>
     rs_status resp = StatusInternalServerError \<and> map tier_Description (pg_tiers (sv_DB demo_server)) = [[]]
     \<and> map tier_Description (pg_tiers (sv_DB s')) = [''new'']"
  by code_simp

section \<open>Migrations and balances\<close>

definition demo_dir :: "dirent list" where
  "demo_dir = [\<lparr>de_Name = ''010_c.sql'', de_IsDir = False, de_content = Some ''c''\<rparr>,
     \<lparr>de_Name = ''1_a.sql'', de_IsDir = False, de_content = Some ''a''\<rparr>,
     \<lparr>de_Name = ''002_b.sql'', de_IsDir = False, de_content = Some ''b''\<rparr>]"

definition demo_script :: "string list script" where "demo_script sql executed = Inr (executed @ [sql])"

definition fresh_db :: "string list migdb" where
  "fresh_db = \<lparr>md_tables = [], md_applied = None, md_faults = []\<rparr>"

text \<open>Two starts fail, in the middle of the second migration; the third succeeds.\<close>

definition failing_starts :: "string option list list" where
  "failing_starts = [[None, None, None, None, None, None, Some ''down''],
     [None, None, None, None, None, Some ''down'']]"

theorem migrations_exactly_once_witness:
  "md_tables (fst (RunMigrations demo_script (Some demo_dir)
     ((runs demo_script (Some demo_dir) failing_starts fresh_db)\<lparr>md_faults := []\<rparr>))) = [''a'', ''b'', ''c'']"
proof -
  let ?s = "(runs demo_script (Some demo_dir) failing_starts fresh_db)\<lparr>md_faults := []\<rparr>"
  let ?ms = "[\<lparr>mg_version = 1, mg_name = ''a'', mg_sql = ''a''\<rparr>, \<lparr>mg_version = 2, mg_name = ''b'', mg_sql = ''b''\<rparr>,
      \<lparr>mg_version = 10, mg_name = ''c'', mg_sql = ''c''\<rparr>]"
  obtain s' where r: "RunMigrations demo_script (Some demo_dir) ?s = (s', None)"
  proof -
    have "snd (RunMigrations demo_script (Some demo_dir) ?s) = None" by code_simp
    then show thesis by (metis prod.collapse that)
  qed
  have "loadMigrations (Some demo_dir) = Inr ?ms" by code_simp
  moreover have "applied_rows fresh_db = []" "scripts demo_script ?ms (md_tables fresh_db) = Inr [''a'', ''b'', ''c'']"
    by (simp_all add: applied_rows_def fresh_db_def demo_script_def)
  ultimately have "md_tables s' = [''a'', ''b'', ''c'']"
    using migrations_exactly_once [OF _ _ _ r] by force
  with r show ?thesis by simp
qed

definition sync_pool :: Manager where
  "sync_pool = demo_pool\<lparr>m_keys := [(demo_key ''k1'' None)\<lparr>pk_Features := [(''tavily_search'', search_limit)]\<rparr>]\<rparr>"

definition sync_world :: syncenv where
  "sync_world = \<lparr>sy_http = (\<lambda>_ _ _. Inr (200, [])), sy_now = (\<lambda>_. now0), sy_done = (\<lambda>_. False),
     sy_firecrawl = (\<lambda>_. Inl ''eof''),
     sy_tavily = (\<lambda>_. Inr \<lparr>ty_KeyUsage = Fin 100, ty_KeyLimit = Some (Fin 100),
        ty_AccountUsage = Fin 0, ty_AccountLimit = Fin 0\<rparr>),
     sy_apify = (\<lambda>_. Inl ''eof'')\<rparr>"

lemma tavily_spent:
  "Tavily_Check tavilyBase sync_world n key = Inr \<lparr>bal_Used = Fin 100, bal_Limit = Fin 100,
     bal_Unit = UnitCredits, bal_ResetsAt = None, bal_CheckedAt = zeroTime\<rparr>"
  by (simp add: Tavily_Check_def getJSON_def sync_world_def)

lemma tavily_100:
  "Balance_Spent \<lparr>bal_Used = Fin 100, bal_Limit = Fin 100, bal_Unit = UnitCredits,
     bal_ResetsAt = None, bal_CheckedAt = zeroTime\<rparr>"
  by code_simp

theorem sync_benches_spent_keys_witness:
  "\<exists>t. bench_of (fst (sync (mgr_pool demo_codec) Minute Sources sync_world (sync_pool, demo_pg))) ''k1'' = Some t
     \<and> spent_answer Minute sync_world sync_pool ''k1'' t"
proof -
  let ?src = "Tavily_Check tavilyBase" and ?key = "\<lparr>held_ID = ''k1'', held_KeyValue = ''secret-k1''\<rparr>"
  have ok: "pool_ok sync_pool"
    by (simp add: sync_pool_def demo_defs pool_ok_def key_fits_def features_fit_def counters_fit_def
        wf_map_def int32_def New_Writer_def)
  have "(''tavily_search'', ?src) \<in> set Sources" "?key \<in> set (Holding ''tavily_search'' sync_pool)"
    "\<forall>n. \<not> sy_done sync_world n"
    by (simp add: Sources_def, code_simp, simp add: sync_world_def)
  moreover have "\<forall>n. \<exists>b. ?src sync_world n (held_KeyValue ?key) = Inr b \<and> Balance_Spent b"
    using tavily_100 by (simp add: tavily_spent)
  moreover note sync_benches_spent_keys [OF ok demo_schema_ok prod.collapse [symmetric],
      of demo_codec Minute sync_world]
  ultimately show ?thesis by fastforce
qed

end
