(* ===== verification/Guarantee_Witnesses.thy ===== *)
theory Guarantee_Witnesses
  imports Guarantees Lockout Server_Witnesses
begin

text \<open>
  The guarantees of a key at the small server: its first key has a usage limit of three.
\<close>

section \<open>A deleted consumer\<close>

text \<open>The consumer is deleted; an event, a flush and another of its requests later it is still out.\<close>

theorem deleted_consumer_is_locked_out_witness:
  "rs_status (snd (ServeHTTP demo_env draw_request
     (server_run [Request demo_env draw_request, FlushTick rev, World now0 []] dropped_server)))
     \<in> {StatusUnauthorized, StatusInternalServerError}"
proof -
  let ?as = "[Request demo_env draw_request, FlushTick rev, World now0 []]"
  let ?s2 = "server_run ?as dropped_server"
  have "demo_consumer \<in> set (pg_consumers (sv_DB demo_server))" by code_simp
  moreover have "fresh_hash demo_env \<noteq> Some (c_TokenHash demo_consumer)" by code_simp
  then have "list_all (\<lambda>a. \<not> mints (c_TokenHash demo_consumer) a) ?as" by simp
  moreover have "''tok'' \<noteq> sv_AdminToken ?s2"
    by code_simp
  ultimately show ?thesis
    using deleted_consumer_is_locked_out [OF demo_started demo_tables_ok, where as = "[]" and s = demo_server
        and c = demo_consumer, OF _ _ demo_requests(1-3) demo_dropped _ _ refl demo_requests(4) _ demo_requests(5)
        prod.collapse [symmetric], of ?as]
      demo_requests(6,7)
    by (simp add: server_run_def writeJSON_def)
qed

section \<open>The usage limit\<close>

text \<open>A request for the first key by its id, \<open>n\<close> minutes after the start.\<close>

definition later_env :: "int \<Rightarrow> env" where
  "later_env n = demo_env\<lparr>env_now := (\<lambda>_. now0 + n * Minute)\<rparr>"

definition id_request :: request where "id_request = demo_request GET [''key'', ''k1''] ''tok''"

lemma demo_limited: "limited ''k1'' 3 0 served_pg"
  by code_simp

lemma demo_uuids: "env_uuid (later_env n) i \<noteq> ''k1''" "env_uuid demo_env i \<noteq> ''k1''"
  by (simp_all add: later_env_def demo_env_def)

lemma drawn_first: "hands_out k (snd (ServeHTTP E r s)) \<Longrightarrow> 0 < drawn_times k (Request E r # as) s"
  by (cases "ServeHTTP E r s") (simp add: drawn_times_def)

theorem usage_limit_never_exceeded_witness:
  "drawn_times ''k1'' (Request demo_env draw_request # map (\<lambda>n. Request (later_env n) id_request) [2, 4, 6, 8])
     demo_server \<in> {1, 2, 3}"
proof -
  let ?as = "Request demo_env draw_request # map (\<lambda>n. Request (later_env n) id_request) [2, 4, 6, 8]"
  have "drawn_times ''k1'' ?as demo_server \<le> nat (3 - 0)"
    by (rule usage_limit_never_exceeded [OF demo_started demo_tables_ok demo_limited])
      (simp add: list_all_iff demo_uuids)
  moreover have "hands_out ''k1'' (snd (ServeHTTP demo_env draw_request demo_server))"
    by (simp add: hands_out_def demo_served)
  then have "0 < drawn_times ''k1'' ?as demo_server" by (rule drawn_first)
  ultimately show ?thesis by auto
qed

section \<open>The bench\<close>

text \<open>The first key is benched for an hour and drawn two hours later.\<close>

definition bench_env :: env where
  "bench_env = demo_env\<lparr>env_decode_until := (\<lambda>_ _. Inr ''soon''),
     env_parse_rfc3339 := (\<lambda>_. Some (now0 + 60 * Minute))\<rparr>"

definition bench_request :: request where
  "bench_request = demo_request POST [''key'', ''k1'', ''exhausted''] ''tok''"

definition benched_server :: server where
  "benched_server = fst (ServeHTTP bench_env bench_request demo_server)"

definition waited :: "action list" where "waited = [Request (later_env 1) add_request, FlushTick rev]"

lemma demo_benched:
  "case ServeHTTP bench_env bench_request demo_server of (s1, resp) \<Rightarrow>
     rs_status resp = StatusOK
     \<and> map_option kr_exhausted_until (key_row_of (sv_DB s1) ''k1'') = Some (Some (now0 + 60 * Minute))
     \<and> hands_out ''k1'' (snd (ServeHTTP (later_env 120) id_request (server_run waited s1)))"
  by code_simp

theorem bench_holds_witness:
  "\<exists>j. now0 + 60 * Minute \<le> env_now (later_env 120) j"
proof -
  let ?resp = "snd (ServeHTTP bench_env bench_request demo_server)"
  let ?s2 = "server_run waited benched_server"
  have b: "rs_status ?resp = StatusOK"
    "map_option kr_exhausted_until (key_row_of (sv_DB benched_server) ''k1'') = Some (Some (timestamptz (now0 + 60 * Minute)))"
    "hands_out ''k1'' (snd (ServeHTTP (later_env 120) id_request ?s2))"
    using demo_benched
    by (simp_all add: benched_server_def timestamptz_def now0_def Minute_def Second_def split: prod.splits)
  have "\<exists>j. timestamptz (now0 + 60 * Minute) \<le> env_now (later_env 120) j"
  proof (rule bench_holds [OF demo_started demo_tables_ok])
    show "covered ''k1'' served_pg" by (simp add: covered_def featured_def key_row_of_def served_pg_def demo_defs)
    show "list_all (ordinary ''k1'') []" "demo_server = server_run [] demo_server" by (simp_all add: server_run_def)
    show "ServeHTTP bench_env bench_request demo_server = (benched_server, ?resp)" by (simp add: benched_server_def)
    show "bench_path bench_request ''k1''" "''k1'' \<noteq> []" "env_uuid bench_env 0 \<noteq> ''k1''"
      "decodeBody (env_decode_until bench_env) bench_request = Inr ''soon''"
      "env_parse_rfc3339 bench_env ''soon'' = Some (now0 + 60 * Minute)"
      by (simp_all add: bench_path_def bench_request_def demo_request_def bench_env_def demo_env_def decodeBody_def)
    show "list_all (ordinary ''k1'') waited" "calm ''k1'' waited benched_server"
      by (simp_all add: waited_def demo_uuids bench_path_def add_request_def demo_request_def)
    show "ServeHTTP (later_env 120) id_request ?s2 = (fst (ServeHTTP (later_env 120) id_request ?s2),
        snd (ServeHTTP (later_env 120) id_request ?s2))" by simp
    show "env_uuid (later_env 120) 0 \<noteq> ''k1''" "\<not> bench_path id_request ''k1''"
      by (simp_all add: later_env_def demo_env_def bench_path_def id_request_def demo_request_def)
  qed (use b in simp_all)
  then show ?thesis by (simp add: timestamptz_def now0_def Minute_def Second_def)
qed

end
