(* ===== verification/Process.thy ===== *)
theory Process
  imports Guarantees Migrations
begin

text \<open>
  The process around the server: \<open>cmd/keypooler/main.go\<close> and \<open>NewPostgresAdapter\<close> of
  \<open>internal/db/postgres.go\<close>. The start opens the store, migrates it, and loads the pool; then the
  server, the write-back loop and the balance loop run side by side until a signal, and are
  stopped one after the other.
\<close>

section \<open>Opening the store\<close>

text \<open>
  The driver is a parameter: parsing a URL, opening a pool and the first ping, each with the message
  of its error. \<open>'c\<close> is whatever else a parsed configuration holds.
\<close>

record 'c pool_config =
  pc_MaxConns :: int
  pc_MinConns :: int
  pc_MaxConnIdleTime :: duration
  pc_rest :: 'c

record 'c driver =
  drv_ParseConfig :: "string \<Rightarrow> string + 'c pool_config"
  drv_NewWithConfig :: "'c pool_config \<Rightarrow> string option"
  drv_Ping :: "'c pool_config \<Rightarrow> string option"

definition minConns :: int where "minConns = 1"
definition maxConnIdleTime :: duration where "maxConnIdleTime = 5 * Minute"
definition MaxDBConns :: int where "MaxDBConns = 4"

datatype openerr = InvalidURL | PoolNotOpened | PingFailed string

definition NewPostgresAdapter :: "'c driver \<Rightarrow> string \<Rightarrow> int \<Rightarrow> openerr + 'c pool_config" where
  "NewPostgresAdapter drv dsn maxConns =
     (case drv_ParseConfig drv dsn of
        Inl err \<Rightarrow> Inl InvalidURL
      | Inr cfg \<Rightarrow>
          (let cfg = cfg\<lparr>pc_MaxConns := signed_take_bit 31 (max maxConns 1), pc_MinConns := minConns,
                 pc_MaxConnIdleTime := maxConnIdleTime\<rparr>
           in case drv_NewWithConfig drv cfg of
                Some err \<Rightarrow> Inl PoolNotOpened
              | None \<Rightarrow>
                  (case drv_Ping drv cfg of Some err \<Rightarrow> Inl (PingFailed err) | None \<Rightarrow> Inr cfg)))"

text \<open>Every error of the start ends the process with its message.\<close>

datatype starterr = BadConfig configerr | StoreFailed openerr | MigrationsFailed migerr
  | BadEncryption sealerr | PoolNotLoaded dberr

definition openStore :: "'c driver \<Rightarrow> 'd script \<Rightarrow> dirent list option \<Rightarrow> Config \<Rightarrow> 'd migdb
    \<Rightarrow> 'd migdb \<times> (starterr + 'c pool_config)" where
  "openStore drv run_sql dir cfg s =
     (case NewPostgresAdapter drv (cfg_DatabaseURL cfg) MaxDBConns of
        Inl err \<Rightarrow> (s, Inl (StoreFailed err))
      | Inr store \<Rightarrow>
          (case RunMigrations run_sql dir s of
             (s, Some err) \<Rightarrow> (s, Inl (MigrationsFailed err))
           | (s, None) \<Rightarrow> (s, Inr store)))"

text \<open>\<open>main\<close> up to the start of the listener. \<open>faults\<close> are the outcomes of the pool's calls.\<close>

definition main_start :: "(string \<Rightarrow> string) \<Rightarrow> 'c driver \<Rightarrow> pg script \<Rightarrow> dirent list option
    \<Rightarrow> (string \<Rightarrow> AEAD option) \<Rightarrow> json_codec \<Rightarrow> string option list \<Rightarrow> pg migdb
    \<Rightarrow> pg migdb \<times> (starterr + server)" where
  "main_start getenv drv run_sql dir newGCM codec faults s =
     (case Load getenv of
        Inl err \<Rightarrow> (s, Inl (BadConfig err))
      | Inr cfg \<Rightarrow>
          (case openStore drv run_sql dir cfg s of
             (s, Inl err) \<Rightarrow> (s, Inl err)
           | (s, Inr store) \<Rightarrow>
               (case NewSealer newGCM (cfg_EncryptionKey cfg) of
                  Inl err \<Rightarrow> (s, Inl (BadEncryption err))
                | Inr sealer \<Rightarrow>
                    (case NewManager (pg_pool codec) sealer New_Writer ((md_tables s)\<lparr>pg_faults := faults\<rparr>) of
                       (d, Inl err) \<Rightarrow> (s\<lparr>md_tables := d\<rparr>, Inl (PoolNotLoaded err))
                     | (d, Inr pool) \<Rightarrow>
                         (s\<lparr>md_tables := d\<rparr>,
                          Inr \<lparr>sv_DB = d, sv_Pool = pool, sv_Auth = NewAuthCache authCacheTTL,
                               sv_AdminToken = cfg_AdminToken cfg, sv_Sealer = sealer\<rparr>)))))"

lemma main_start_cases:
  assumes "main_start getenv drv run_sql dir newGCM codec faults s = (s', Inr sv)"
  obtains s1 where "RunMigrations run_sql dir s = (s1, None)"
    "start_server getenv newGCM codec ((md_tables s1)\<lparr>pg_faults := faults\<rparr>) = Some sv"
    "applied_rows s' = applied_rows s1" "md_tables s' = sv_DB sv"
    "tables (sv_DB sv) = tables (md_tables s1)"
proof -
  obtain cfg sealer s1 d pool where p: "Load getenv = Inr cfg" "RunMigrations run_sql dir s = (s1, None)"
    "NewSealer newGCM (cfg_EncryptionKey cfg) = Inr sealer"
    "NewManager (pg_pool codec) sealer New_Writer ((md_tables s1)\<lparr>pg_faults := faults\<rparr>) = (d, Inr pool)"
    "s' = s1\<lparr>md_tables := d\<rparr>"
    "sv = \<lparr>sv_DB = d, sv_Pool = pool, sv_Auth = NewAuthCache authCacheTTL,
       sv_AdminToken = cfg_AdminToken cfg, sv_Sealer = sealer\<rparr>"
    using assms by (auto simp: main_start_def openStore_def split: sum.splits prod.splits option.splits)
  have "pool_ok \<lparr>m_keys = [], m_next = 0, m_usage = New_Writer, m_sealer = sealer\<rparr>"
    by (simp add: pool_ok_def New_Writer_def)
  then have "tables d = tables ((md_tables s1)\<lparr>pg_faults := faults\<rparr>)"
    using reload_frame(2) p(4) by (fastforce simp: NewManager_def split: prod.splits option.splits)
  then show ?thesis
    using p by (intro that [of s1]) (simp_all add: start_server_def applied_rows_def)
qed

section \<open>The phases of the process\<close>

text \<open>
  \<open>Serving\<close> until a signal; then \<open>main\<close> waits for \<open>Shutdown\<close>, for the balance loop, and for the
  write-back loop with its final flush. \<open>Shutdown\<close> ends drained, with every request answered, or
  gives up after its timeout; then requests may go on until the process exits: \<open>pr_late\<close>.
\<close>

datatype phase = Serving | ShuttingDown | StoppingBalances | StoppingWriteback | Exiting | Stopped

record process =
  pr_phase :: phase
  pr_late :: bool
  pr_server :: server

definition start_process :: "server \<Rightarrow> process" where
  "start_process s = \<lparr>pr_phase = Serving, pr_late = False, pr_server = s\<rparr>"

datatype pevent = Act action | Signal | ShutdownDone bool | BalancesDone
  | FinalFlush "(string \<times> usage) list \<Rightarrow> (string \<times> usage) list" | Exit

text \<open>
  What runs in which phase: the listener with its requests, the write-back loop that \<open>main\<close>
  starts first and stops last, and the balance loop.
\<close>

definition listening :: "process \<Rightarrow> bool" where
  "listening p \<longleftrightarrow> pr_phase p \<in> {Serving, ShuttingDown} \<or> pr_late p \<and> pr_phase p \<noteq> Stopped"

definition writeback_running :: "process \<Rightarrow> bool" where
  "writeback_running p \<longleftrightarrow> pr_phase p \<notin> {Exiting, Stopped}"

definition balances_running :: "process \<Rightarrow> bool" where
  "balances_running p \<longleftrightarrow> pr_phase p \<in> {Serving, ShuttingDown, StoppingBalances}"

lemmas running_defs = listening_def writeback_running_def balances_running_def

fun enabled :: "pevent \<Rightarrow> process \<Rightarrow> bool" where
  "enabled (Act (Request E r)) p \<longleftrightarrow> listening p"
| "enabled (Act (FlushTick order)) p \<longleftrightarrow> writeback_running p"
| "enabled (Act (SyncTick codec W)) p \<longleftrightarrow> balances_running p"
| "enabled (Act (World now faults)) p \<longleftrightarrow> True"
| "enabled Signal p \<longleftrightarrow> pr_phase p = Serving"
| "enabled (ShutdownDone drained) p \<longleftrightarrow> pr_phase p = ShuttingDown"
| "enabled BalancesDone p \<longleftrightarrow> pr_phase p = StoppingBalances"
| "enabled (FinalFlush order) p \<longleftrightarrow> pr_phase p = StoppingWriteback"
| "enabled Exit p \<longleftrightarrow> pr_phase p = Exiting"

fun process_do :: "pevent \<Rightarrow> process \<Rightarrow> process" where
  "process_do (Act a) p = p\<lparr>pr_server := server_do a (pr_server p)\<rparr>"
| "process_do Signal p = p\<lparr>pr_phase := ShuttingDown\<rparr>"
| "process_do (ShutdownDone drained) p = p\<lparr>pr_phase := StoppingBalances, pr_late := \<not> drained\<rparr>"
| "process_do BalancesDone p = p\<lparr>pr_phase := StoppingWriteback\<rparr>"
| "process_do (FinalFlush order) p =
     p\<lparr>pr_phase := Exiting, pr_server := server_do (FlushTick order) (pr_server p)\<rparr>"
| "process_do Exit p = p\<lparr>pr_phase := Stopped\<rparr>"

fun process_run :: "pevent list \<Rightarrow> process \<Rightarrow> process option" where
  "process_run [] p = Some p"
| "process_run (e # es) p = (if enabled e p then process_run es (process_do e p) else None)"

text \<open>What the events do to the server, as actions.\<close>

fun acts_of :: "pevent list \<Rightarrow> action list" where
  "acts_of [] = []"
| "acts_of (Act a # es) = a # acts_of es"
| "acts_of (FinalFlush order # es) = FlushTick order # acts_of es"
| "acts_of (e # es) = acts_of es"

fun ordinary_event :: "string \<Rightarrow> pevent \<Rightarrow> bool" where
  "ordinary_event k (Act a) = ordinary k a"
| "ordinary_event k (FinalFlush order) = (\<forall>xs. mset (order xs) = mset xs)"
| "ordinary_event k _ = True"

lemma acts_of_append: "acts_of (es @ es') = acts_of es @ acts_of es'"
  by (induction es rule: acts_of.induct) simp_all

lemma acts_ordinary: "list_all (ordinary_event k) es \<Longrightarrow> list_all (ordinary k) (acts_of es)"
  by (induction es rule: acts_of.induct) simp_all

lemma server_run_append: "server_run (as @ bs) s = server_run bs (server_run as s)"
  by (simp add: server_run_def)

lemma process_run_server:
  "process_run es p = Some p' \<Longrightarrow> pr_server p' = server_run (acts_of es) (pr_server p)"
proof (induction es arbitrary: p)
  case (Cons e es)
  from Cons.prems have "pr_server p' = server_run (acts_of es) (pr_server (process_do e p))"
    by (intro Cons.IH) (simp split: if_splits)
  then show ?case by (cases e) (simp_all add: server_run_def)
qed (simp add: server_run_def)

lemma process_run_append:
  "process_run (es @ es') p = Option.bind (process_run es p) (process_run es')"
  by (induction es arbitrary: p) simp_all

section \<open>An orderly stop\<close>

text \<open>After the final flush of a drained process nothing but the world moves.\<close>

lemma exited_pool:
  "process_run es p = Some p' \<Longrightarrow> pr_phase p \<in> {Exiting, Stopped} \<Longrightarrow> \<not> pr_late p \<Longrightarrow>
   sv_Pool (pr_server p') = sv_Pool (pr_server p)"
proof (induction es arbitrary: p)
  case (Cons e es)
  have run: "enabled e p" "process_run es (process_do e p) = Some p'" using Cons.prems(1) by (auto split: if_splits)
  have "pr_phase (process_do e p) \<in> {Exiting, Stopped} \<and> \<not> pr_late (process_do e p)
      \<and> sv_Pool (pr_server (process_do e p)) = sv_Pool (pr_server p)"
    using run(1) Cons.prems(2,3) by (cases "(e, p)" rule: enabled.cases) (auto simp: running_defs)
  with Cons.IH [OF run(2)] show ?case by simp
qed simp

lemma final_flush_empties:
  assumes "schema_ok (sv_DB s)" "wf_map (w_usage (m_usage (sv_Pool s)))" "pg_faults (sv_DB s) = []"
    and "entries_fit (sv_DB s) (w_usage (m_usage (sv_Pool s)))" "\<And>xs. mset (order xs) = mset xs"
  shows "w_usage (m_usage (sv_Pool (server_do (FlushTick order) s))) = []"
proof -
  let ?w = "m_usage (sv_Pool s)" let ?w1 = "?w\<lparr>w_usage := [], w_events := []\<rparr>"
  have "set (order (w_usage ?w)) = set (w_usage ?w)" using assms(5) by (metis set_mset_mset)
  then have "entries_fit (sv_DB s) (order (w_usage ?w))" using assms(4) by (simp add: entries_fit_def)
  then obtain d where d: "flush_usage pg_writer (order (w_usage ?w)) ?w1 (sv_DB s) = (?w1, d)"
    using flush_usage_fits [OF assms(3,1) inflight_taken(2) [OF assms(2,5)]] by blast
  obtain w' d' where f: "Flush pg_writer order ?w (sv_DB s) = (w', d')" by fastforce
  with d have "flush_events pg_writer (w_events ?w) ?w1 d = (w', d')" by (simp add: Flush_def Let_def)
  then have "w_usage w' = []" by (auto simp: flush_events_def split: if_splits prod.splits option.splits)
  with f show ?thesis by simp
qed

text \<open>
  C10. A restart forgets no use: when the process is told to stop, its requests are drained and the
  database answers the final flush, then the draws of a limited key before the stop and after the
  next start together stay within its limit, whatever has happened before and in between.
\<close>

theorem orderly_restart_keeps_usage_limit:
  assumes "start_server getenv newGCM codec d = Some s" "schema_ok d" "limited k limit n d" "0 < limit"
    and "process_run es (start_process s) = Some p" "list_all (ordinary_event k) es" "\<not> pr_late p"
    and "pg_faults (sv_DB (pr_server p)) = []"
    and "entries_fit (sv_DB (pr_server p)) (w_usage (m_usage (sv_Pool (pr_server p))))"
    and "process_run (FinalFlush order # rest) p = Some p'" "list_all (ordinary_event k) (FinalFlush order # rest)"
    and "start_server getenv' newGCM' codec' (sv_DB (pr_server p')) = Some s2" "list_all (ordinary k) as2"
  shows "drawn_times k (acts_of (es @ FinalFlush order # rest)) s + drawn_times k as2 s2 \<le> nat (limit - n)"
proof (rule restart_keeps_usage_limit [OF assms(1-4)])
  let ?p1 = "process_do (FinalFlush order) p"
  show "list_all (ordinary k) (acts_of (es @ FinalFlush order # rest))"
    using assms(6,11) by (intro acts_ordinary) simp
  have "process_run (es @ FinalFlush order # rest) (start_process s) = Some p'"
    using assms(5,10) by (simp add: process_run_append)
  from process_run_server [OF this]
  show "pr_server p' = server_run (acts_of (es @ FinalFlush order # rest)) s" by (simp add: start_process_def)
  have "sane (server_run (acts_of es) s)"
    using start_ok(1) [OF assms(1,2)] leaves_server_run by (simp add: leaves_def)
  then have "sane (pr_server p)" using process_run_server [OF assms(5)] by (simp add: start_process_def)
  then have "w_usage (m_usage (sv_Pool (pr_server ?p1))) = []"
    using final_flush_empties [of "pr_server p" order] assms(8,9,11) by (simp add: sane_def pool_ok_def)
  moreover have "sv_Pool (pr_server p') = sv_Pool (pr_server ?p1)"
    using assms(7,10) by (intro exited_pool [of rest]) (auto split: if_splits)
  ultimately show "mget (w_usage (m_usage (sv_Pool (pr_server p')))) k = None" by simp
qed (use assms(12,13) in simp_all)

section \<open>A start\<close>

lemma scripts_keep:
  assumes "\<forall>m\<in>set ms. \<forall>d d'. run_sql (mg_sql m) d = Inr d' \<longrightarrow> P d \<longrightarrow> P d'"
  shows "scripts run_sql ms d = Inr d' \<Longrightarrow> P d \<Longrightarrow> P d'"
  using assms
proof (induction ms arbitrary: d)
  case (Cons m ms)
  from Cons.prems(1) obtain d1 where d1: "run_sql (mg_sql m) d = Inr d1" "scripts run_sql ms d1 = Inr d'"
    by (auto simp: ebind_Inr_iff split: sum.splits)
  with Cons.prems(2,3) have "P d1" by simp
  with Cons.IH [OF d1(2)] Cons.prems(3) show ?case by simp
qed simp

text \<open>
  C17. A process that serves has migrated its database: the tables it serves are what the migrations
  that were pending, in the order of their versions, have made of the tables it found, each of
  them is recorded, and when the scripts respect the constraints, the server starts in the state
  that its invariant asks for.
\<close>

theorem start_serves_migrated_tables:
  assumes "main_start getenv drv run_sql dir newGCM codec faults s = (s', Inr sv)"
    and "loadMigrations dir = Inr ms" "schema_ok (md_tables s)"
    and "\<And>m d d'. m \<in> set ms \<Longrightarrow> run_sql (mg_sql m) d = Inr d' \<Longrightarrow> schema_ok d \<Longrightarrow> schema_ok d'"
  shows "\<exists>d. scripts run_sql (pending_of (map fst (applied_rows s)) ms) (md_tables s) = Inr d
    \<and> tables (sv_DB sv) = tables d
    \<and> applied_rows s' = applied_rows s @ rows_for (pending_of (map fst (applied_rows s)) ms)
    \<and> sane sv \<and> coherent sv"
proof -
  let ?pending = "pending_of (map fst (applied_rows s)) ms"
  obtain s1 where s1: "RunMigrations run_sql dir s = (s1, None)"
    "start_server getenv newGCM codec ((md_tables s1)\<lparr>pg_faults := faults\<rparr>) = Some sv"
    "applied_rows s' = applied_rows s1" "tables (sv_DB sv) = tables (md_tables s1)"
    using main_start_cases [OF assms(1)] by metis
  from RunMigrations_cases [OF s1(1) assms(2)] have run: "scripts run_sql ?pending (md_tables s) = Inr (md_tables s1)"
    "applied_rows s1 = applied_rows s @ rows_for ?pending" by auto
  have "set ?pending \<subseteq> set ms" by (auto simp: pending_of_def)
  then have "schema_ok (md_tables s1)"
    using scripts_keep [of ?pending run_sql schema_ok, OF _ run(1) assms(3)] assms(4) by (meson subsetD)
  then have "schema_ok ((md_tables s1)\<lparr>pg_faults := faults\<rparr>)"
    using faultless_schema_ok by (simp add: faultless_def)
  with start_ok [OF s1(2)] run s1(3,4) show ?thesis by auto
qed

end
