(* ===== verification/Response_Types.thy ===== *)
theory Response_Types
  imports Permission
begin

text \<open>
  The types of the API: every route answers with one status and one struct of \<open>responses.go\<close>, or
  with an error.
\<close>

section \<open>Types of bodies\<close>

datatype bodytype = TText | TError | TStatus | TPoolHealth | TDrawnKey | TAddedKey | TListedKeys
  | TBudgetSet | TSpendRecorded | TExhaustedKey | TCreatedConsumer | TListedConsumers
  | TGrantedScope | TUsageEvents | TTier | TTiers

fun type_of :: "respbody \<Rightarrow> bodytype" where
  "type_of (PlainText x) = TText"
| "type_of (ErrorBody x) = TError"
| "type_of (StatusBody x) = TStatus"
| "type_of (PoolHealth n e) = TPoolHealth"
| "type_of (DrawnKey x) = TDrawnKey"
| "type_of (AddedKey x) = TAddedKey"
| "type_of (ListedKeys xs) = TListedKeys"
| "type_of (BudgetSet i b) = TBudgetSet"
| "type_of (SpendRecorded x) = TSpendRecorded"
| "type_of (ExhaustedKey x t) = TExhaustedKey"
| "type_of (CreatedConsumer i n t) = TCreatedConsumer"
| "type_of (ListedConsumers xs) = TListedConsumers"
| "type_of (GrantedScope i t) = TGrantedScope"
| "type_of (UsageEvents xs) = TUsageEvents"
| "type_of (TierViewed x) = TTier"
| "type_of (TierViews xs) = TTiers"

definition error_response :: "response \<Rightarrow> bool" where
  "error_response resp \<longleftrightarrow> type_of (rs_body resp) = TError \<and> rs_status resp \<in>
     {StatusBadRequest, StatusUnauthorized, StatusForbidden, StatusNotFound, StatusConflict,
      StatusTooManyRequests, StatusInternalServerError}"

definition typed :: "nat \<Rightarrow> bodytype \<Rightarrow> response \<Rightarrow> bool" where
  "typed status ty resp \<longleftrightarrow> rs_status resp = status \<and> type_of (rs_body resp) = ty \<or> error_response resp"

definition answers_with :: "nat \<Rightarrow> bodytype \<Rightarrow> handler \<Rightarrow> bool" where
  "answers_with status ty h \<longleftrightarrow> (\<forall>E r s s' resp. h E r s = (s', resp) \<longrightarrow> typed status ty resp)"

lemma typed_error [simp]:
  "typed status ty (writeError StatusBadRequest msg)" "typed status ty (writeError StatusUnauthorized msg)"
  "typed status ty (writeError StatusForbidden msg)" "typed status ty (writeError StatusNotFound msg)"
  "typed status ty (writeError StatusConflict msg)" "typed status ty (writeError StatusTooManyRequests msg)"
  "typed status ty (writeError StatusInternalServerError msg)"
  by (simp_all add: typed_def error_response_def writeError_def writeJSON_def)

lemma typed_success [simp]: "type_of body = ty \<Longrightarrow> typed status ty (writeJSON status body)"
  by (simp add: typed_def writeJSON_def)

section \<open>Early returns\<close>

lemma typed_early:
  "decodeBody dec r = Inl resp \<Longrightarrow> typed status ty resp"
  "resolveKeyCaller E r s = (s', Inl resp) \<Longrightarrow> typed status ty resp"
  "tierNamed n s = (s', Inl resp) \<Longrightarrow> typed status ty resp"
  "keyInScope caller i s = Some resp \<Longrightarrow> typed status ty resp"
  by (auto simp: decodeBody_def resolveKeyCaller_def tierNamed_def keyInScope_def
      split: sum.splits prod.splits option.splits if_splits)

lemma typed_decoded:
  "decodeAddKey E r = Inl resp \<Longrightarrow> typed status ty resp"
  "decodeTierBody E r = Inl resp \<Longrightarrow> typed status ty resp"
proof -
  show "typed status ty resp" if "decodeAddKey E r = Inl resp"
    using that typed_early(1) [of "env_decode_addKey E" r resp status ty]
    by (cases "decodeBody (env_decode_addKey E) r")
      (auto simp: decodeAddKey_def split: sum.split_asm option.split_asm if_split_asm)
  show "typed status ty resp" if "decodeTierBody E r = Inl resp"
    using that typed_early(1) [of "env_decode_tier E" r resp status ty]
    by (cases "decodeBody (env_decode_tier E) r") (auto simp: decodeTierBody_def split: if_split_asm)
qed

section \<open>The handlers\<close>

lemma typed_answer: "answer_key E caller f key s = (s', resp) \<Longrightarrow> typed StatusOK TDrawnKey resp"
  by (auto simp: answer_key_def split: sum.splits)

lemma typed_draws: "answers_with StatusOK TDrawnKey GetKey" "answers_with StatusOK TDrawnKey GetKeyByID"
  unfolding answers_with_def GetKey_def GetKeyByID_def Let_def
  by (auto dest: typed_early typed_answer split: sum.splits prod.splits if_splits)

lemma typed_reports:
  "answers_with StatusOK TExhaustedKey ExhaustKey" "answers_with StatusOK TSpendRecorded ReportSpend"
  unfolding answers_with_def ExhaustKey_def ReportSpend_def Let_def
  by (auto dest: typed_early split: sum.splits prod.splits option.splits)

lemma typed_listings:
  "answers_with StatusOK TStatus HealthCheck" "answers_with StatusOK TPoolHealth Health"
  "answers_with StatusOK TListedKeys ListKeys" "answers_with StatusOK TTiers ListTiers"
  "answers_with StatusOK TListedConsumers ListConsumers" "answers_with StatusOK TUsageEvents ListUsageEvents_h"
  unfolding answers_with_def HealthCheck_def Health_def ListKeys_def ListTiers_def ListConsumers_def
    ListUsageEvents_h_def Let_def
  by (auto split: sum.splits prod.splits)

lemma typed_keys:
  "answers_with StatusCreated TAddedKey AddKey" "answers_with StatusOK TStatus DeleteKey_h"
  "answers_with StatusOK TBudgetSet SetKeyBudget"
  unfolding answers_with_def AddKey_def DeleteKey_h_def SetKeyBudget_def Let_def
  by (auto dest: typed_early typed_decoded split: sum.splits prod.splits option.splits)

lemma typed_tiers:
  "answers_with StatusCreated TTier CreateTier_h" "answers_with StatusOK TTier UpdateTierFeatures"
  "answers_with StatusOK TStatus DeleteTier_h"
  unfolding answers_with_def CreateTier_h_def UpdateTierFeatures_def DeleteTier_h_def Let_def
  by (auto dest: typed_early typed_decoded split: sum.splits prod.splits option.splits)

lemma typed_consumers:
  "answers_with StatusCreated TCreatedConsumer CreateConsumer_h"
  "answers_with StatusOK TStatus DeleteConsumer_h" "answers_with StatusCreated TGrantedScope AddConsumerScope_h"
  unfolding answers_with_def CreateConsumer_h_def DeleteConsumer_h_def AddConsumerScope_h_def Let_def
  by (auto dest: typed_early split: sum.splits prod.splits option.splits if_splits)

lemma typed_admin: "answers_with status ty h \<Longrightarrow> answers_with status ty (admin h)"
  unfolding answers_with_def admin_def AdminAuth_def clearAfterWrite_def
  by (auto split: option.splits prod.splits if_splits)

lemmas typed_handlers = typed_draws typed_reports typed_listings typed_keys typed_tiers typed_consumers

section \<open>The API\<close>

text \<open>Status and struct of a success, for every route.\<close>

definition api_types :: "((meth \<times> segment list) \<times> nat \<times> bodytype) list" where
  "api_types =
     [((GET, [Lit ''health'']), StatusOK, TStatus),
      ((GET, [Lit ''key'']), StatusOK, TDrawnKey),
      ((GET, [Lit ''key'', Wild ''id'']), StatusOK, TDrawnKey),
      ((POST, [Lit ''key'', Wild ''id'', Lit ''exhausted'']), StatusOK, TExhaustedKey),
      ((POST, [Lit ''key'', Wild ''id'', Lit ''spend'']), StatusOK, TSpendRecorded),
      ((GET, [Lit ''admin'', Lit ''tiers'']), StatusOK, TTiers),
      ((POST, [Lit ''admin'', Lit ''tiers'']), StatusCreated, TTier),
      ((PATCH, [Lit ''admin'', Lit ''tiers'']), StatusOK, TTier),
      ((DELETE, [Lit ''admin'', Lit ''tiers'', Wild ''name'']), StatusOK, TStatus),
      ((GET, [Lit ''admin'', Lit ''keys'']), StatusOK, TListedKeys),
      ((POST, [Lit ''admin'', Lit ''keys'']), StatusCreated, TAddedKey),
      ((PATCH, [Lit ''admin'', Lit ''keys'', Wild ''id'']), StatusOK, TBudgetSet),
      ((DELETE, [Lit ''admin'', Lit ''keys'', Wild ''id'']), StatusOK, TStatus),
      ((GET, [Lit ''admin'', Lit ''health'']), StatusOK, TPoolHealth),
      ((GET, [Lit ''admin'', Lit ''consumers'']), StatusOK, TListedConsumers),
      ((POST, [Lit ''admin'', Lit ''consumers'']), StatusCreated, TCreatedConsumer),
      ((DELETE, [Lit ''admin'', Lit ''consumers'', Wild ''id'']), StatusOK, TStatus),
      ((POST, [Lit ''admin'', Lit ''consumers'', Wild ''id'', Lit ''scopes'']), StatusCreated, TGrantedScope),
      ((GET, [Lit ''admin'', Lit ''usage'']), StatusOK, TUsageEvents)]"

lemma routes_typed:
  "list_all (\<lambda>t. case map_of api_types (rt_method t, rt_path t) of
       None \<Rightarrow> False | Some (status, ty) \<Rightarrow> answers_with status ty (rt_handler t)) NewRouter"
  by (simp add: NewRouter_def open_route_def admin_route_def api_types_def typed_handlers typed_admin)

text \<open>
  C13. The API is typed: a request that a route takes is answered with that route's status and that
  route's struct, or with an error text under one of seven statuses; any other request is
  answered 404 or 405 with a plain text.
\<close>

theorem responses_typed:
  assumes "ServeHTTP E r s = (s', resp)"
  shows "case find_route r of
       None \<Rightarrow> rs_status resp \<in> {StatusNotFound, StatusMethodNotAllowed} \<and> type_of (rs_body resp) = TText
     | Some (t, vals) \<Rightarrow> (case map_of api_types (rt_method t, rt_path t) of
           None \<Rightarrow> False | Some (status, ty) \<Rightarrow> typed status ty resp)"
proof (cases "find_route r")
  case None
  with assms show ?thesis by (auto simp: ServeHTTP_def writeJSON_def split: if_splits)
next
  case (Some tv)
  obtain t vals where tv: "tv = (t, vals)" by (cases tv)
  have h: "rt_handler t E (r\<lparr>rq_values := vals\<rparr>) s = (s', resp)"
    using assms Some tv by (simp add: ServeHTTP_def)
  have "t \<in> set NewRouter" using find_route_some(1) Some tv by blast
  with routes_typed obtain status ty where "map_of api_types (rt_method t, rt_path t) = Some (status, ty)"
    "answers_with status ty (rt_handler t)" by (auto simp: list_all_iff split: option.splits)
  with h Some tv show ?thesis by (auto simp: answers_with_def)
qed

end
