(* ===== verification/Draw_Cost.thy ===== *)
theory Draw_Cost
  imports Pool
begin

text \<open>
  How long a draw can take: both loops of \<open>GetKeyForFeature\<close> end, after at most one check of
  every key and one attempt at every available one.
\<close>

section \<open>The first loop\<close>

lemma scan_keys_reads:
  assumes "scan_keys clk f al n a keys = (av, off, n')"
  shows "n' \<le> n + length keys" "length av \<le> length keys"
    "(\<And>i. i < n + length keys \<Longrightarrow> clk' i = clk i) \<Longrightarrow> scan_keys clk' f al n a keys = (av, off, n')"
proof -
  have "n' \<le> n + length keys \<and> length av \<le> length keys
    \<and> ((\<forall>i<n + length keys. clk' i = clk i) \<longrightarrow> scan_keys clk' f al n a keys = (av, off, n'))"
    using assms
  proof (induction keys arbitrary: n a av off n')
    case (Cons k keys)
    show ?case
    proof (cases "offered f al k")
      case False
      with Cons.prems have "scan_keys clk f al n (Suc a) keys = (av, off, n')" by simp
      from Cons.IH [OF this] False show ?thesis by simp
    next
      case True
      obtain av1 off1 n1 where r: "scan_keys clk f al (Suc n) (Suc a) keys = (av1, off1, n1)"
        by (metis prod_cases3)
      from Cons.IH [OF r] Cons.prems True r show ?thesis by (auto split: if_splits)
    qed
  qed simp
  then show "n' \<le> n + length keys" "length av \<le> length keys"
    "(\<And>i. i < n + length keys \<Longrightarrow> clk' i = clk i) \<Longrightarrow> scan_keys clk' f al n a keys = (av, off, n')"
    by blast+
qed

section \<open>The second loop\<close>

text \<open>The attempts of the second loop, counted by the rotation counter.\<close>

lemma draw_loop_reads:
  "draw_loop clk f n av m = (m', r) \<Longrightarrow>
   \<exists>t \<le> length av. m_next m' = m_next m + of_nat t
     \<and> (\<forall>clk'. (\<forall>i<n + 2 * t. clk' i = clk i) \<longrightarrow> draw_loop clk' f n av m = (m', r))"
proof (induction "length av" arbitrary: av m n)
  case 0
  then show ?case by (intro exI [of _ 0]) simp
next
  case (Suc l)
  then have ne: "av \<noteq> []" by auto
  define a where "a = av ! turn m av"
  define m1 where "m1 = fst (try_key (clk n) (clk (Suc n)) f a (m\<lparr>m_next := m_next m + 1\<rparr>))"
  have step: "draw_loop clk' f n av m =
      (if serves (clk n) (clk (Suc n)) f (m_keys m ! a) then (m1, Some (served_of (m_keys m ! a)))
       else draw_loop clk' f (n + 2) (remove_at (turn m av) av) m1)"
    if "clk' n = clk n" "clk' (Suc n) = clk (Suc n)" for clk'
    using draw_loop_step [OF ne, of m1 clk' n f m] that by (simp add: a_def m1_def)
  have next1: "m_next m1 = m_next m + 1" by (simp add: m1_def)
  show ?case
  proof (cases "serves (clk n) (clk (Suc n)) f (m_keys m ! a)")
    case True
    with Suc.prems step [of clk] have "m' = m1" "r = Some (served_of (m_keys m ! a))" by simp_all
    with True step next1 ne show ?thesis by (intro exI [of _ 1]) (auto simp: Suc_le_eq)
  next
    case False
    with Suc.prems step [of clk] have rest: "draw_loop clk f (n + 2) (remove_at (turn m av) av) m1 = (m', r)"
      by simp
    have len: "length (remove_at (turn m av) av) = l"
      using Suc.hyps(2) turn_less [OF ne, of m] by simp
    obtain t where t: "t \<le> l" "m_next m' = m_next m1 + of_nat t"
      "\<forall>clk'. (\<forall>i<n + 2 + 2 * t. clk' i = clk i) \<longrightarrow>
         draw_loop clk' f (n + 2) (remove_at (turn m av) av) m1 = (m', r)"
      using Suc.hyps(1) [OF len [symmetric] rest] len by auto
    have "draw_loop clk' f n av m = (m', r)" if "\<forall>i<n + 2 * Suc t. clk' i = clk i" for clk'
    proof -
      have "clk' n = clk n" "clk' (Suc n) = clk (Suc n)" "\<forall>i<n + 2 + 2 * t. clk' i = clk i"
        using that by simp_all
      with step False t(3) show ?thesis by simp
    qed
    with t(1,2) next1 Suc.hyps(2) show ?thesis by (intro exI [of _ "Suc t"]) simp
  qed
qed

text \<open>
  C5. A draw ends: it reads the clock at most once for every key of the pool and twice for every
  attempt, and makes at most as many attempts as the pool has keys, so the answer depends on no
  later reading; the rotation advances by exactly the number of attempts, modulo \<open>2\<^sup>6\<^sup>4\<close>.
\<close>

theorem draw_terminates:
  assumes "GetKeyForFeature clk f al m = (m', r)"
  shows "\<exists>t \<le> length (m_keys m). m_next m' = m_next m + of_nat t
    \<and> (\<forall>clk'. (\<forall>i<length (m_keys m) + 2 * t. clk' i = clk i) \<longrightarrow> GetKeyForFeature clk' f al m = (m', r))"
proof -
  obtain av off n where scan: "scan_keys clk f al 0 0 (m_keys m) = (av, off, n)" by (metis prod_cases3)
  note reads = scan_keys_reads [OF scan]
  obtain m1 x where loop: "draw_loop clk f n av m = (m1, x)" by fastforce
  obtain t where t: "t \<le> length av" "m_next m1 = m_next m + of_nat t"
    "\<forall>clk'. (\<forall>i<n + 2 * t. clk' i = clk i) \<longrightarrow> draw_loop clk' f n av m = (m1, x)"
    using draw_loop_reads [OF loop] by blast
  have m': "m' = m1" using assms scan loop by (simp add: GetKeyForFeature_def split: option.splits)
  have "GetKeyForFeature clk' f al m = (m', r)" if "\<forall>i<length (m_keys m) + 2 * t. clk' i = clk i" for clk'
  proof -
    have "scan_keys clk' f al 0 0 (m_keys m) = (av, off, n)" by (rule reads(3)) (use that in simp)
    moreover have "draw_loop clk' f n av m = (m1, x)" using t(3) that reads(1) by simp
    ultimately show ?thesis using assms scan loop by (simp add: GetKeyForFeature_def)
  qed
  with t(1,2) reads(2) m' show ?thesis by (intro exI [of _ t]) simp
qed

end
