(* ===== verification/Process_Witnesses.thy ===== *)
theory Process_Witnesses
  imports Guarantee_Witnesses Process Response_Types Draw_Cost
begin

text \<open>
  The small server as a process: started on a migrated database, stopped by a signal and started
  again; the types of its answers and the cost of its draws.
\<close>

section \<open>Draws and answers\<close>

theorem draw_terminates_witness:
  "\<exists>t\<le>2. m_next (fst (GetKeyForFeature (\<lambda>_. now0) ''search'' None demo_pool)) = 7 + of_nat t"
proof -
  have "length (m_keys demo_pool) = 2" "m_next demo_pool = 7" by (simp_all add: demo_pool_def)
  with draw_terminates [of "\<lambda>_. now0" "''search''" None demo_pool, OF prod.collapse [symmetric]]
  show ?thesis by auto
qed

theorem responses_typed_witness:
  "typed StatusOK TDrawnKey (snd (ServeHTTP demo_env draw_request demo_server))"
  using responses_typed [of demo_env draw_request demo_server, OF prod.collapse [symmetric]]
    get_key_route [of draw_request] demo_requests(6,7)
  by (simp add: open_route_def api_types_def)

section \<open>A stop and a start\<close>

text \<open>The first key is drawn, then the process is told to stop.\<close>

definition until_flush :: "pevent list" where
  "until_flush = [Act (Request demo_env draw_request), Signal, ShutdownDone True, BalancesDone]"

definition flushing :: process where
  "flushing = \<lparr>pr_phase = StoppingWriteback, pr_late = False,
     pr_server = fst (ServeHTTP demo_env draw_request demo_server)\<rparr>"

definition restarted :: server where
  "restarted = the (start_server demo_getenv (\<lambda>_. None) demo_codec
     (sv_DB (server_do (FlushTick rev) (pr_server flushing))))"

lemma demo_stops:
  "case ServeHTTP demo_env draw_request demo_server of (s1, resp) \<Rightarrow> pg_faults (sv_DB s1) = []
     \<and> entries_fit (sv_DB s1) (w_usage (m_usage (sv_Pool s1)))
     \<and> \<not> Option.is_none (start_server demo_getenv (\<lambda>_. None) demo_codec
           (sv_DB (server_do (FlushTick rev) s1)))"
  by code_simp

theorem orderly_restart_keeps_usage_limit_witness:
  "drawn_times ''k1'' (acts_of (until_flush @ [FinalFlush rev, Exit])) demo_server
     + drawn_times ''k1'' (map (\<lambda>n. Request (later_env n) id_request) [2, 4, 6, 8]) restarted \<in> {1, 2, 3}"
proof -
  let ?after = "map (\<lambda>n. Request (later_env n) id_request) [2, 4, 6, 8]"
  let ?p = "\<lparr>pr_phase = Stopped, pr_late = False, pr_server = server_do (FlushTick rev) (pr_server flushing)\<rparr>"
  have run: "process_run until_flush (start_process demo_server) = Some flushing" "\<not> pr_late flushing"
    "process_run [FinalFlush rev, Exit] flushing = Some ?p"
    by (simp_all add: until_flush_def flushing_def start_process_def running_defs)
  have ordinary: "list_all (ordinary_event ''k1'') until_flush"
    "list_all (ordinary_event ''k1'') [FinalFlush rev, Exit]" "list_all (ordinary ''k1'') ?after"
    by (simp_all add: until_flush_def demo_uuids list_all_iff)
  have start: "start_server demo_getenv (\<lambda>_. None) demo_codec (sv_DB (pr_server ?p)) = Some restarted"
    using demo_stops by (auto simp: restarted_def flushing_def Option.is_none_def split: prod.splits)
  have "drawn_times ''k1'' (acts_of (until_flush @ [FinalFlush rev, Exit])) demo_server
      + drawn_times ''k1'' ?after restarted \<le> nat (3 - 0)"
    by (rule orderly_restart_keeps_usage_limit [OF demo_started demo_tables_ok demo_limited _ run(1) ordinary(1) run(2)
        _ _ run(3) ordinary(2) start ordinary(3)]) (use demo_stops in \<open>simp_all add: flushing_def split: prod.splits\<close>)
  moreover have "hands_out ''k1'' (snd (ServeHTTP demo_env draw_request demo_server))"
    by (simp add: hands_out_def demo_served)
  then have "0 < drawn_times ''k1'' (acts_of (until_flush @ [FinalFlush rev, Exit])) demo_server"
    unfolding until_flush_def append.simps acts_of.simps by (rule drawn_first)
  ultimately show ?thesis by auto
qed

definition demo_driver :: "unit driver" where
  "demo_driver = \<lparr>drv_ParseConfig = (\<lambda>_. Inr \<lparr>pc_MaxConns = 10, pc_MinConns = 0, pc_MaxConnIdleTime = 0, pc_rest = ()\<rparr>),
     drv_NewWithConfig = (\<lambda>_. None), drv_Ping = (\<lambda>_. None)\<rparr>"

definition unmigrated :: "pg migdb" where
  "unmigrated = \<lparr>md_tables = served_pg, md_applied = None, md_faults = []\<rparr>"

theorem start_serves_migrated_tables_witness:
  "case main_start demo_getenv demo_driver (\<lambda>sql d. Inr d) (Some demo_dir) (\<lambda>_. None) demo_codec [] unmigrated of
     (s', Inl err) \<Rightarrow> False
   | (s', Inr sv) \<Rightarrow> map fst (applied_rows s') = [1, 2, 10] \<and> sane sv"
proof -
  let ?start = "main_start demo_getenv demo_driver (\<lambda>sql d. Inr d) (Some demo_dir) (\<lambda>_. None) demo_codec [] unmigrated"
  let ?ms = "[\<lparr>mg_version = 1, mg_name = ''a'', mg_sql = ''a''\<rparr>, \<lparr>mg_version = 2, mg_name = ''b'', mg_sql = ''b''\<rparr>,
      \<lparr>mg_version = 10, mg_name = ''c'', mg_sql = ''c''\<rparr>]"
  have "case ?start of (s', Inl err) \<Rightarrow> False | (s', Inr sv) \<Rightarrow> True" by code_simp
  then obtain s' sv where r: "?start = (s', Inr sv)" by (auto split: prod.splits sum.splits)
  have ms: "loadMigrations (Some demo_dir) = Inr ?ms" by code_simp
  have "schema_ok (md_tables unmigrated)" by (simp add: unmigrated_def demo_tables_ok)
  from start_serves_migrated_tables [OF r ms this] r show ?thesis
    by (auto simp: applied_rows_def unmigrated_def pending_of_def rows_for_def)
qed

end
