(* ===== verification/Caveats.thy ===== *)
theory Caveats
  imports Server_Witnesses
begin

text \<open>
  Where the guarantees end: behaviour the properties leave room for, at data that shows it.
\<close>

section \<open>Usage and benches\<close>

text \<open>
  A draw counts under the key's lock and queues its use after releasing it. When the draw that
  opened the window queues after one that came second, the second use is not written.
\<close>

lemma late_window_reset_drops_use:
  "pending (Served k (WindowReset k t w)) k c = (2, Some (timestamptz t))"
  "pending (WindowReset k t (Served k w)) k c = (1, Some (timestamptz t))"
  by (simp_all add: pending_Served pending_WindowReset)

text \<open>
  A bench the database did not take is reported as taken, and the next reload of the pool, which
  any write of the administration causes, returns the key to what its row says.
\<close>

lemma bench_lost_when_not_stored:
  "case MarkExhausted (pg_pool demo_codec) ''k1'' (now0 + Minute) demo_pool (demo_pg\<lparr>pg_faults := [Some ''down'']\<rparr>) of
     (m, d, known) \<Rightarrow> known \<and> bench_of m ''k1'' = Some (now0 + Minute)
       \<and> (case ReloadKeys (pg_pool demo_codec) m d of (m', d', err) \<Rightarrow> err = None \<and> bench_of m' ''k1'' = None)"
  by code_simp

section \<open>Secrets\<close>

text \<open>
  A sealed secret for which no key is configured is left out of what is served; a sealed key value
  makes the draw fail.
\<close>

lemma unopened_secret_left_out:
  "\<forall>s\<in>set rows. hasPrefix (ks_Value s) GCMPrefix \<Longrightarrow> openSecrets \<lparr>aead = None\<rparr> rows = []"
  unfolding openSecrets_def
  by (induction rows) (auto simp: Open_tagged_no_key)

section \<open>Spend\<close>

text \<open>The stored spend of key \<open>k\<close>.\<close>

definition spent_in :: "pg \<Rightarrow> string \<Rightarrow> (f64 \<times> time option) option" where
  "spent_in d k = map_option (\<lambda>r. (kr_spent r, kr_spent_period_start r)) (key_row_of d k)"

text \<open>
  A report reads the key's budget and the clock before it writes. When the unit of the budget
  changes in between, the amount is added in the old unit to the spend in the new one.
\<close>

lemma report_across_unit_change:
  "case UpdateKeyBudget ''k1'' (Some (demo_budget\<lparr>b_Unit := ''credits''\<rparr>)) demo_pg of (d, r) \<Rightarrow>
     case RecordSpend_db (demo_spend ''e1'' ''r1'') (Some (2 * Second)) d of (d', r') \<Rightarrow>
       r = Inr () \<and> se_Unit (demo_spend ''e1'' ''r1'') = ''usd'' \<and> r' = Inr (Fin 3, False)
       \<and> spent_in d' ''k1'' = Some (Fin 3, Some (2 * Second))"
  by code_simp

text \<open>
  When a report of the last period arrives after one of the current period, the current spend is
  replaced, and the next report of the current period starts again from its own amount.
\<close>

lemma late_report_drops_current_spend:
  "case RecordSpend_db (demo_spend ''e1'' ''r1'') (Some (2 * Second)) demo_pg of (d, r1) \<Rightarrow>
   case RecordSpend_db (demo_spend ''e2'' ''r2'') (Some Second) d of (d, r2) \<Rightarrow>
   case RecordSpend_db (demo_spend ''e3'' ''r3'') (Some (2 * Second)) d of (d, r3) \<Rightarrow>
     [r1, r2, r3] = replicate 3 (Inr (Fin 3, False)) \<and> spent_in d ''k1'' = Some (Fin 3, Some (2 * Second))"
  by code_simp

section \<open>Unknown ids\<close>

text \<open>Deleting a key or a consumer that does not exist is answered like a failure of the database.\<close>

lemma delete_unknown_id:
  "rs_status (snd (ServeHTTP demo_env (demo_request DELETE [''admin'', ''keys'', ''k9''] ''root'') demo_server))
     = StatusInternalServerError"
  "rs_status (snd (ServeHTTP demo_env (demo_request DELETE [''admin'', ''consumers'', ''c9''] ''root'') demo_server))
     = StatusInternalServerError"
  by code_simp+

end
