(* ===== verification/Spec2Isabelle.thy ===== *)
theory Spec2Isabelle
  imports Witnesses Process_Witnesses Caveats
begin

text \<open>
  Verification of keypooler, the Go service under \<open>src/\<close>.

  Other services ask keypooler for a provider's API key. It keeps keys in tiers; a tier names
  features with a rate limit each; a consumer holds a token with a scope on some tiers. Keys,
  counters and caches live in memory; Postgres holds the tables; use is counted in memory at once
  and written behind the answer. This library models every package of the program, from the HTTP
  routes down to the SQL statements, as executable functions, and proves what the program promises
  over whole runs, with requests, flushes, balance checks and failing database calls in any order.

  1. The parts and their theories

  Go and Postgres. \<open>Prelude\<close>: maps, results, package \<open>strings\<close>. \<open>GoTime\<close>: \<open>time.Time\<close> and
  \<open>Duration\<close> as integers of nanoseconds, \<open>timestamptz\<close> rounding to microseconds. \<open>Calendar\<close>:
  dates in UTC. \<open>Float64\<close>: \<open>float64\<close> with its comparison, rounding addition and subtraction.
  \<open>Db_Types\<close>: the rows and errors of \<open>internal/db/adapter.go\<close>.

  One key, \<open>internal/keypool\<close>. \<open>Budget\<close> is \<open>budget.go\<close>: validation, periods, resets, what
  remains. \<open>Window_Counter\<close> states the contract of a limit with a window; \<open>PoolKey\<close> is
  \<open>types.go\<close>: \<open>TryRate\<close>, \<open>TryConsumeUsage\<close>, \<open>Available\<close>, \<open>withinBudget\<close>, \<open>holdSpent\<close>.

  The pool, \<open>internal/keypool\<close>. \<open>Manager\<close> is \<open>manager.go\<close> and \<open>balance.go\<close>: both draws, reload,
  reports, listings. \<open>Serving\<close> proves the draws, \<open>Draw_Cost\<close> that they end, \<open>Pool\<close> the draw by id
  and the invariant \<open>pool_ok\<close>, \<open>Pool_Store\<close> what the pool asks of a database, \<open>Reload\<close> what a
  reload loads.

  Use behind the answer, \<open>internal/writeback\<close>. \<open>Writeback\<close>: the queue and \<open>Flush\<close>.
  \<open>Writeback_Steps\<close>: producers and flusher interleaved between store calls. \<open>Usage_Ledger\<close>:
  the same over the tables.

  The database, \<open>internal/db\<close> and \<open>migrations\<close>. \<open>Schema\<close>: tables, constraints, transactions,
  failing calls. \<open>Postgres\<close>: every method of \<open>PostgresAdapter\<close>. \<open>Database\<close>: constraints, and
  failed calls. \<open>Stored_Keys\<close>: keys read back as written. \<open>Spending\<close>: reports, new budgets,
  deleted tiers. \<open>Migrations\<close>: \<open>RunMigrations\<close>.

  Secrets, balances, configuration. \<open>Sealer\<close> is \<open>internal/crypto\<close>; \<open>Balances\<close> is
  \<open>internal/balance\<close>: three providers, the sync, its loop; \<open>Config\<close> is \<open>internal/config\<close>.

  HTTP, \<open>internal/api\<close>. \<open>Api_Types\<close>: requests, answers, server state. \<open>Auth\<close>: tokens and the
  cache. \<open>Key_Handlers\<close>, \<open>Admin_Handlers\<close>: every handler. \<open>Router\<close>: routes and \<open>ServeHTTP\<close>.
  \<open>Access\<close>, \<open>Permission\<close>: who gets a key. \<open>Responses\<close>, \<open>Response_Types\<close>: what an answer tells.
  \<open>Tier_Updates\<close>: a change of a tier, from the request to the limits in the pool.

  The program. \<open>Server\<close>: the composition, with the actions \<open>Request\<close>, \<open>FlushTick\<close>, \<open>SyncTick\<close>
  and \<open>World\<close>. \<open>Key_Rows\<close>, \<open>Key_Steps\<close>, \<open>Accounting\<close>: what the steps of the program do to one
  key, and what follows for it over a run. \<open>Server_Steps\<close>, \<open>Server_Runs\<close>: the server refines
  these steps. \<open>Guarantees\<close>: the limits and benches of a key over runs of the server.
  \<open>Lockout\<close>: a deleted consumer over later runs. \<open>Process\<close>: \<open>cmd/keypooler/main.go\<close> from the
  configuration to the exit.

  Data. \<open>Demo\<close>, \<open>Witnesses\<close>, \<open>Server_Witnesses\<close>, \<open>Guarantee_Witnesses\<close>, \<open>Process_Witnesses\<close>
  apply every property to concrete data; \<open>Caveats\<close> shows by example where guarantees end.

  2. How state and operations correspond

  A struct is a record, a pointer into \<open>m.keys\<close> a position in \<open>m_keys\<close>, an error a left value, a Go
  map an association list with distinct keys. The counter \<open>next\<close> is a 64-bit word and wraps around;
  Go's \<open>int\<close> is an integer except where the code narrows it (\<open>int32\<close> of the connections, 32-bit
  columns). Where Go's choice of a map's order could show, the order is an argument. An operation
  of the code that holds a lock throughout is one atomic function; one that releases it around a
  database call is composed of the parts (\<open>spend_begin\<close>, \<open>spend_finish\<close>; the flusher's steps).
  Each clock reading is an argument of its own: \<open>clk n\<close> is the reading after \<open>n\<close> others, and
  nothing makes readings monotone unless a property says so.

  From outside come, as parameters: the codec of \<open>metadata_json\<close> and the decoders of request
  bodies (\<open>encoding/json\<close>), SHA-256, fresh ids and random bytes, the parser of RFC 3339, the AEAD of
  AES-GCM, the answers of the providers and the decoders of their bodies, the driver that opens the
  connection pool, and what the SQL text of a migration does (\<open>run_sql\<close>). What a property assumes
  of one of them is a hypothesis of it: that AES-GCM opens what it sealed (\<open>aead_correct\<close>), that
  JSON decodes what it encoded, that a fresh id is not the id of the key in question, that a
  migration script respects the constraints.

  A database call consumes one entry of \<open>pg_faults\<close>: with \<open>Some\<close> message the call fails and
  changes nothing; with \<open>None\<close>, or when the list is used up, it is done. The action \<open>World\<close> lets
  time pass on the database and replaces this list at any moment, so every property of a run holds
  whatever calls fail. Transactions that fail at any statement or at the commit are undone.

  3. What is shown

  Draws (C1 to C5): which key is handed out or why none is, that a draw succeeds when it can, that
  it rotates, and that it ends. Permission (C6 to C8, C12): an answer with a key means that the
  tables, at that moment, let the caller draw it; deleting a consumer locks it out from the next
  request on, over any later run that mints no equal token, except for a lookup in flight. Limits
  over runs (C9 to C11): the lifetime limit and the bench of a key hold over any run, and an
  orderly restart forgets no use. Answers (C13, C15,
  C20): their types, what an error means, bounded listings. The process (C14, C16, C17): the
  invariant of a run, migrations exactly once, and the state a start serves. Then the
  components: balances and stored keys (C18, C19, C30), write-back (C21, C22), the pool (C23, C24),
  spend (C25 to C27), changes and deletions of tiers (C28, C31), failed calls (C29), counters and
  budgets of one key (C32 to C39), the sealer (C40). That every call keeps the constraints of the
  schema is a lemma of \<open>Database\<close>: the modelled statements refuse what Postgres refuses.

  The interfaces are locales: \<open>counter\<close> and \<open>window_counter\<close>, discharged by \<open>TryRate\<close> and
  \<open>TryConsumeUsage\<close> in \<open>PoolKey\<close>; \<open>usage_store\<close>, the store of the write-back writer, and
  \<open>pool_store\<close>, the store of the pool, discharged by the adapter in \<open>Usage_Ledger\<close> and
  \<open>Pool_Store\<close>; \<open>balance_pool\<close>, the pool of the balance sync, discharged by the manager over the
  database in \<open>Balances\<close>.

  Properties of runs are proved by simulation. \<open>server_invariant\<close> keeps \<open>sane\<close> and \<open>coherent\<close>
  along \<open>server_do\<close>. For one key the server is a sequence of \<open>mstep\<close>, seen from the key a sequence
  of \<open>kstep\<close>; the limit and the bench are invariants of \<open>kstep\<close> by rule induction. The write-back
  steps refine a ledger that is written at once.

  Bounds. No definition has fuel: the loop over available keys shrinks its list, the other loops
  are structural. Loops over ticks (\<open>Run\<close> of the writer and of the syncer) take the finite list of
  what each tick finds; the properties hold for every list. The limits of the code are kept:
  10000 queued events, 1000 listed events.

  4. Not modelled

  The encoder of answers (an answer is its status and the struct that is encoded); log lines; the
  listener, its timeouts, signals and the scheduling of goroutines, of which \<open>Process\<close> keeps
  the order of the phases and what runs in which; cleaning of paths by \<open>ServeMux\<close>; the connection
  pool of pgx; a database that acts and loses its answer; text values the database's encoding
  refuses, and collations other than \<open>C\<close>; the order of two migration files with one version number,
  and of two rows with one \<open>created_at\<close>, which \<open>GetAllKeys\<close> of the model lists as inserted; that an
  integer outside its column is refused by pgx already (the model lets the server refuse it, with
  the same effect); a crash, after which up to a period of queued use is lost. In \<open>Server\<close> requests follow one
  another; overlap is treated where the code releases a lock and the outcome can differ: the
  write-back steps, a cache lookup in flight (C8), and the examples of \<open>Caveats\<close>.
\<close>

end
